(* ===== verification/Prelude.thy ===== *)
theory Prelude
  imports Main "HOL-Library.Word" "HOL-Library.AList" "HOL-Library.Monad_Syntax"
begin

text \<open>
  Shared vocabulary of the development: the machine integers of the Rust sources, the
  arithmetic of the Rust standard library the agent uses, association lists as the contents of
  BPF and standard hash maps, and the lemma collections the component proofs draw on.

  Integers keep their width. Plain \<open>+\<close> and \<open>-\<close> on a word wrap, as they do in the release
  builds in which the agent and its eBPF objects are compiled (overflow checks are a feature of
  the debug profile).
\<close>

type_synonym u8 = "8 word"
type_synonym u16 = "16 word"
type_synonym u32 = "32 word"
type_synonym u64 = "64 word"
type_synonym i32 = "32 word"
type_synonym i64 = "64 word"

named_theorems arith_defs \<open>the integer operations of the Rust standard library\<close>
named_theorems map_ops \<open>lookup after an operation on the contents of a hash map\<close>


section \<open>Integer operations of the Rust standard library\<close>

definition saturating_sub :: "'a::len word \<Rightarrow> 'a word \<Rightarrow> 'a word" where
  [arith_defs]: "saturating_sub a b = (if b \<le> a then a - b else 0)"

definition checked_div :: "'a::len word \<Rightarrow> 'a word \<Rightarrow> 'a word option" where
  [arith_defs]: "checked_div a b = (if b = 0 then None else Some (a div b))"

definition unwrap_or :: "'a option \<Rightarrow> 'a \<Rightarrow> 'a" where
  [arith_defs]: "unwrap_or x d = (case x of None \<Rightarrow> d | Some v \<Rightarrow> v)"

lemma unwrap_or_simps [simp]:
  "unwrap_or None d = d"
  "unwrap_or (Some v) d = v"
  by (simp_all add: unwrap_or_def)

text \<open>\<open>TryFrom<i64>\<close> for the unsigned types and for \<open>i32\<close>: the value when it is in range.\<close>

definition try_from_i64 :: "int \<Rightarrow> int \<Rightarrow> i64 \<Rightarrow> 'a::len word option" where
  [arith_defs]: "try_from_i64 lo hi v =
     (if lo \<le> sint v \<and> sint v \<le> hi then Some (word_of_int (sint v)) else None)"

lemma unat_saturating_sub [simp]: "unat (saturating_sub a b) = unat a - unat b"
  by (simp add: saturating_sub_def unat_sub word_le_nat_alt)

lemma saturating_sub_le: "saturating_sub a b \<le> a"
  by (simp add: word_le_nat_alt)

lemma saturating_sub_self [simp]: "saturating_sub a a = 0"
  by (simp add: saturating_sub_def)

lemma saturating_sub_0 [simp]: "saturating_sub a 0 = a"
  by (simp add: saturating_sub_def)

lemma saturating_sub_add_cancel: "b \<le> a \<Longrightarrow> b + saturating_sub a b = a"
  by (simp add: saturating_sub_def)

lemma checked_div_eq_None [simp]: "checked_div a b = None \<longleftrightarrow> b = 0"
  by (simp add: checked_div_def)

lemma uint_word_of_int_id:
  assumes "0 \<le> x" and "x < 2 ^ LENGTH('a)"
  shows "uint (word_of_int x :: 'a::len word) = x"
  using assms by (simp add: unsigned_of_int take_bit_eq_mod)

lemma unat_plus_no_overflow:
  fixes a b :: "'a::len word"
  assumes "unat a + unat b < 2 ^ LENGTH('a)"
  shows "unat (a + b) = unat a + unat b"
  using assms by (simp add: unat_word_ariths)

lemma saturating_sub_plus:
  fixes a b :: "'a::len word"
  assumes "unat a + unat b < 2 ^ LENGTH('a)"
  shows "saturating_sub (a + b) a = b"
proof -
  have "unat (saturating_sub (a + b) a) = unat b"
    using assms by (simp add: unat_plus_no_overflow)
  then show ?thesis by (simp only: word_unat_eq_iff)
qed


section \<open>Big-endian and little-endian byte sequences\<close>

unbundle bit_operations_syntax

text \<open>
  The loop \<open>tag = (tag << 8) | byte\<close>, which reads a byte sequence as a big-endian number.
\<close>

definition push_byte :: "'a::len word \<Rightarrow> u8 \<Rightarrow> 'a word" where
  "push_byte acc b = push_bit 8 acc OR ucast b"

definition from_be_bytes :: "u8 list \<Rightarrow> 'a::len word" where
  "from_be_bytes bs = foldl push_byte 0 bs"

definition from_le_bytes :: "u8 list \<Rightarrow> 'a::len word" where
  "from_le_bytes bs = from_be_bytes (rev bs)"

text \<open>\<open>u32::from_be\<close> on a little-endian machine, applied to a value read natively: both
  targets (\<open>bpfel-unknown-none\<close> and \<open>x86_64\<close>) are little-endian.\<close>

lemma from_be_bytes_Nil [simp]: "from_be_bytes [] = 0"
  by (simp add: from_be_bytes_def)

lemma from_be_bytes_snoc: "from_be_bytes (bs @ [b]) = push_byte (from_be_bytes bs) b"
  by (simp add: from_be_bytes_def)


section \<open>Association lists as map contents\<close>

definition keys :: "('k \<times> 'v) list \<Rightarrow> 'k list" where
  "keys m = map fst m"

lemma map_of_update [map_ops]: "map_of (AList.update k v m) = (map_of m)(k \<mapsto> v)"
  by (simp add: update_conv')

lemma map_of_delete [map_ops]: "map_of (AList.delete k m) = (map_of m)(k := None)"
  by (simp add: delete_conv')

lemma distinct_keys_update [simp]:
  "distinct (keys m) \<Longrightarrow> distinct (keys (AList.update k v m))"
  by (simp add: keys_def distinct_update)

lemma distinct_keys_delete [simp]:
  "distinct (keys m) \<Longrightarrow> distinct (keys (AList.delete k m))"
  by (simp add: keys_def distinct_delete)

lemma distinct_keys_filter [simp]:
  "distinct (keys m) \<Longrightarrow> distinct (keys (filter P m))"
  by (induction m) (auto simp: keys_def)

lemma in_keys_iff: "k \<in> set (keys m) \<longleftrightarrow> map_of m k \<noteq> None"
  by (simp add: keys_def map_of_eq_None_iff)

lemma length_update:
  "length (AList.update k v m) = (if k \<in> set (keys m) then length m else Suc (length m))"
  by (induction m) (auto simp: keys_def)

lemma map_of_filter_keys:
  "map_of (filter (\<lambda>p. P (fst p)) m) k = (if P k then map_of m k else None)"
  by (induction m) auto

end
