(* ===== verification/Bpf_Map.thy ===== *)
theory Bpf_Map
  imports Prelude
begin

text \<open>
  The kernel side the eBPF programs run on: BPF hash maps, LRU hash maps and fallible reads of
  user memory. This code is not part of the repository, so its decisions are parameters, the
  fields of the record \<open>kernel\<close>, and what the programs rely on is stated by the predicates
  \<open>hash_documented\<close> and \<open>lru_documented\<close> (bpf(2): an update of a present key or of a map with
  room succeeds, an update that needs a new element in a full hash map fails; an LRU map evicts
  instead of failing).

  The contents of a map are an association list. Its order is the order in which the map is
  iterated from userspace.
\<close>

record kernel =
  hash_refuse :: "nat \<Rightarrow> nat \<Rightarrow> bool \<Rightarrow> i64 option"
    \<comment> \<open>maximal entries, current entries, is the key present: the error, if refused\<close>
  lru_evict :: "nat \<Rightarrow> u32 list \<Rightarrow> u32 \<Rightarrow> i64 + u32 list"
    \<comment> \<open>maximal entries, present keys, inserted key: an error, or the keys evicted first\<close>

type_synonym ('k, 'v) bpf_map = "('k \<times> 'v) list"

definition map_get :: "('k, 'v) bpf_map \<Rightarrow> 'k \<Rightarrow> 'v option" where
  "map_get m k = map_of m k"

definition map_remove :: "('k, 'v) bpf_map \<Rightarrow> 'k \<Rightarrow> ('k, 'v) bpf_map" where
  "map_remove m k = AList.delete k m"

definition hash_insert ::
  "kernel \<Rightarrow> nat \<Rightarrow> ('k, 'v) bpf_map \<Rightarrow> 'k \<Rightarrow> 'v \<Rightarrow> i64 + ('k, 'v) bpf_map" where
  "hash_insert K n m k v =
     (case hash_refuse K n (length m) (k \<in> set (keys m)) of
        Some e \<Rightarrow> Inl e
      | None \<Rightarrow> Inr (AList.update k v m))"

definition lru_insert ::
  "kernel \<Rightarrow> nat \<Rightarrow> (u32, 'v) bpf_map \<Rightarrow> u32 \<Rightarrow> 'v \<Rightarrow> i64 + (u32, 'v) bpf_map" where
  "lru_insert K n m k v =
     (case lru_evict K n (keys m) k of
        Inl e \<Rightarrow> Inl e
      | Inr vs \<Rightarrow> Inr (AList.update k v (filter (\<lambda>p. fst p \<notin> set vs) m)))"

text \<open>\<open>let _ = MAP.insert(..)\<close>: the result is dropped, a refused insert changes nothing.\<close>

definition ignoring :: "'m \<Rightarrow> 'e + 'm \<Rightarrow> 'm" where
  "ignoring m r = (case r of Inl _ \<Rightarrow> m | Inr m' \<Rightarrow> m')"

abbreviation hash_put :: "kernel \<Rightarrow> nat \<Rightarrow> ('k, 'v) bpf_map \<Rightarrow> 'k \<Rightarrow> 'v \<Rightarrow> ('k, 'v) bpf_map" where
  "hash_put K n m k v \<equiv> ignoring m (hash_insert K n m k v)"

abbreviation lru_put :: "kernel \<Rightarrow> nat \<Rightarrow> (u32, 'v) bpf_map \<Rightarrow> u32 \<Rightarrow> 'v \<Rightarrow> (u32, 'v) bpf_map" where
  "lru_put K n m k v \<equiv> ignoring m (lru_insert K n m k v)"

definition hash_documented :: "kernel \<Rightarrow> bool" where
  "hash_documented K \<longleftrightarrow>
     (\<forall>n c. hash_refuse K n c True = None
        \<and> (c < n \<longrightarrow> hash_refuse K n c False = None)
        \<and> (n \<le> c \<longrightarrow> hash_refuse K n c False \<noteq> None))"

definition lru_documented :: "kernel \<Rightarrow> bool" where
  "lru_documented K \<longleftrightarrow>
     (\<forall>n ks k. \<exists>vs. lru_evict K n ks k = Inr vs
        \<and> (0 < n \<and> distinct ks \<and> length ks \<le> n
             \<longrightarrow> length (filter (\<lambda>j. j \<notin> set vs \<and> j \<noteq> k) ks) < n))"

text \<open>
  A concrete kernel with the documented behaviour, on which the witnesses run: \<open>E2BIG\<close> from a
  full hash map, and the entry at the head of a full LRU map is the one that goes.
\<close>

definition ref_kernel :: kernel where
  "ref_kernel =
     \<lparr>hash_refuse = (\<lambda>n c present. if present \<or> c < n then None else Some (- 7)),
      lru_evict = (\<lambda>n ks k. Inr (if k \<in> set ks \<or> length ks < n then [] else take 1 ks))\<rparr>"

lemma ref_kernel_hash_documented [simp, intro]: "hash_documented ref_kernel"
  by (simp add: hash_documented_def ref_kernel_def)

lemma length_filter_drop_head:
  assumes "0 < n" and "length ks \<le> n"
  shows "length (filter (\<lambda>j. j \<notin> set (if k \<in> set ks \<or> length ks < n then [] else take 1 ks) \<and> j \<noteq> k) ks) < n"
    (is "length (filter ?P ks) < n")
proof (cases "length ks < n")
  case True
  then show ?thesis by (rule le_less_trans [OF length_filter_le])
next
  case False
  then have "length ks = n" and "ks \<noteq> []" using assms by auto
  then have "hd ks \<in> set ks" and "k \<notin> set ks \<Longrightarrow> hd ks \<in> set (take 1 ks)"
    by (cases ks; simp)+
  then have "length (filter ?P ks) < length ks"
    using False by (cases "k \<in> set ks") (auto intro: length_filter_less)
  then show ?thesis using assms(2) by (rule less_le_trans)
qed

lemma ref_kernel_lru_documented [simp, intro]: "lru_documented ref_kernel"
proof -
  have "lru_evict ref_kernel n ks k = Inr (if k \<in> set ks \<or> length ks < n then [] else take 1 ks)"
    for n ks k by (simp add: ref_kernel_def)
  then show ?thesis
    unfolding lru_documented_def by (intro allI exI conjI impI, assumption) (rule length_filter_drop_head; simp)
qed


section \<open>Laws of the map operations\<close>

definition map_wf :: "nat \<Rightarrow> ('k, 'v) bpf_map \<Rightarrow> bool" where
  "map_wf n m \<longleftrightarrow> distinct (keys m) \<and> length m \<le> n"

lemma map_wf_Nil [simp, intro]: "map_wf n []"
  by (simp add: map_wf_def keys_def)

lemma map_get_Nil [simp]: "map_get [] k = None"
  by (simp add: map_get_def)

lemma map_get_remove [simp]: "map_get (map_remove m k) = (map_get m)(k := None)"
  by (rule ext) (simp add: map_get_def map_remove_def map_ops)

lemma map_remove_absent: "map_get m k = None \<Longrightarrow> map_remove m k = m"
  by (simp add: map_get_def map_remove_def delete_idem map_of_eq_None_iff)

lemma map_wf_remove [simp, intro]: "map_wf n m \<Longrightarrow> map_wf n (map_remove m k)"
  using length_delete_le [of k m] by (auto simp: map_wf_def map_remove_def)

lemma hash_insert_Inr:
  assumes "hash_insert K n m k v = Inr m'"
  shows "map_get m' = (map_get m)(k \<mapsto> v)"
  using assms by (auto simp: hash_insert_def map_get_def fun_eq_iff map_ops split: option.splits)

lemma hash_documented_accept:
  "hash_documented K \<Longrightarrow> present \<or> c < n \<Longrightarrow> hash_refuse K n c present = None"
  by (cases present) (simp_all add: hash_documented_def)

lemma hash_documented_refuse:
  "hash_documented K \<Longrightarrow> n \<le> c \<Longrightarrow> \<exists>e. hash_refuse K n c False = Some e"
  by (simp add: hash_documented_def)

lemma hash_insert_accepts:
  assumes "hash_documented K" and "map_get m k \<noteq> None \<or> length m < n"
  shows "hash_insert K n m k v = Inr (AList.update k v m)"
proof -
  have "hash_refuse K n (length m) (k \<in> set (keys m)) = None"
    by (rule hash_documented_accept [OF assms(1)])
      (use assms(2) in \<open>simp only: in_keys_iff map_get_def\<close>)
  then show ?thesis by (simp add: hash_insert_def)
qed

lemma hash_insert_refuses:
  assumes "hash_documented K" and "map_get m k = None" and "n \<le> length m"
  shows "\<exists>e. hash_insert K n m k v = Inl e"
proof -
  have "k \<notin> set (keys m)" using assms(2) by (simp add: in_keys_iff map_get_def)
  then show ?thesis using hash_documented_refuse [OF assms(1,3)] by (auto simp: hash_insert_def)
qed

lemma map_get_hash_put_other [simp]: "j \<noteq> k \<Longrightarrow> map_get (hash_put K n m k v) j = map_get m j"
  by (auto simp: ignoring_def hash_insert_def map_get_def map_ops split: option.splits)

lemma map_get_hash_put_room:
  assumes "hash_documented K" and "map_get m k \<noteq> None \<or> length m < n"
  shows "map_get (hash_put K n m k v) = (map_get m)(k \<mapsto> v)"
  using hash_insert_accepts [OF assms] by (auto simp: ignoring_def map_get_def fun_eq_iff map_ops)

lemma hash_put_full:
  assumes "hash_documented K" and "map_get m k = None" and "n \<le> length m"
  shows "hash_put K n m k v = m"
  using hash_insert_refuses [OF assms, of v] by (auto simp: ignoring_def)

lemma keys_hash_put_eq:
  assumes "hash_documented K" and "map_wf n m"
  shows "set (keys (hash_put K n m k v)) =
           (if k \<in> set (keys m) \<or> card (set (keys m)) < n then insert k (set (keys m)) else set (keys m))"
proof -
  have len: "card (set (keys m)) = length m"
    using assms(2) by (simp add: map_wf_def distinct_card) (simp add: keys_def)
  show ?thesis
  proof (cases "k \<in> set (keys m) \<or> card (set (keys m)) < n")
    case True
    then have "map_get m k \<noteq> None \<or> length m < n" by (simp add: len in_keys_iff map_get_def)
    from hash_insert_accepts [OF assms(1) this] True show ?thesis
      by (simp add: ignoring_def keys_def dom_update)
  next
    case False
    then have "map_get m k = None" and "n \<le> length m" by (simp_all add: len in_keys_iff map_get_def)
    from hash_put_full [OF assms(1) this] False show ?thesis by simp
  qed
qed

lemma map_wf_hash_put [intro]:
  assumes "hash_documented K" and "map_wf n m"
  shows "map_wf n (hash_put K n m k v)"
proof (cases "map_get m k \<noteq> None \<or> length m < n")
  case True
  then show ?thesis using hash_insert_accepts [OF assms(1) True] assms(2)
    by (auto simp: map_wf_def ignoring_def length_update in_keys_iff map_get_def)
next
  case False
  then have "map_get m k = None" and "n \<le> length m" by auto
  then show ?thesis using assms by (simp only: hash_put_full)
qed

lemma map_get_lru_put:
  assumes "lru_documented K"
  shows "map_get (lru_put K n m k v) j =
           (if j = k then Some v else
            if j \<in> set (projr (lru_evict K n (keys m) k)) then None else map_get m j)"
proof -
  obtain vs where "lru_evict K n (keys m) k = Inr vs"
    using assms unfolding lru_documented_def by blast
  then show ?thesis
    using map_of_filter_keys [of "\<lambda>j. j \<notin> set vs" m j]
    by (simp add: ignoring_def lru_insert_def map_get_def map_ops)
qed

lemma length_filter_keys: "length (filter (\<lambda>p. P (fst p)) m) = length (filter P (keys m))"
  by (induction m) (auto simp: keys_def)

lemma length_update_lt:
  assumes "distinct (keys m)"
  shows "length (AList.update k v m) = Suc (length (filter (\<lambda>j. j \<noteq> k) (keys m)))"
proof -
  have "length (AList.update k v m) = card (set (keys (AList.update k v m)))"
    using distinct_keys_update [OF assms, of k v] by (metis distinct_card keys_def length_map)
  also have "\<dots> = card (insert k (set (filter (\<lambda>j. j \<noteq> k) (keys m))))"
    by (rule arg_cong [of _ _ card]) (auto simp: keys_def dom_update)
  also have "\<dots> = Suc (card (set (filter (\<lambda>j. j \<noteq> k) (keys m))))"
    by (rule card_insert_disjoint) auto
  also have "card (set (filter (\<lambda>j. j \<noteq> k) (keys m))) = length (filter (\<lambda>j. j \<noteq> k) (keys m))"
    using assms by (simp only: distinct_card distinct_filter)
  finally show ?thesis .
qed

lemma keys_filter: "keys (filter (\<lambda>p. P (fst p)) m) = filter P (keys m)"
  by (induction m) (auto simp: keys_def)

lemma map_wf_lru_put [intro]:
  assumes "lru_documented K" and "map_wf n m" and "0 < n"
  shows "map_wf n (lru_put K n m k v)"
proof -
  have d: "distinct (keys m)" and l: "length (keys m) \<le> n"
    using assms(2) by (simp_all add: map_wf_def keys_def)
  obtain vs where vs: "lru_evict K n (keys m) k = Inr vs"
    and "0 < n \<and> distinct (keys m) \<and> length (keys m) \<le> n
      \<longrightarrow> length (filter (\<lambda>j. j \<notin> set vs \<and> j \<noteq> k) (keys m)) < n"
    using assms(1) unfolding lru_documented_def by blast
  then have room: "length (filter (\<lambda>j. j \<notin> set vs \<and> j \<noteq> k) (keys m)) < n"
    using d l assms(3) by blast
  let ?m = "filter (\<lambda>p. fst p \<notin> set vs) m"
  have "length (AList.update k v ?m) = Suc (length (filter (\<lambda>j. j \<noteq> k) (keys ?m)))"
    using d by (simp add: length_update_lt)
  also have "filter (\<lambda>j. j \<noteq> k) (keys ?m) = filter (\<lambda>j. j \<notin> set vs \<and> j \<noteq> k) (keys m)"
    by (simp only: keys_filter [of "\<lambda>j. j \<notin> set vs"] filter_filter)
  finally show ?thesis
    using room d vs by (simp add: map_wf_def ignoring_def lru_insert_def)
qed


section \<open>Rooms and single-entry maps\<close>

text \<open>\<open>lru_room\<close>: the insertion evicts nothing; \<open>hash_room\<close>: the insertion is accepted.\<close>

definition lru_room :: "kernel \<Rightarrow> nat \<Rightarrow> (u32, 'v) bpf_map \<Rightarrow> u32 \<Rightarrow> bool" where
  "lru_room K n m k \<longleftrightarrow> lru_evict K n (keys m) k = Inr []"

definition hash_room :: "nat \<Rightarrow> ('k, 'v) bpf_map \<Rightarrow> 'k \<Rightarrow> bool" where
  "hash_room n m k \<longleftrightarrow> map_get m k \<noteq> None \<or> length m < n"

lemma map_get_lru_put_room:
  "lru_room K n m k \<Longrightarrow> map_get (lru_put K n m k v) = (map_get m)(k \<mapsto> v)"
  by (auto simp: lru_room_def ignoring_def lru_insert_def map_get_def fun_eq_iff map_ops)

lemma map_get_lru_put_own:
  assumes "lru_documented K"
  shows "map_get (lru_put K n m k v) k = Some v"
  by (simp add: map_get_lru_put [OF assms])

lemma map_get_lru_put_other:
  assumes "lru_documented K" and "j \<noteq> k"
  shows "map_get (lru_put K n m k v) j = None \<or> map_get (lru_put K n m k v) j = map_get m j"
  using assms(2) by (simp add: map_get_lru_put [OF assms(1)])

lemma lru_room_ref_kernel [simp]: "length m < n \<Longrightarrow> lru_room ref_kernel n m k"
  by (simp add: lru_room_def ref_kernel_def keys_def)

text \<open>
  Accumulators and configuration maps are created with one entry and used under one key, so
  their contents are empty or that one entry, and every write to them is accepted.
\<close>

definition single_wf :: "'k \<Rightarrow> ('k, 'v) bpf_map \<Rightarrow> bool" where
  "single_wf k m \<longleftrightarrow> m = [] \<or> (\<exists>v. m = [(k, v)])"

lemma single_wf_Nil [simp, intro]: "single_wf k []"
  by (simp add: single_wf_def)

lemma single_wf_singleton [simp, intro]: "single_wf k [(k, v)]"
  by (simp add: single_wf_def)

lemma single_put [simp]:
  assumes "hash_documented K" and "single_wf k m"
  shows "hash_put K 1 m k v = [(k, v)]"
proof -
  have "map_get m k \<noteq> None \<or> length m < 1"
    using assms(2) by (auto simp: single_wf_def map_get_def)
  from hash_insert_accepts [OF assms(1) this, of v] show ?thesis
    using assms(2) by (auto simp: ignoring_def single_wf_def)
qed

lemma map_get_singleton [simp]: "map_get [(k, v)] j = (if j = k then Some v else None)"
  by (simp add: map_get_def)

end
