(* ===== verification/Correlator.thy ===== *)
theory Correlator
  imports Bpf_Map
begin

text \<open>
  The contract that the latency programs share (\<open>irss\<close>, \<open>iflat\<close>, both legs of
  \<open>iflat_uprobe\<close>): a first sighting of a datagram records its time under the datagram's tag, a
  second sighting of the same tag consumes the record and adds one latency to a cumulative
  (sum, count) pair. The locale \<open>tag_correlator\<close> states that contract over a program's own
  handlers; what follows from it for every interleaving of sightings is proved once, and each
  program interprets the locale on its handlers.

  \<open>inv\<close> is the program's well-formedness invariant (with the documented behaviour of the kernel
  folded in), \<open>pending\<close> the recorded times, \<open>total\<close> and \<open>samples\<close> the accumulators as userspace
  reads them, and \<open>exact s e\<close> says that the kernel has room for the record of \<open>e\<close> and evicts
  nothing for it.
\<close>

datatype ('p, 'q, 'o) sighting = First 'p u64 | Second 'q u64 | Neutral 'o

locale tag_correlator =
  fixes inv :: "'s \<Rightarrow> bool"
    and first :: "'s \<Rightarrow> 'p \<Rightarrow> u64 \<Rightarrow> 's"
    and second :: "'s \<Rightarrow> 'q \<Rightarrow> u64 \<Rightarrow> 's"
    and neutral :: "'s \<Rightarrow> 'o \<Rightarrow> 's"
    and first_tag :: "'s \<Rightarrow> 'p \<Rightarrow> 'k option"
    and second_tag :: "'s \<Rightarrow> 'q \<Rightarrow> 'k option"
    and pending :: "'s \<Rightarrow> 'k \<Rightarrow> u64 option"
    and total :: "'s \<Rightarrow> u64"
    and samples :: "'s \<Rightarrow> u64"
    and exact :: "'s \<Rightarrow> 'p \<Rightarrow> bool"
  assumes inv_first: "inv s \<Longrightarrow> inv (first s p t)"
    and inv_second: "inv s \<Longrightarrow> inv (second s q t)"
    and inv_neutral: "inv s \<Longrightarrow> inv (neutral s x)"
    and first_totals: "inv s \<Longrightarrow> total (first s p t) = total s \<and> samples (first s p t) = samples s"
    and first_untagged: "inv s \<Longrightarrow> first_tag s p = None \<Longrightarrow> pending (first s p t) = pending s"
    and first_own: "inv s \<Longrightarrow> first_tag s p = Some k \<Longrightarrow>
           pending (first s p t) k = None \<or> pending (first s p t) k = Some t"
    and first_other: "inv s \<Longrightarrow> first_tag s p = Some k \<Longrightarrow> j \<noteq> k \<Longrightarrow>
           pending (first s p t) j = None \<or> pending (first s p t) j = pending s j"
    and first_exact: "inv s \<Longrightarrow> first_tag s p = Some k \<Longrightarrow> exact s p \<Longrightarrow>
           pending (first s p t) = (pending s)(k \<mapsto> t)"
    and second_untagged: "inv s \<Longrightarrow> second_tag s q = None \<Longrightarrow>
           pending (second s q t) = pending s \<and> total (second s q t) = total s
             \<and> samples (second s q t) = samples s"
    and second_miss: "inv s \<Longrightarrow> second_tag s q = Some k \<Longrightarrow> pending s k = None \<Longrightarrow>
           pending (second s q t) = pending s \<and> total (second s q t) = total s
             \<and> samples (second s q t) = samples s"
    and second_match: "inv s \<Longrightarrow> second_tag s q = Some k \<Longrightarrow> pending s k = Some t0 \<Longrightarrow>
           pending (second s q t) = (pending s)(k := None)
             \<and> total (second s q t) = total s + saturating_sub t t0
             \<and> samples (second s q t) = samples s + 1"
    and neutral_frame: "inv s \<Longrightarrow>
           pending (neutral s x) = pending s \<and> total (neutral s x) = total s
             \<and> samples (neutral s x) = samples s"
begin

fun sight :: "'s \<Rightarrow> ('p, 'q, 'o) sighting \<Rightarrow> 's" where
  "sight s (First p t) = first s p t"
| "sight s (Second q t) = second s q t"
| "sight s (Neutral x) = neutral s x"

definition watch :: "'s \<Rightarrow> ('p, 'q, 'o) sighting list \<Rightarrow> 's" where
  "watch = foldl sight"

lemma watch_simps [simp]:
  "watch s [] = s"
  "watch s (e # es) = watch (sight s e) es"
  by (simp_all add: watch_def)

lemma inv_sight [simp, intro]: "inv s \<Longrightarrow> inv (sight s e)"
  by (cases e) (simp_all add: inv_first inv_second inv_neutral)

lemma inv_watch: "inv s \<Longrightarrow> inv (watch s es)"
  by (induction es arbitrary: s) auto

text \<open>The latency a sighting contributes, and the latencies of a whole run, in order.\<close>

fun contribution :: "'s \<Rightarrow> ('p, 'q, 'o) sighting \<Rightarrow> u64 list" where
  "contribution s (Second q t) =
     (case Option.bind (second_tag s q) (pending s) of
        None \<Rightarrow> [] | Some t0 \<Rightarrow> [saturating_sub t t0])"
| "contribution s _ = []"

fun latencies :: "'s \<Rightarrow> ('p, 'q, 'o) sighting list \<Rightarrow> u64 list" where
  "latencies s [] = []"
| "latencies s (e # es) = contribution s e @ latencies (sight s e) es"

lemma sight_totals:
  assumes "inv s"
  shows "total (sight s e) = total s + sum_list (contribution s e)"
    and "samples (sight s e) = samples s + of_nat (length (contribution s e))"
proof (atomize (full), cases e)
  case (Second q t)
  then show "total (sight s e) = total s + sum_list (contribution s e) \<and>
      samples (sight s e) = samples s + of_nat (length (contribution s e))"
    using second_untagged [OF assms, of q t] second_miss [OF assms, of q] second_match [OF assms, of q]
    by (cases "second_tag s q"; cases "Option.bind (second_tag s q) (pending s)") auto
qed (use first_totals [OF assms] neutral_frame [OF assms] in auto)

text \<open>
  The accumulators of a run are the sum (modulo the word size) and the number of the latencies
  of the matched datagrams: nothing else is ever added.
\<close>

lemma watch_totals:
  assumes "inv s"
  shows "total (watch s es) = total s + sum_list (latencies s es)"
    and "samples (watch s es) = samples s + of_nat (length (latencies s es))"
  using assms
proof (induction es arbitrary: s)
  case (Cons e es)
  { case 1
    then show ?case using Cons.IH(1) [of "sight s e"] sight_totals(1) [of s e]
      by (simp add: add.assoc)
  next
    case 2
    then show ?case using Cons.IH(2) [of "sight s e"] sight_totals(2) [of s e]
      by (simp add: add.assoc) }
qed simp_all

text \<open>
  One record, one match: the number of matched sightings of a tag never exceeds the number of
  its first sightings (plus the record pending at the start).
\<close>

fun matches :: "'k \<Rightarrow> 's \<Rightarrow> ('p, 'q, 'o) sighting list \<Rightarrow> nat" where
  "matches k s [] = 0"
| "matches k s (e # es) =
     (case e of
        Second q t \<Rightarrow> (if second_tag s q = Some k \<and> pending s k \<noteq> None then 1 else 0)
      | _ \<Rightarrow> 0) + matches k (sight s e) es"

fun records :: "'k \<Rightarrow> 's \<Rightarrow> ('p, 'q, 'o) sighting list \<Rightarrow> nat" where
  "records k s [] = 0"
| "records k s (e # es) =
     (case e of First p t \<Rightarrow> (if first_tag s p = Some k then 1 else 0) | _ \<Rightarrow> 0)
       + records k (sight s e) es"

lemma pending_first_new:
  assumes "inv s" and "pending (first s p t) k \<noteq> None" and "first_tag s p \<noteq> Some k"
  shows "pending s k \<noteq> None"
proof (cases "first_tag s p")
  case None
  then show ?thesis using assms(2) first_untagged [OF assms(1)] by simp
next
  case (Some j)
  then show ?thesis using assms(2,3) first_other [OF assms(1) Some, of k t] by auto
qed

lemma pending_second:
  assumes "inv s"
  shows "pending (second s q t) j =
           (if second_tag s q = Some j then None else pending s j)"
  using second_untagged [OF assms, of q t] second_miss [OF assms, of q _ t]
    second_match [OF assms, of q _ _ t]
  by (cases "second_tag s q"; cases "Option.bind (second_tag s q) (pending s)") auto

lemma matches_le_records:
  assumes "inv s"
  shows "matches k s es \<le> records k s es + (if pending s k = None then 0 else 1)"
  using assms
proof (induction es arbitrary: s)
  case (Cons e es)
  have IH: "matches k (sight s e) es
      \<le> records k (sight s e) es + (if pending (sight s e) k = None then 0 else 1)"
    using Cons by simp
  show ?case
  proof (cases e)
    case (First p t)
    then show ?thesis using IH pending_first_new [OF Cons.prems, of p t k]
      by (cases "first_tag s p = Some k"; cases "pending s k = None";
          cases "pending (first s p t) k = None") auto
  next
    case (Second q t)
    then show ?thesis using IH pending_second [OF Cons.prems, of q t k]
      by (cases "second_tag s q = Some k"; cases "pending s k = None") auto
  next
    case (Neutral x)
    then show ?thesis using IH neutral_frame [OF Cons.prems, of x] by simp
  qed
qed simp

text \<open>
  Every pending time is genuine: it is the time of the most recent first sighting of its tag
  (or was pending at the start and the tag has not been sighted since).
\<close>

fun last_seen :: "'k \<Rightarrow> u64 option \<Rightarrow> 's \<Rightarrow> ('p, 'q, 'o) sighting list \<Rightarrow> u64 option" where
  "last_seen k d s [] = d"
| "last_seen k d s (e # es) =
     last_seen k
       (case e of
          First p t \<Rightarrow> (if first_tag s p = Some k then Some t else d)
        | Second q t \<Rightarrow> (if second_tag s q = Some k then None else d)
        | Neutral x \<Rightarrow> d) (sight s e) es"

lemma pending_genuine:
  assumes "inv s" and "pending s k = None \<or> pending s k = d"
  shows "pending (watch s es) k = None \<or> pending (watch s es) k = last_seen k d s es"
  using assms
proof (induction es arbitrary: s d)
  case (Cons e es)
  let ?d = "case e of First p t \<Rightarrow> (if first_tag s p = Some k then Some t else d)
        | Second q t \<Rightarrow> (if second_tag s q = Some k then None else d) | Neutral x \<Rightarrow> d"
  have "pending (sight s e) k = None \<or> pending (sight s e) k = ?d"
  proof (cases e)
    case (First p t)
    then show ?thesis
      using Cons.prems first_own [OF Cons.prems(1), of p k t] first_untagged [OF Cons.prems(1), of p t]
        first_other [OF Cons.prems(1), of p _ k t]
      by (cases "first_tag s p") auto
  next
    case (Second q t)
    then show ?thesis using Cons.prems pending_second [OF Cons.prems(1), of q t k] by auto
  next
    case (Neutral x)
    then show ?thesis using Cons.prems neutral_frame [OF Cons.prems(1), of x] by simp
  qed
  then show ?case using Cons.IH [of "sight s e" ?d] Cons.prems(1) by simp
qed simp

text \<open>
  A record that nothing disturbs (no further sighting of its tag, no eviction) stays, so a
  datagram sighted first at \<open>t1\<close> and second at \<open>t2\<close> contributes exactly its own latency.
\<close>

fun undisturbed :: "'k \<Rightarrow> 's \<Rightarrow> ('p, 'q, 'o) sighting list \<Rightarrow> bool" where
  "undisturbed k s [] \<longleftrightarrow> True"
| "undisturbed k s (e # es) \<longleftrightarrow>
     (case e of
        First p t \<Rightarrow> first_tag s p \<noteq> Some k \<and> exact s p
      | Second q t \<Rightarrow> second_tag s q \<noteq> Some k
      | Neutral x \<Rightarrow> True) \<and> undisturbed k (sight s e) es"

lemma pending_sight_undisturbed:
  assumes "inv s" and "undisturbed k s [e]"
  shows "pending (sight s e) k = pending s k"
proof (cases e)
  case (First p t)
  then show ?thesis
    using assms first_untagged [OF assms(1), of p t] first_exact [OF assms(1), of p _ t]
    by (cases "first_tag s p") auto
next
  case (Second q t)
  then show ?thesis using assms pending_second [OF assms(1), of q t k] by simp
next
  case (Neutral x)
  then show ?thesis using neutral_frame [OF assms(1), of x] by simp
qed

lemma pending_undisturbed:
  assumes "inv s" and "undisturbed k s es"
  shows "pending (watch s es) k = pending s k"
  using assms
proof (induction es arbitrary: s)
  case (Cons e es)
  then show ?case using pending_sight_undisturbed [of s k e] by simp
qed simp

lemma measured_once:
  assumes "inv s" and "first_tag s p = Some k" and "exact s p"
    and "undisturbed k (first s p t1) es"
    and "second_tag (watch (first s p t1) es) q = Some k"
  shows "total (second (watch (first s p t1) es) q t2)
           = total (watch (first s p t1) es) + saturating_sub t2 t1
         \<and> samples (second (watch (first s p t1) es) q t2)
           = samples (watch (first s p t1) es) + 1
         \<and> pending (second (watch (first s p t1) es) q t2) k = None"
proof -
  let ?s = "first s p t1"
  have "inv ?s" and "inv (watch ?s es)"
    using assms(1) by (simp_all add: inv_first inv_watch)
  moreover have "pending (watch ?s es) k = Some t1"
    using pending_undisturbed [OF \<open>inv ?s\<close> assms(4)] first_exact [OF assms(1-3)] by simp
  ultimately show ?thesis using second_match [of "watch ?s es" q k t1 t2] assms(5) by simp
qed

text \<open>
  With room in the maps the program is exactly the abstract correlator: a finite map of pending
  times and the list of the latencies measured so far.
\<close>

fun abstract_sight ::
  "('k \<rightharpoonup> u64) \<times> u64 list \<Rightarrow> 's \<Rightarrow> ('p, 'q, 'o) sighting \<Rightarrow> ('k \<rightharpoonup> u64) \<times> u64 list" where
  "abstract_sight (P, L) s (First p t) =
     (case first_tag s p of None \<Rightarrow> (P, L) | Some k \<Rightarrow> (P(k \<mapsto> t), L))"
| "abstract_sight (P, L) s (Second q t) =
     (case second_tag s q of
        None \<Rightarrow> (P, L)
      | Some k \<Rightarrow> (case P k of None \<Rightarrow> (P, L) | Some t0 \<Rightarrow> (P(k := None), L @ [saturating_sub t t0])))"
| "abstract_sight (P, L) s (Neutral x) = (P, L)"

definition refines :: "'s \<Rightarrow> ('k \<rightharpoonup> u64) \<times> u64 list \<Rightarrow> bool" where
  "refines s A \<longleftrightarrow> pending s = fst A \<and> total s = sum_list (snd A)
     \<and> samples s = of_nat (length (snd A))"

lemma sight_refines:
  assumes "inv s" and "refines s A" and "\<And>p t. e = First p t \<Longrightarrow> exact s p"
  shows "refines (sight s e) (abstract_sight A s e)"
proof -
  obtain P L where A: "A = (P, L)" by (cases A)
  show ?thesis
  proof (cases e)
    case (First p t)
    then show ?thesis
      using assms first_untagged [OF assms(1), of p t] first_totals [OF assms(1), of p t]
        first_exact [OF assms(1), of p _ t]
      by (cases "first_tag s p") (auto simp: A refines_def)
  next
    case (Second q t)
    then show ?thesis
      using assms second_untagged [OF assms(1), of q t] second_miss [OF assms(1), of q _ t]
        second_match [OF assms(1), of q _ _ t]
      by (cases "second_tag s q"; cases "Option.bind (second_tag s q) P")
        (auto simp: A refines_def)
  next
    case (Neutral x)
    then show ?thesis using assms neutral_frame [OF assms(1), of x] by (simp add: A refines_def)
  qed
qed

end

end
