(* ===== verification/User_Mem.thy ===== *)
theory User_Mem
  imports Prelude
begin

text \<open>
  Memory of the traced process as \<open>bpf_probe_read_user\<close> sees it: a byte per readable address. A
  read of \<open>n\<close> bytes succeeds when all of them are readable. Values are read in the machine's
  byte order, which is little-endian on the targets of the agent; \<open>from_be\<close> of the Rust standard
  library then swaps the bytes.
\<close>

unbundle bit_operations_syntax

type_synonym user_mem = "u64 \<Rightarrow> u8 option"

fun read_bytes :: "user_mem \<Rightarrow> u64 \<Rightarrow> nat \<Rightarrow> u8 list option" where
  "read_bytes mem a 0 = Some []"
| "read_bytes mem a (Suc n) =
     do {
       b \<leftarrow> mem a;
       bs \<leftarrow> read_bytes mem (a + 1) n;
       Some (b # bs)
     }"

definition to_le_bytes :: "nat \<Rightarrow> 'a::len word \<Rightarrow> u8 list" where
  "to_le_bytes n w = map (\<lambda>i. ucast (drop_bit (8 * i) w)) [0..<n]"

text \<open>\<open>u16::from_be\<close> and \<open>u32::from_be\<close> on a little-endian machine.\<close>

definition from_be :: "'a::len word \<Rightarrow> 'a word" where
  "from_be w = from_be_bytes (to_le_bytes (LENGTH('a) div 8) w)"

definition field :: "nat \<Rightarrow> nat \<Rightarrow> u8 list \<Rightarrow> 'a::len word" where
  "field off n bs = from_le_bytes (take n (drop off bs))"

lemma length_read_bytes: "read_bytes mem a n = Some bs \<Longrightarrow> length bs = n"
  by (induction n arbitrary: a bs) (auto split: Option.bind_splits)

lemma from_le_bytes_Cons: "from_le_bytes (b # bs) = push_byte (from_le_bytes bs) b"
  by (simp add: from_le_bytes_def from_be_bytes_snoc)

lemma from_le_bytes_Nil [simp]: "from_le_bytes [] = 0"
  by (simp add: from_le_bytes_def)

lemma to_le_bytes_Suc: "to_le_bytes (Suc n) w = ucast w # to_le_bytes n (drop_bit 8 w)"
  by (simp add: to_le_bytes_def upt_conv_Cons drop_bit_drop_bit
      del: upt_Suc flip: map_Suc_upt) (simp add: algebra_simps)

lemma byte_bit: "bit (b :: u8) n \<Longrightarrow> n < 8"
  using bit_imp_le_length [of b n] by simp

lemma bit_from_le_bytes:
  "8 * length bs \<le> n \<Longrightarrow> \<not> bit (from_le_bytes bs :: 'a::len word) n"
proof (induction bs arbitrary: n)
  case (Cons b bs)
  then show ?case
    by (auto simp: from_le_bytes_Cons push_byte_def bit_simps dest: byte_bit)
qed simp

lemma push_byte_inverse:
  fixes acc :: "'a::len word"
  assumes "8 \<le> LENGTH('a)" and "\<And>n. LENGTH('a) - 8 \<le> n \<Longrightarrow> \<not> bit acc n"
  shows "ucast (push_byte acc b) = b" and "drop_bit 8 (push_byte acc b) = acc"
proof -
  show "ucast (push_byte acc b) = b"
    using assms(1) by (intro bit_word_eqI) (auto simp: push_byte_def bit_simps)
  show "drop_bit 8 (push_byte acc b) = acc"
  proof (rule bit_word_eqI)
    fix n assume "n < LENGTH('a)"
    then show "bit (drop_bit 8 (push_byte acc b)) n \<longleftrightarrow> bit acc n"
      using assms(2) [of n] by (cases "8 + n < LENGTH('a)") (auto simp: push_byte_def bit_simps dest: byte_bit)
  qed
qed

text \<open>Reading a value natively and swapping it reads the bytes in big-endian order.\<close>

lemma to_le_bytes_from_le_bytes:
  assumes "8 * length bs \<le> LENGTH('a::len)"
  shows "to_le_bytes (length bs) (from_le_bytes bs :: 'a word) = bs"
  using assms
proof (induction bs)
  case (Cons b bs)
  then have "ucast (push_byte (from_le_bytes bs :: 'a word) b) = b"
    and "drop_bit 8 (push_byte (from_le_bytes bs :: 'a word) b) = from_le_bytes bs"
    by (intro push_byte_inverse; simp add: bit_from_le_bytes)+
  with Cons show ?case by (simp add: to_le_bytes_Suc from_le_bytes_Cons)
qed (simp add: to_le_bytes_def)

lemma from_be_from_le_bytes:
  assumes "8 * length bs = LENGTH('a::len)"
  shows "from_be (from_le_bytes bs :: 'a word) = from_be_bytes bs"
proof -
  have "LENGTH('a) div 8 = length bs" using assms by linarith
  then show ?thesis using to_le_bytes_from_le_bytes [of bs, where 'a = 'a] assms
    by (simp add: from_be_def)
qed


text \<open>A memory with the given contents at the given addresses, for concrete inputs.\<close>

fun mem_of :: "(u64 \<times> u8 list) list \<Rightarrow> user_mem" where
  "mem_of [] a = None"
| "mem_of ((base, bs) # segs) a =
     (if unat (a - base) < length bs then Some (bs ! unat (a - base)) else mem_of segs a)"


lemma read_bytes_eqI:
  assumes "\<And>i. i < length bs \<Longrightarrow> mem (a + of_nat i) = Some (bs ! i)"
  shows "read_bytes mem a (length bs) = Some bs"
  using assms
proof (induction bs arbitrary: a)
  case (Cons b bs)
  have "mem (a + 1 + of_nat i) = Some (bs ! i)" if "i < length bs" for i
    using Cons.prems [of "Suc i"] that by (simp add: add.assoc)
  moreover have "mem a = Some b" using Cons.prems [of 0] by simp
  ultimately show ?case using Cons.IH [of "a + 1"] by simp
qed simp

lemma read_bytes_mem_of_hit [simp]:
  assumes "n = length bs" and "length bs < 2 ^ 64"
  shows "read_bytes (mem_of ((base, bs) # segs)) base n = Some bs"
proof -
  have "mem_of ((base, bs) # segs) (base + of_nat i) = Some (bs ! i)" if "i < length bs" for i
  proof -
    have "unat (of_nat i :: u64) = i" using that assms(2) by (simp add: unat_of_nat)
    then show ?thesis using that by simp
  qed
  then show ?thesis unfolding assms(1) by (rule read_bytes_eqI)
qed

lemma read_bytes_mem_of_skip [simp]:
  assumes "length bs \<le> unat (a - base)" and "unat (a - base) + n < 2 ^ 64"
  shows "read_bytes (mem_of ((base, bs) # segs)) a n = read_bytes (mem_of segs) a n"
  using assms
proof (induction n arbitrary: a)
  case (Suc n)
  have shift: "a + 1 - base = (a - base) + 1" by simp
  have "unat ((a - base) + 1) = unat (a - base) + 1"
    using Suc.prems(2) unat_plus_no_overflow [of "a - base" 1] by simp
  then have "unat (a + 1 - base) = unat (a - base) + 1" by (simp only: shift)
  then show ?case using Suc.IH [of "a + 1"] Suc.prems by simp
qed simp

end
