(* ===== verification/Irss_Ebpf.thy ===== *)
theory Irss_Ebpf
  imports Correlator User_Mem
begin

text \<open>
  The eBPF side of \<open>irss\<close> (\<open>src/ebpf/irss/src\<close>, \<open>src/common/irss/src/lib.rs\<close>): the
  \<open>recvmsg\<close> enter and exit tracepoints with the \<open>udp_recvmsg\<close> kprobe between them record when a
  datagram was received, the \<open>sendmsg\<close> tracepoint matches the datagram on its way out.

  A hook takes what the kernel gives it: the thread id, the tracepoint arguments (\<open>None\<close> when
  \<open>ctx.read_at\<close> fails), the traced process's memory, the clock. Shown: the hooks are a tag
  correlator; the port filter decides for the thread's own call whatever other threads do in
  between; sends to other destinations leave the maps alone.
\<close>

definition KEY_SIZE :: nat where "KEY_SIZE = 4"
definition LISTEN_PORT :: u16 where "LISTEN_PORT = 5020"
definition LISTEN_PORT_KEY :: u32 where "LISTEN_PORT_KEY = 0"
definition RAW_DEST :: "u8 list" where "RAW_DEST = [10, 10, 10, 253]"
definition RAW_DEST_KEY :: u32 where "RAW_DEST_KEY = 0"
definition AF_INET :: u16 where "AF_INET = 2"
definition ACCUM_KEY :: u32 where "ACCUM_KEY = 0"
definition SK_NUM_OFFSET :: u64 where "SK_NUM_OFFSET = 14"

lemmas irss_consts =
  KEY_SIZE_def LISTEN_PORT_def LISTEN_PORT_KEY_def RAW_DEST_def RAW_DEST_KEY_def AF_INET_def
  ACCUM_KEY_def SK_NUM_OFFSET_def

record irss_maps =
  RECV_MSG_PTR :: "(u64, u64) bpf_map"
  TIMESTAMP_MAP :: "(u32, u64) bpf_map"
  LATENCY_SUM :: "(u32, u64) bpf_map"
  LATENCY_COUNT :: "(u32, u64) bpf_map"
  RAW_DEST_MAP :: "(u32, u32) bpf_map"
  LISTEN_PORT_MAP :: "(u32, u32) bpf_map"

definition irss_maps_init :: irss_maps where
  "irss_maps_init = \<lparr>RECV_MSG_PTR = [], TIMESTAMP_MAP = [], LATENCY_SUM = [], LATENCY_COUNT = [],
     RAW_DEST_MAP = [], LISTEN_PORT_MAP = []\<rparr>"


section \<open>Structures read from user memory\<close>

record UserMsgHdr =
  msg_name :: u64
  msg_namelen :: u32
  msg_iov :: u64
  msg_iovlen :: u64
  msg_control :: u64
  msg_controllen :: u64
  msg_flags :: i32

record IoVec =
  iov_base :: u64
  iov_len :: u64

record SockaddrIn =
  sin_family :: u16
  sin_port :: u16
  sin_addr :: u32
  sin_zero :: "u8 list"

record SysEnterMsgArgs =
  enter_common :: "u8 list"
  enter_syscall_nr :: u32
  enter_pad :: u32
  fd :: u64
  msg :: u64

record SysExitArgs =
  exit_common :: "u8 list"
  exit_syscall_nr :: i32
  exit_pad :: u32
  ret :: i64

text \<open>\<open>read_user::<T>\<close> for the four types it is used at: the C layout of each structure.\<close>

definition read_user_msghdr :: "user_mem \<Rightarrow> u64 \<Rightarrow> UserMsgHdr option" where
  "read_user_msghdr mem a =
     do {
       bs \<leftarrow> read_bytes mem a 56;
       Some \<lparr>msg_name = field 0 8 bs, msg_namelen = field 8 4 bs, msg_iov = field 16 8 bs,
         msg_iovlen = field 24 8 bs, msg_control = field 32 8 bs, msg_controllen = field 40 8 bs,
         msg_flags = field 48 4 bs\<rparr>
     }"

definition read_user_iovec :: "user_mem \<Rightarrow> u64 \<Rightarrow> IoVec option" where
  "read_user_iovec mem a =
     do {
       bs \<leftarrow> read_bytes mem a 16;
       Some \<lparr>iov_base = field 0 8 bs, iov_len = field 8 8 bs\<rparr>
     }"

definition read_user_sockaddr_in :: "user_mem \<Rightarrow> u64 \<Rightarrow> SockaddrIn option" where
  "read_user_sockaddr_in mem a =
     do {
       bs \<leftarrow> read_bytes mem a 16;
       Some \<lparr>sin_family = field 0 2 bs, sin_port = field 2 2 bs, sin_addr = field 4 4 bs,
         sin_zero = take 8 (drop 8 bs)\<rparr>
     }"

definition read_be_u32 :: "user_mem \<Rightarrow> u64 \<Rightarrow> u32 option" where
  "read_be_u32 mem a =
     do {
       bs \<leftarrow> read_bytes mem a 4;
       Some (from_be (from_le_bytes bs))
     }"

definition read_iov_at :: "user_mem \<Rightarrow> u64 \<Rightarrow> u64 \<Rightarrow> IoVec option" where
  "read_iov_at mem iov_array index = read_user_iovec mem (iov_array + index * 16)"

definition read_tx_dest :: "user_mem \<Rightarrow> u64 \<Rightarrow> u32 option" where
  "read_tx_dest mem msg_ptr =
     do {
       msghdr \<leftarrow> read_user_msghdr mem msg_ptr;
       if msg_name msghdr = 0 \<or> msg_namelen msghdr < 16 then None
       else do {
         addr \<leftarrow> read_user_sockaddr_in mem (msg_name msghdr);
         if sin_family addr \<noteq> AF_INET then None else Some (sin_addr addr)
       }
     }"

definition read_payload_key :: "user_mem \<Rightarrow> u64 \<Rightarrow> u32 option" where
  "read_payload_key mem msg_ptr =
     do {
       msghdr \<leftarrow> read_user_msghdr mem msg_ptr;
       if msg_iov msghdr = 0 \<or> msg_iovlen msghdr = 0 then None
       else do {
         first_iov \<leftarrow> read_iov_at mem (msg_iov msghdr) 0;
         if iov_base first_iov = 0 \<or> iov_len first_iov < of_nat KEY_SIZE then None
         else read_be_u32 mem (iov_base first_iov)
       }
     }"


section \<open>Hooks\<close>

definition raw_dest :: "irss_maps \<Rightarrow> u32" where
  "raw_dest s = unwrap_or (map_get (RAW_DEST_MAP s) RAW_DEST_KEY) (from_le_bytes RAW_DEST)"

definition listen_port :: "irss_maps \<Rightarrow> u32" where
  "listen_port s = unwrap_or (map_get (LISTEN_PORT_MAP s) LISTEN_PORT_KEY) (ucast LISTEN_PORT)"

definition accumulate_latency :: "kernel \<Rightarrow> u64 \<Rightarrow> irss_maps \<Rightarrow> irss_maps" where
  "accumulate_latency K latency s =
     (let sum = unwrap_or (map_get (LATENCY_SUM s) ACCUM_KEY) 0;
          count = unwrap_or (map_get (LATENCY_COUNT s) ACCUM_KEY) 0
      in s\<lparr>LATENCY_SUM := hash_put K 1 (LATENCY_SUM s) ACCUM_KEY (sum + latency),
           LATENCY_COUNT := hash_put K 1 (LATENCY_COUNT s) ACCUM_KEY (count + 1)\<rparr>)"

text \<open>\<open>Err\<close> is \<open>Inl\<close>; the entry points return the number in either case.\<close>

definition ok_or_err :: "u32 + u32 \<Rightarrow> u32" where
  "ok_or_err r = (case r of Inl e \<Rightarrow> e | Inr v \<Rightarrow> v)"

definition sys_enter_recvmsg_handler ::
  "kernel \<Rightarrow> u64 \<Rightarrow> SysEnterMsgArgs option \<Rightarrow> irss_maps \<Rightarrow> (u32 + u32) \<times> irss_maps" where
  "sys_enter_recvmsg_handler K pid_tgid ctx s =
     (case ctx of
        None \<Rightarrow> (Inr 0, s)
      | Some args \<Rightarrow>
          (Inr 0, s\<lparr>RECV_MSG_PTR := hash_put K 1024 (RECV_MSG_PTR s) pid_tgid (msg args)\<rparr>))"

text \<open>\<open>probe\<close> is \<open>bpf_probe_read_kernel::<u16>\<close>; a failed read returns its error code.\<close>

definition udp_recvmsg_handler ::
  "u64 \<Rightarrow> u64 option \<Rightarrow> (u64 \<Rightarrow> i64 + u16) \<Rightarrow> irss_maps \<Rightarrow> (u32 + u32) \<times> irss_maps" where
  "udp_recvmsg_handler pid_tgid arg0 probe s =
     (case arg0 of
        None \<Rightarrow> (Inr 0, s)
      | Some sk \<Rightarrow>
          (case probe (sk + SK_NUM_OFFSET) of
             Inl e \<Rightarrow> (Inl (ucast e), s)
           | Inr port \<Rightarrow>
               (Inr 0,
                if ucast port \<noteq> listen_port s
                then s\<lparr>RECV_MSG_PTR := map_remove (RECV_MSG_PTR s) pid_tgid\<rparr> else s)))"

definition sys_exit_recvmsg_handler ::
  "kernel \<Rightarrow> u64 \<Rightarrow> SysExitArgs option \<Rightarrow> user_mem \<Rightarrow> u64 \<Rightarrow> irss_maps \<Rightarrow> (u32 + u32) \<times> irss_maps" where
  "sys_exit_recvmsg_handler K pid_tgid ctx mem now s =
     (case map_get (RECV_MSG_PTR s) pid_tgid of
        None \<Rightarrow> (Inr 0, s)
      | Some msg_ptr \<Rightarrow>
          (let s = s\<lparr>RECV_MSG_PTR := map_remove (RECV_MSG_PTR s) pid_tgid\<rparr> in
           case ctx of
             None \<Rightarrow> (Inr 0, s)
           | Some args \<Rightarrow>
               if ret args <s of_nat KEY_SIZE then (Inr 0, s)
               else
                 (case read_payload_key mem msg_ptr of
                    None \<Rightarrow> (Inr 0, s)
                  | Some key \<Rightarrow>
                      (Inr 0, s\<lparr>TIMESTAMP_MAP := hash_put K 1024 (TIMESTAMP_MAP s) key now\<rparr>))))"

definition sys_enter_sendmsg_handler ::
  "kernel \<Rightarrow> SysEnterMsgArgs option \<Rightarrow> user_mem \<Rightarrow> u64 \<Rightarrow> irss_maps \<Rightarrow> (u32 + u32) \<times> irss_maps" where
  "sys_enter_sendmsg_handler K ctx mem now s =
     (case ctx of
        None \<Rightarrow> (Inr 0, s)
      | Some args \<Rightarrow>
          (let want = raw_dest s in
           case read_tx_dest mem (msg args) of
             None \<Rightarrow> (Inr 0, s)
           | Some dest \<Rightarrow>
               if dest \<noteq> want then (Inr 0, s)
               else
                 (case read_payload_key mem (msg args) of
                    None \<Rightarrow> (Inr 0, s)
                  | Some key \<Rightarrow>
                      (case map_get (TIMESTAMP_MAP s) key of
                         None \<Rightarrow> (Inr 0, s)
                       | Some rx_timestamp \<Rightarrow>
                           (let s = s\<lparr>TIMESTAMP_MAP := map_remove (TIMESTAMP_MAP s) key\<rparr>;
                                latency = saturating_sub now rx_timestamp
                            in (Inr 0, accumulate_latency K latency s))))))"

text \<open>The entry points the kernel calls.\<close>

definition irss_sys_enter_recvmsg ::
  "kernel \<Rightarrow> u64 \<Rightarrow> SysEnterMsgArgs option \<Rightarrow> irss_maps \<Rightarrow> u32 \<times> irss_maps" where
  "irss_sys_enter_recvmsg K pid_tgid ctx s =
     map_prod ok_or_err id (sys_enter_recvmsg_handler K pid_tgid ctx s)"

definition irss_udp_recvmsg ::
  "u64 \<Rightarrow> u64 option \<Rightarrow> (u64 \<Rightarrow> i64 + u16) \<Rightarrow> irss_maps \<Rightarrow> u32 \<times> irss_maps" where
  "irss_udp_recvmsg pid_tgid arg0 probe s =
     map_prod ok_or_err id (udp_recvmsg_handler pid_tgid arg0 probe s)"

definition irss_sys_exit_recvmsg ::
  "kernel \<Rightarrow> u64 \<Rightarrow> SysExitArgs option \<Rightarrow> user_mem \<Rightarrow> u64 \<Rightarrow> irss_maps \<Rightarrow> u32 \<times> irss_maps" where
  "irss_sys_exit_recvmsg K pid_tgid ctx mem now s =
     map_prod ok_or_err id (sys_exit_recvmsg_handler K pid_tgid ctx mem now s)"

definition irss_sys_enter_sendmsg ::
  "kernel \<Rightarrow> SysEnterMsgArgs option \<Rightarrow> user_mem \<Rightarrow> u64 \<Rightarrow> irss_maps \<Rightarrow> u32 \<times> irss_maps" where
  "irss_sys_enter_sendmsg K ctx mem now s =
     map_prod ok_or_err id (sys_enter_sendmsg_handler K ctx mem now s)"


section \<open>The hooks are a tag correlator\<close>

datatype irss_hook =
  SysEnter u64 "SysEnterMsgArgs option"
| UdpRecvmsg u64 "u64 option" "u64 \<Rightarrow> i64 + u16"

type_synonym irss_exit_ctx = "u64 \<times> SysExitArgs option \<times> user_mem"
type_synonym irss_send_ctx = "SysEnterMsgArgs option \<times> user_mem"

fun irss_exit :: "kernel \<Rightarrow> irss_maps \<Rightarrow> irss_exit_ctx \<Rightarrow> u64 \<Rightarrow> irss_maps" where
  "irss_exit K s (pid, ctx, mem) now = snd (irss_sys_exit_recvmsg K pid ctx mem now s)"

fun irss_send :: "kernel \<Rightarrow> irss_maps \<Rightarrow> irss_send_ctx \<Rightarrow> u64 \<Rightarrow> irss_maps" where
  "irss_send K s (ctx, mem) now = snd (irss_sys_enter_sendmsg K ctx mem now s)"

fun irss_enter :: "kernel \<Rightarrow> irss_maps \<Rightarrow> irss_hook \<Rightarrow> irss_maps" where
  "irss_enter K s (SysEnter pid ctx) = snd (irss_sys_enter_recvmsg K pid ctx s)"
| "irss_enter K s (UdpRecvmsg pid arg0 probe) = snd (irss_udp_recvmsg pid arg0 probe s)"

fun irss_exit_tag :: "irss_maps \<Rightarrow> irss_exit_ctx \<Rightarrow> u32 option" where
  "irss_exit_tag s (pid, ctx, mem) =
     do {
       msg_ptr \<leftarrow> map_get (RECV_MSG_PTR s) pid;
       args \<leftarrow> ctx;
       if ret args <s of_nat KEY_SIZE then None else read_payload_key mem msg_ptr
     }"

fun irss_send_tag :: "irss_maps \<Rightarrow> irss_send_ctx \<Rightarrow> u32 option" where
  "irss_send_tag s (ctx, mem) =
     do {
       args \<leftarrow> ctx;
       dest \<leftarrow> read_tx_dest mem (msg args);
       if dest = raw_dest s then read_payload_key mem (msg args) else None
     }"

definition irss_total :: "irss_maps \<Rightarrow> u64" where
  "irss_total s = unwrap_or (map_get (LATENCY_SUM s) ACCUM_KEY) 0"

definition irss_samples :: "irss_maps \<Rightarrow> u64" where
  "irss_samples s = unwrap_or (map_get (LATENCY_COUNT s) ACCUM_KEY) 0"

definition irss_inv :: "kernel \<Rightarrow> irss_maps \<Rightarrow> bool" where
  "irss_inv K s \<longleftrightarrow> hash_documented K \<and> map_wf 1024 (RECV_MSG_PTR s) \<and> map_wf 1024 (TIMESTAMP_MAP s)
     \<and> single_wf ACCUM_KEY (LATENCY_SUM s) \<and> single_wf ACCUM_KEY (LATENCY_COUNT s)"

definition irss_room :: "irss_maps \<Rightarrow> irss_exit_ctx \<Rightarrow> bool" where
  "irss_room s p \<longleftrightarrow> (\<forall>k. irss_exit_tag s p = Some k \<longrightarrow> hash_room 1024 (TIMESTAMP_MAP s) k)"

lemma irss_init [simp]:
  "irss_total irss_maps_init = 0"
  "irss_samples irss_maps_init = 0"
  "irss_inv ref_kernel irss_maps_init"
  by (simp_all add: irss_maps_init_def irss_total_def irss_samples_def irss_inv_def)

lemmas irss_entry_defs =
  irss_sys_enter_recvmsg_def irss_udp_recvmsg_def irss_sys_exit_recvmsg_def irss_sys_enter_sendmsg_def
  sys_enter_recvmsg_handler_def udp_recvmsg_handler_def sys_exit_recvmsg_handler_def
  sys_enter_sendmsg_handler_def

lemma irss_exit_eq:
  "irss_exit K s (pid, ctx, mem) now =
     (case irss_exit_tag s (pid, ctx, mem) of
        None \<Rightarrow> s\<lparr>RECV_MSG_PTR := map_remove (RECV_MSG_PTR s) pid\<rparr>
      | Some tag \<Rightarrow> s\<lparr>RECV_MSG_PTR := map_remove (RECV_MSG_PTR s) pid,
          TIMESTAMP_MAP := hash_put K 1024 (TIMESTAMP_MAP s) tag now\<rparr>)"
  by (auto simp: irss_entry_defs Let_def map_remove_absent split: option.splits Option.bind_splits)

lemma irss_send_eq:
  "irss_send K s q now =
     (case Option.bind (irss_send_tag s q) (map_get (TIMESTAMP_MAP s)) of
        None \<Rightarrow> s
      | Some t0 \<Rightarrow> accumulate_latency K (saturating_sub now t0)
           (s\<lparr>TIMESTAMP_MAP := map_remove (TIMESTAMP_MAP s) (the (irss_send_tag s q))\<rparr>))"
  by (cases q) (auto simp: irss_entry_defs Let_def split: option.splits Option.bind_splits)

lemma irss_accumulate_simps [simp]:
  assumes "hash_documented K" and "single_wf ACCUM_KEY (LATENCY_SUM s)"
    and "single_wf ACCUM_KEY (LATENCY_COUNT s)"
  shows "accumulate_latency K l s =
     s\<lparr>LATENCY_SUM := [(ACCUM_KEY, irss_total s + l)],
       LATENCY_COUNT := [(ACCUM_KEY, irss_samples s + 1)]\<rparr>"
  using assms
  by (simp add: accumulate_latency_def Let_def irss_total_def irss_samples_def flip: One_nat_def)

lemma irss_enter_frame:
  "\<exists>R. irss_enter K s h = s\<lparr>RECV_MSG_PTR := R\<rparr> \<and> (irss_inv K s \<longrightarrow> map_wf 1024 R)"
proof -
  have self: "\<exists>R. s = s\<lparr>RECV_MSG_PTR := R\<rparr> \<and> (irss_inv K s \<longrightarrow> map_wf 1024 R)"
    by (rule exI [of _ "RECV_MSG_PTR s"]) (simp add: irss_inv_def)
  show ?thesis
    by (cases h)
      (auto simp: irss_entry_defs self irss_inv_def split: option.splits sum.splits intro!: exI self)
qed

lemma irss_totals_frame [simp]:
  "irss_total (s\<lparr>RECV_MSG_PTR := R\<rparr>) = irss_total s"
  "irss_samples (s\<lparr>RECV_MSG_PTR := R\<rparr>) = irss_samples s"
  "irss_total (s\<lparr>TIMESTAMP_MAP := T\<rparr>) = irss_total s"
  "irss_samples (s\<lparr>TIMESTAMP_MAP := T\<rparr>) = irss_samples s"
  by (simp_all add: irss_total_def irss_samples_def)

lemma hash_put_own:
  assumes "hash_documented K"
  shows "map_get (hash_put K n m k v) k = None \<or> map_get (hash_put K n m k v) k = Some v"
proof (cases "map_get m k \<noteq> None \<or> length m < n")
  case True
  then show ?thesis by (simp add: map_get_hash_put_room [OF assms])
next
  case False
  then show ?thesis by (simp add: hash_put_full [OF assms])
qed

interpretation irss: tag_correlator "irss_inv K" "irss_exit K" "irss_send K" "irss_enter K"
  irss_exit_tag irss_send_tag "\<lambda>s. map_get (TIMESTAMP_MAP s)"
  irss_total irss_samples irss_room for K
proof (unfold_locales, goal_cases)
  case (1 s p t)
  then show ?case
    by (cases p) (auto simp: irss_inv_def irss_exit_eq simp del: irss_exit.simps split: option.splits)
next
  case (2 s q t)
  then show ?case
    by (auto simp: irss_inv_def irss_send_eq split: option.splits)
next
  case (3 s x)
  then show ?case using irss_enter_frame [of K s x] by (auto simp: irss_inv_def)
next
  case (4 s p t)
  then show ?case
    by (cases p) (simp add: irss_exit_eq del: irss_exit.simps split: option.splits)
next
  case (5 s p t)
  then show ?case by (cases p) (simp add: irss_exit_eq del: irss_exit.simps)
next
  case (6 s p k t)
  then show ?case
    by (cases p) (simp add: irss_inv_def irss_exit_eq hash_put_own del: irss_exit.simps)
next
  case (7 s p k j t)
  then show ?case by (cases p) (simp add: irss_exit_eq del: irss_exit.simps)
next
  case (8 s p k t)
  then show ?case
    by (cases p)
      (simp add: irss_inv_def irss_exit_eq irss_room_def hash_room_def map_get_hash_put_room
        del: irss_exit.simps)
next
  case (12 s x)
  then show ?case using irss_enter_frame [of K s x] by auto
qed (auto simp: irss_inv_def irss_send_eq irss_total_def irss_samples_def)


declare irss_exit.simps [simp del] irss_enter.simps [simp del] irss_send.simps [simp del]
  irss_exit_tag.simps [simp del] irss_send_tag.simps [simp del]

lemmas irss_hook_defs = irss_enter.simps irss_entry_defs


section \<open>The fate of one receive call\<close>

text \<open>Events of other threads than \<open>pid\<close>; a send concerns no receive call.\<close>

fun other_thread :: "u64 \<Rightarrow> (irss_exit_ctx, irss_send_ctx, irss_hook) sighting \<Rightarrow> bool" where
  "other_thread pid (First (p, _) _) \<longleftrightarrow> p \<noteq> pid"
| "other_thread pid (Second _ _) \<longleftrightarrow> True"
| "other_thread pid (Neutral (SysEnter p _)) \<longleftrightarrow> p \<noteq> pid"
| "other_thread pid (Neutral (UdpRecvmsg p _ _)) \<longleftrightarrow> p \<noteq> pid"

lemma irss_send_frame:
  assumes "irss_inv K s"
  shows "RECV_MSG_PTR (irss_send K s q t) = RECV_MSG_PTR s"
    and "LISTEN_PORT_MAP (irss_send K s q t) = LISTEN_PORT_MAP s"
  using assms by (auto simp: irss_inv_def irss_send_eq split: option.splits)

lemma irss_sight_other_thread:
  assumes "irss_inv K s" and "other_thread pid e"
  shows "map_get (RECV_MSG_PTR (irss.sight K s e)) pid = map_get (RECV_MSG_PTR s) pid"
  using assms irss_send_frame [OF assms(1)]
  by (cases "(pid, e)" rule: other_thread.cases)
    (auto simp: irss_exit_eq irss_hook_defs
      split: option.splits sum.splits)

lemma irss_sight_listen_port:
  assumes "irss_inv K s"
  shows "listen_port (irss.sight K s e) = listen_port s"
  using assms irss_send_frame [OF assms(1)]
  by (cases "(0 :: u64, e)" rule: other_thread.cases)
    (auto simp: listen_port_def irss_exit_eq irss_hook_defs
      split: option.splits sum.splits)

lemma irss_watch_other_threads:
  assumes "irss_inv K s" and "list_all (other_thread pid) es"
  shows "map_get (RECV_MSG_PTR (irss.watch K s es)) pid = map_get (RECV_MSG_PTR s) pid
    \<and> listen_port (irss.watch K s es) = listen_port s"
  using assms
  by (induction es arbitrary: s) (auto simp: irss_sight_other_thread irss_sight_listen_port)

lemma irss_stage:
  assumes "irss_inv K s" and "hash_room 1024 (RECV_MSG_PTR s) pid"
  shows "map_get (RECV_MSG_PTR (irss_enter K s (SysEnter pid (Some a)))) pid = Some (msg a)"
    and "listen_port (irss_enter K s (SysEnter pid (Some a))) = listen_port s"
  using assms
  by (auto simp: irss_hook_defs irss_inv_def hash_room_def map_get_hash_put_room listen_port_def)

lemma irss_veto:
  assumes "probe (sk + SK_NUM_OFFSET) = Inr port"
  shows "map_get (RECV_MSG_PTR (irss_enter K s (UdpRecvmsg pid (Some sk) probe))) pid
           = (if ucast port = listen_port s then map_get (RECV_MSG_PTR s) pid else None)"
    and "listen_port (irss_enter K s (UdpRecvmsg pid (Some sk) probe)) = listen_port s"
  using assms by (auto simp: irss_hook_defs listen_port_def)

lemma irss_exit_tag_staged:
  "irss_exit_tag s (pid, Some r, mem) =
     (case map_get (RECV_MSG_PTR s) pid of
        None \<Rightarrow> None
      | Some a \<Rightarrow> if ret r <s of_nat KEY_SIZE then None else read_payload_key mem a)"
  by (simp add: irss_exit_tag.simps split: option.splits)

lemma irss_call_without_probe:
  assumes "irss_inv K s" and "hash_room 1024 (RECV_MSG_PTR s) pid"
    and "list_all (other_thread pid) es"
  shows "irss_exit_tag (irss.watch K (irss_enter K s (SysEnter pid (Some a))) es) (pid, Some r, mem)
           = (if ret r <s of_nat KEY_SIZE then None else read_payload_key mem (msg a))"
proof -
  have "irss_inv K (irss_enter K s (SysEnter pid (Some a)))"
    using assms(1) by (rule irss.inv_neutral)
  from irss_watch_other_threads [OF this assms(3)] irss_stage(1) [OF assms(1,2), of a]
  show ?thesis by (simp add: irss_exit_tag_staged)
qed

lemma irss_call_with_probe:
  assumes inv: "irss_inv K s" and room: "hash_room 1024 (RECV_MSG_PTR s) pid"
    and es: "list_all (other_thread pid) es1" "list_all (other_thread pid) es2"
    and probe: "probe (sk + SK_NUM_OFFSET) = Inr port"
    and s1: "s1 = irss.watch K (irss_enter K s (SysEnter pid (Some a))) es1"
    and s2: "s2 = irss.watch K (irss_enter K s1 (UdpRecvmsg pid (Some sk) probe)) es2"
  shows "irss_exit_tag s2 (pid, Some r, mem) =
           (if ucast port = listen_port s \<and> \<not> ret r <s of_nat KEY_SIZE
            then read_payload_key mem (msg a) else None)"
proof -
  have "irss_inv K (irss_enter K s (SysEnter pid (Some a)))"
    using inv by (rule irss.inv_neutral)
  note w1 = irss_watch_other_threads [OF this es(1)] and i1 = irss.inv_watch [OF this]
  have "irss_inv K (irss_enter K s1 (UdpRecvmsg pid (Some sk) probe))"
    using i1 unfolding s1 by (rule irss.inv_neutral)
  note w2 = irss_watch_other_threads [OF this es(2)]
  show ?thesis
    using w1 w2 irss_stage [OF inv room, of a] irss_veto [of probe sk port K s1 pid, OF probe]
    by (simp add: irss_exit_tag_staged s1 s2)
qed

lemma read_payload_key_Some_iff:
  "read_payload_key mem p = Some key \<longleftrightarrow>
     (\<exists>h v bs. read_user_msghdr mem p = Some h \<and> msg_iov h \<noteq> 0 \<and> msg_iovlen h \<noteq> 0
        \<and> read_user_iovec mem (msg_iov h) = Some v \<and> iov_base v \<noteq> 0 \<and> 4 \<le> iov_len v
        \<and> read_bytes mem (iov_base v) KEY_SIZE = Some bs \<and> key = from_be_bytes bs)"
proof -
  have "from_be (from_le_bytes bs :: u32) = from_be_bytes bs" if "read_bytes mem a 4 = Some bs" for a bs
    using length_read_bytes [OF that] by (intro from_be_from_le_bytes) simp
  then show ?thesis
    by (fastforce simp: read_payload_key_def read_iov_at_def read_be_u32_def KEY_SIZE_def not_less
        split: Option.bind_splits if_splits)
qed


section \<open>Properties\<close>

text \<open>
  The message of the witnesses: at \<open>0x1000\<close> a \<open>msghdr\<close> with a destination at \<open>0x4000\<close> and one
  buffer, the four bytes at \<open>0x3000\<close>.
\<close>

definition irss_demo_mem :: user_mem where
  "irss_demo_mem = mem_of
     [(0x1000, [0, 0x40, 0, 0, 0, 0, 0, 0,  16, 0, 0, 0,  0, 0, 0, 0,
                0, 0x20, 0, 0, 0, 0, 0, 0,  1, 0, 0, 0, 0, 0, 0, 0,
                0, 0, 0, 0, 0, 0, 0, 0,  0, 0, 0, 0, 0, 0, 0, 0,  0, 0, 0, 0,  0, 0, 0, 0]),
      (0x2000, [0, 0x30, 0, 0, 0, 0, 0, 0,  4, 0, 0, 0, 0, 0, 0, 0]),
      (0x3000, [0xde, 0xad, 0xbe, 0xef]),
      (0x4000, [2, 0, 0, 0, 10, 10, 10, 253, 0, 0, 0, 0, 0, 0, 0, 0])]"

definition irss_demo_enter :: SysEnterMsgArgs where
  "irss_demo_enter = \<lparr>enter_common = [], enter_syscall_nr = 0, enter_pad = 0, fd = 3, msg = 0x1000\<rparr>"

definition irss_demo_exit :: SysExitArgs where
  "irss_demo_exit = \<lparr>exit_common = [], exit_syscall_nr = 0, exit_pad = 0, ret = 4\<rparr>"

lemma irss_demo_key: "read_payload_key irss_demo_mem 0x1000 = Some 0xdeadbeef"
  by (simp add: read_payload_key_def read_iov_at_def read_be_u32_def read_user_msghdr_def
      read_user_iovec_def irss_demo_mem_def KEY_SIZE_def field_def from_be_def
      to_le_bytes_def upt_rec from_be_bytes_def from_le_bytes_def push_byte_def del: mem_of.simps)

lemma irss_demo_dest: "read_tx_dest irss_demo_mem 0x1000 = Some (raw_dest irss_maps_init)"
  by (simp add: read_tx_dest_def read_user_msghdr_def read_user_sockaddr_in_def irss_demo_mem_def
      AF_INET_def field_def from_be_bytes_def from_le_bytes_def push_byte_def raw_dest_def RAW_DEST_def
      irss_maps_init_def del: mem_of.simps)


text \<open>
  C22. The port filter decides for the thread's own call: whatever hooks other threads run in
  between, a \<open>recvmsg\<close> of a UDP socket that enters with the message \<open>msg a\<close> leaves with a tag to
  record if and only if the socket's local port is the configured listen port, at least four
  bytes arrived and the payload is readable; the tag is then the key of that very message.
\<close>

theorem irss_port_filter:
  assumes "irss_inv K s" and "hash_room 1024 (RECV_MSG_PTR s) pid"
    and "list_all (other_thread pid) other" and "list_all (other_thread pid) others"
    and "probe (sk + SK_NUM_OFFSET) = Inr port"
    and "s1 = irss.watch K (irss_enter K s (SysEnter pid (Some a))) other"
    and "s2 = irss.watch K (irss_enter K s1 (UdpRecvmsg pid (Some sk) probe)) others"
  shows "irss_exit_tag s2 (pid, Some r, mem) =
           (if ucast port = listen_port s \<and> \<not> ret r <s of_nat KEY_SIZE
            then read_payload_key mem (msg a) else None)"
  using assms by (rule irss_call_with_probe)

theorem irss_port_filter_witness:
  "irss_exit_tag (irss_enter ref_kernel (irss_enter ref_kernel irss_maps_init
       (SysEnter 7 (Some irss_demo_enter))) (UdpRecvmsg 7 (Some 0x9000) (\<lambda>_. Inr 5020)))
     (7, Some irss_demo_exit, irss_demo_mem) = Some 0xdeadbeef
   \<and> irss_exit_tag (irss_enter ref_kernel (irss_enter ref_kernel irss_maps_init
       (SysEnter 7 (Some irss_demo_enter))) (UdpRecvmsg 7 (Some 0x9000) (\<lambda>_. Inr 53)))
     (7, Some irss_demo_exit, irss_demo_mem) = None"
proof -
  have room: "hash_room 1024 (RECV_MSG_PTR irss_maps_init) 7"
    by (simp add: hash_room_def irss_maps_init_def)
  have port: "listen_port irss_maps_init = 5020"
    by (simp add: listen_port_def irss_maps_init_def LISTEN_PORT_def)
  have "irss_exit_tag (irss_enter ref_kernel (irss_enter ref_kernel irss_maps_init
       (SysEnter 7 (Some irss_demo_enter))) (UdpRecvmsg 7 (Some 0x9000) (\<lambda>_. Inr p)))
     (7, Some irss_demo_exit, irss_demo_mem) = (if ucast p = (5020 :: u32) then Some 0xdeadbeef else None)"
    for p :: u16
    using irss_port_filter [OF irss_init(3) room, where other = "[]" and others = "[]" and probe = "\<lambda>_. Inr p" and sk = "0x9000"
          and port = p and a = irss_demo_enter and r = irss_demo_exit and mem = irss_demo_mem,
          OF _ _ _ refl refl]
    by (simp
        add: port irss_demo_enter_def irss_demo_exit_def irss_demo_key KEY_SIZE_def)
  then show ?thesis by (simp)
qed

text \<open>
  A receive call that never reaches \<open>udp_recvmsg\<close> (a socket of another protocol) is not
  filtered: its payload is recorded whatever port is configured.
\<close>

lemma irss_non_udp_unfiltered:
  assumes "irss_inv K s" and "hash_room 1024 (RECV_MSG_PTR s) pid"
    and "list_all (other_thread pid) es" and "\<not> ret r <s of_nat KEY_SIZE"
  shows "irss_exit_tag (irss.watch K (irss_enter K s (SysEnter pid (Some a))) es) (pid, Some r, mem)
           = read_payload_key mem (msg a)"
  using irss_call_without_probe [OF assms(1-3)] assms(4) by simp

lemma irss_non_udp_unfiltered_witness:
  "irss_exit_tag (irss_enter ref_kernel (irss_maps_init\<lparr>LISTEN_PORT_MAP := [(LISTEN_PORT_KEY, 53)]\<rparr>)
       (SysEnter 7 (Some irss_demo_enter))) (7, Some irss_demo_exit, irss_demo_mem) = Some 0xdeadbeef"
proof -
  let ?s = "irss_maps_init\<lparr>LISTEN_PORT_MAP := [(LISTEN_PORT_KEY, 53)]\<rparr>"
  have "irss_inv ref_kernel ?s" and "hash_room 1024 (RECV_MSG_PTR ?s) 7"
    by (simp_all add: irss_inv_def hash_room_def irss_maps_init_def)
  from irss_non_udp_unfiltered [OF this, of "[]" irss_demo_exit irss_demo_enter irss_demo_mem]
  show ?thesis
    by (simp
        add: irss_demo_enter_def irss_demo_exit_def irss_demo_key KEY_SIZE_def)
qed

text \<open>
  A forwarded datagram is measured: received with tag \<open>key\<close> at \<open>t1\<close> (with room for its
  record), then, after any hooks that do not touch the tag, sent to the configured raw-IP
  destination at \<open>t2\<close>, it adds exactly \<open>t2 - t1\<close> to the sum and one to the count, and its record
  is gone. A send to any other destination leaves all maps as they are.
\<close>

lemma irss_forwarded_measured:
  assumes "irss_inv K s" and "irss_exit_tag s p = Some key" and "irss_room s p"
    and "irss.undisturbed K key (irss_exit K s p t1) es"
    and "s1 = irss.watch K (irss_exit K s p t1) es"
    and "read_payload_key mem (msg a) = Some key"
    and "s2 = irss_send K s1 (Some a, mem) t2"
  shows "if read_tx_dest mem (msg a) = Some (raw_dest s1)
         then irss_total s2 = irss_total s1 + saturating_sub t2 t1
           \<and> irss_samples s2 = irss_samples s1 + 1
           \<and> map_get (TIMESTAMP_MAP s2) key = None
         else s2 = s1"
proof (cases "read_tx_dest mem (msg a) = Some (raw_dest s1)")
  case True
  then have "irss_send_tag s1 (Some a, mem) = Some key" using assms(6) by (simp add: irss_send_tag.simps)
  then show ?thesis
    using irss.measured_once [OF assms(1-4), of "(Some a, mem)" t2] True assms(5,7) by simp
next
  case False
  then have "irss_send_tag s1 (Some a, mem) = None"
    by (cases "read_tx_dest mem (msg a)") (auto simp: irss_send_tag.simps)
  then show ?thesis using False assms(7) by (simp only: irss_send_eq) simp
qed

definition irss_demo_staged :: irss_maps where
  "irss_demo_staged = irss_maps_init\<lparr>RECV_MSG_PTR := [(7, 0x1000)]\<rparr>"

lemma irss_demo_staged_ok:
  "irss_inv ref_kernel irss_demo_staged"
  "irss_exit_tag irss_demo_staged (7, Some irss_demo_exit, irss_demo_mem) = Some 0xdeadbeef"
  "irss_room irss_demo_staged p"
  "irss_total irss_demo_staged = 0" "irss_samples irss_demo_staged = 0"
  by (simp_all add: irss_demo_staged_def irss_inv_def irss_room_def irss_maps_init_def hash_room_def
      irss_exit_tag.simps irss_demo_exit_def KEY_SIZE_def irss_demo_key map_wf_def keys_def)
    (simp_all add: irss_total_def irss_samples_def)

lemma irss_forwarded_measured_witness:
  "let s1 = irss_exit ref_kernel irss_demo_staged (7, Some irss_demo_exit, irss_demo_mem) 1000;
       s2 = irss_send ref_kernel s1 (Some irss_demo_enter, irss_demo_mem) 43000
   in irss_total s2 = 42000 \<and> irss_samples s2 = 1"
proof -
  let ?s1 = "irss_exit ref_kernel irss_demo_staged (7, Some irss_demo_exit, irss_demo_mem) 1000"
  have "raw_dest ?s1 = raw_dest irss_maps_init"
    by (simp add: irss_exit_eq irss_demo_staged_def raw_dest_def split: option.split)
  then have "read_tx_dest irss_demo_mem (msg irss_demo_enter) = Some (raw_dest ?s1)"
    by (simp add: irss_demo_enter_def irss_demo_dest)
  moreover have "read_payload_key irss_demo_mem (msg irss_demo_enter) = Some 0xdeadbeef"
    by (simp add: irss_demo_enter_def irss_demo_key)
  moreover have "irss_total ?s1 = 0 \<and> irss_samples ?s1 = 0"
    using irss.first_totals [OF irss_demo_staged_ok(1)] irss_demo_staged_ok(4,5) by metis
  ultimately show ?thesis
    using irss_forwarded_measured [OF irss_demo_staged_ok(1-3), of "1000" "[]" ?s1 irss_demo_mem
        irss_demo_enter _ 43000, OF _ _ _ refl]
    by (simp add: saturating_sub_def)
qed

text \<open>
  The accumulators of \<open>irss\<close> are sound under every interleaving of the four hooks: sum and
  count are those of the latencies of the sends that found a record, and no record is matched
  twice.
\<close>

lemma irss_accumulates_exactly:
  assumes "irss_inv K s"
  shows "irss_total (irss.watch K s hooks) = irss_total s + sum_list (irss.latencies K s hooks)
    \<and> irss_samples (irss.watch K s hooks)
           = irss_samples s + of_nat (length (irss.latencies K s hooks))
    \<and> irss.matches K tag s hooks
           \<le> irss.records K tag s hooks + (if map_get (TIMESTAMP_MAP s) tag = None then 0 else 1)"
  using irss.watch_totals [OF assms] irss.matches_le_records [OF assms] by blast

definition irss_demo_hooks :: "(irss_exit_ctx, irss_send_ctx, irss_hook) sighting list" where
  "irss_demo_hooks =
     [First (7, Some irss_demo_exit, irss_demo_mem) 1000, Second (Some irss_demo_enter, irss_demo_mem) 43000]"

lemma irss_demo_latencies: "irss.latencies ref_kernel irss_demo_staged irss_demo_hooks = [42000]"
proof -
  have "raw_dest (irss_exit ref_kernel irss_demo_staged p 1000) = raw_dest irss_maps_init" for p
    by (cases p) (simp add: irss_exit_eq irss_demo_staged_def raw_dest_def split: option.split)
  then have "irss_send_tag (irss_exit ref_kernel irss_demo_staged p 1000) (Some irss_demo_enter, irss_demo_mem)
      = Some 0xdeadbeef" for p
    by (simp add: irss_send_tag.simps irss_demo_enter_def irss_demo_dest irss_demo_key)
  then show ?thesis
    using irss.first_exact [OF irss_demo_staged_ok(1-3), of 1000]
    by (simp add: irss_demo_hooks_def saturating_sub_def)
qed

lemma irss_accumulates_exactly_witness:
  "irss_total (irss.watch ref_kernel irss_demo_staged irss_demo_hooks) = 42000
   \<and> irss_samples (irss.watch ref_kernel irss_demo_staged irss_demo_hooks) = 1"
  using irss_accumulates_exactly [OF irss_demo_staged_ok(1), of irss_demo_hooks 0]
  by (simp add: irss_demo_latencies irss_demo_staged_ok(4,5))

text \<open>
  C23. The record map saturates: with 1024 unmatched tags recorded, a datagram with a new tag is
  not recorded, and its send is not measured, until one of the recorded tags is matched.
\<close>

theorem irss_saturates:
  assumes "irss_inv K s" and "length (TIMESTAMP_MAP s) = 1024"
    and "irss_exit_tag s p = Some key" and "map_get (TIMESTAMP_MAP s) key = None"
    and "s1 = irss_exit K s p t1" and "irss_send_tag s1 q = Some key"
  shows "TIMESTAMP_MAP s1 = TIMESTAMP_MAP s \<and> irss_send K s1 q t2 = s1"
proof -
  have "TIMESTAMP_MAP s1 = TIMESTAMP_MAP s"
    using assms(1-5) hash_put_full [of K "TIMESTAMP_MAP s" key 1024]
    by (cases p) (simp add: irss_exit_eq irss_inv_def)
  then show ?thesis using assms(4,6) by (simp add: irss_send_eq)
qed


definition irss_demo_full :: irss_maps where
  "irss_demo_full = irss_demo_staged\<lparr>TIMESTAMP_MAP := map (\<lambda>i. (of_nat i, 0)) [0..<1024]\<rparr>"

lemma irss_demo_full_ok:
  "irss_inv ref_kernel irss_demo_full"
  "map_get (TIMESTAMP_MAP irss_demo_full) 0xdeadbeef = None"
  "length (TIMESTAMP_MAP irss_demo_full) = 1024"
proof -
  have small: "unat (of_nat i :: u32) = i" if "i < 1024" for i
    using that by (simp add: unat_of_nat)
  have inj: "inj_on (of_nat :: nat \<Rightarrow> u32) {0..<1024}"
    by (rule inj_onI) (metis atLeastLessThan_iff small)
  have fresh: "(0xdeadbeef :: u32) \<noteq> of_nat i" if "i < 1024" for i
  proof
    assume "(0xdeadbeef :: u32) = of_nat i"
    then have "unat (0xdeadbeef :: u32) = i" using small [OF that] by simp
    then show False using that by simp
  qed
  show "length (TIMESTAMP_MAP irss_demo_full) = 1024" by (simp add: irss_demo_full_def)
  show "irss_inv ref_kernel irss_demo_full"
    using inj by (simp add: irss_demo_full_def irss_demo_staged_def irss_inv_def irss_maps_init_def
        map_wf_def keys_def comp_def distinct_map)
  show "map_get (TIMESTAMP_MAP irss_demo_full) 0xdeadbeef = None"
    using fresh by (auto simp: irss_demo_full_def map_get_def map_of_eq_None_iff)
qed

theorem irss_saturates_witness:
  "let s1 = irss_exit ref_kernel irss_demo_full (7, Some irss_demo_exit, irss_demo_mem) 1000
   in TIMESTAMP_MAP s1 = TIMESTAMP_MAP irss_demo_full
      \<and> irss_send ref_kernel s1 (Some irss_demo_enter, irss_demo_mem) 43000 = s1"
proof -
  let ?p = "(7, Some irss_demo_exit, irss_demo_mem)"
  have tag: "irss_exit_tag irss_demo_full ?p = Some 0xdeadbeef"
    using irss_demo_staged_ok(2) by (simp add: irss_exit_tag.simps irss_demo_full_def)
  have "raw_dest (irss_exit ref_kernel irss_demo_full ?p 1000) = raw_dest irss_maps_init"
    by (simp add: irss_exit_eq irss_demo_full_def irss_demo_staged_def raw_dest_def split: option.split)
  then have "irss_send_tag (irss_exit ref_kernel irss_demo_full ?p 1000) (Some irss_demo_enter, irss_demo_mem)
      = Some 0xdeadbeef"
    by (simp add: irss_send_tag.simps irss_demo_enter_def irss_demo_dest irss_demo_key)
  from irss_saturates [OF irss_demo_full_ok(1,3) tag irss_demo_full_ok(2) refl this]
  show ?thesis by (simp add: Let_def)
qed

end
