(* ===== verification/Rust_Std.thy ===== *)
theory Rust_Std
  imports Prelude "HOL-Library.Log_Nat"
begin

text \<open>
  What the userspace code uses of the Rust standard library: string slicing and parsing, decimal
  conversion, and the conversion of integers to \<open>f64\<close>.

  A \<open>str\<close> is the list of its UTF-8 bytes, one \<open>char\<close> each, as Rust stores it; lengths are byte
  lengths. The characters and patterns the agent searches for are ASCII, for which searching
  bytes and searching characters is the same. Of the white space that \<open>char::is_whitespace\<close> knows
  only the ASCII characters are represented.
\<close>


section \<open>UTF-8\<close>

text \<open>
  \<open>String::from_utf8_lossy\<close>: a well-formed sequence is copied, the longest prefix of a sequence
  that is not one is replaced by U+FFFD. \<open>utf8_width\<close> is the length that a first byte announces,
  \<open>utf8_chunk\<close> the number of bytes taken and whether they are a character.
\<close>

definition byte_in :: "nat \<Rightarrow> nat \<Rightarrow> char \<Rightarrow> bool" where
  "byte_in lo hi c \<longleftrightarrow> lo \<le> of_char c \<and> of_char c \<le> hi"

definition utf8_width :: "char \<Rightarrow> nat" where
  "utf8_width c =
     (if byte_in 0 0x7F c then 1 else if byte_in 0xC2 0xDF c then 2
      else if byte_in 0xE0 0xEF c then 3 else if byte_in 0xF0 0xF4 c then 4 else 0)"

definition utf8_second :: "char \<Rightarrow> char \<Rightarrow> bool" where
  "utf8_second c =
     (if byte_in 0xE0 0xE0 c then byte_in 0xA0 0xBF else if byte_in 0xED 0xED c then byte_in 0x80 0x9F
      else if byte_in 0xF0 0xF0 c then byte_in 0x90 0xBF else if byte_in 0xF4 0xF4 c then byte_in 0x80 0x8F
      else byte_in 0x80 0xBF)"

definition utf8_chunk :: "char \<Rightarrow> string \<Rightarrow> nat \<times> bool" where
  "utf8_chunk c s =
     (if utf8_width c = 1 then (1, True)
      else if utf8_width c = 0 \<or> s = [] \<or> \<not> utf8_second c (hd s) then (1, False)
      else if utf8_width c = 2 then (2, True)
      else if length s < 2 \<or> \<not> byte_in 0x80 0xBF (s ! 1) then (2, False)
      else if utf8_width c = 3 then (3, True)
      else if length s < 3 \<or> \<not> byte_in 0x80 0xBF (s ! 2) then (3, False)
      else (4, True))"

definition replacement_character :: string where
  "replacement_character = [CHR 0xEF, CHR 0xBF, CHR 0xBD]"

function from_utf8_lossy :: "string \<Rightarrow> string" where
  "from_utf8_lossy [] = []"
| "from_utf8_lossy (c # cs) =
     (let (n, valid) = utf8_chunk c cs
      in (if valid then take n (c # cs) else replacement_character) @ from_utf8_lossy (drop (n - 1) cs))"
  by pat_completeness auto
termination
  by (relation "measure length") auto

declare from_utf8_lossy.simps(2) [simp del]

lemma from_utf8_lossy_ascii_Cons [simp]:
  assumes "(of_char c :: nat) < 128"
  shows "from_utf8_lossy (c # cs) = c # from_utf8_lossy cs"
  using assms by (simp add: from_utf8_lossy.simps utf8_chunk_def utf8_width_def byte_in_def)

lemma from_utf8_lossy_ascii: "list_all (\<lambda>c. of_char c < (128 :: nat)) s \<Longrightarrow> from_utf8_lossy s = s"
  by (induction s) simp_all

text \<open>What the conversion returns is well-formed, so converting again changes nothing.\<close>

lemma from_utf8_lossy_replacement:
  "from_utf8_lossy (replacement_character @ s) = replacement_character @ from_utf8_lossy s"
  by (simp add: replacement_character_def from_utf8_lossy.simps utf8_chunk_def utf8_width_def utf8_second_def
      byte_in_def)

lemma utf8_chunk_valid_length: "utf8_chunk c s = (n, True) \<Longrightarrow> 0 < n \<and> n - 1 \<le> length s"
  by (auto simp: utf8_chunk_def Suc_le_eq split: if_splits)

lemma utf8_chunk_valid_append:
  assumes "utf8_chunk c s = (n, True)"
  shows "utf8_chunk c (take (n - 1) s @ r) = (n, True)"
  using assms by (cases s) (auto simp: utf8_chunk_def nth_append take_Cons' split: if_splits)

lemma from_utf8_lossy_idem: "from_utf8_lossy (from_utf8_lossy s) = from_utf8_lossy s"
proof (induction s rule: from_utf8_lossy.induct)
  case (2 c cs)
  obtain n valid where ch: "utf8_chunk c cs = (n, valid)" by (cases "utf8_chunk c cs")
  show ?case
  proof (cases valid)
    case True
    then obtain m where m: "n = Suc m" "m \<le> length cs"
      using utf8_chunk_valid_length [of c cs n] ch by (cases n) auto
    let ?r = "from_utf8_lossy (drop m cs)"
    have "utf8_chunk c (take m cs @ ?r) = (Suc m, True)"
      using utf8_chunk_valid_append [of c cs n ?r] ch True m by simp
    then have "from_utf8_lossy (c # take m cs @ ?r) = c # take m cs @ from_utf8_lossy ?r"
      using m by (simp add: from_utf8_lossy.simps(2) [of c "take m cs @ ?r"])
    moreover have "from_utf8_lossy (c # cs) = c # take m cs @ ?r"
      using ch True m by (simp add: from_utf8_lossy.simps)
    ultimately show ?thesis using 2 [OF ch [symmetric]] m by simp
  next
    case False
    then show ?thesis
      using 2 [OF ch [symmetric]] ch by (simp add: from_utf8_lossy.simps(2) [of c cs] from_utf8_lossy_replacement)
  qed
qed simp


section \<open>Characters and splitting\<close>

definition is_ascii_digit :: "char \<Rightarrow> bool" where
  "is_ascii_digit c \<longleftrightarrow> (48 :: nat) \<le> of_char c \<and> of_char c \<le> (57 :: nat)"

definition is_whitespace :: "char \<Rightarrow> bool" where
  "is_whitespace c \<longleftrightarrow> of_char c \<in> {9 :: nat, 10, 11, 12, 13, 32}"

text \<open>\<open>str::lines\<close>: lines end at a newline, with a carriage return before it removed; the text after
  the last newline is a line unless it is empty.\<close>

definition strip_cr :: "string \<Rightarrow> string" where
  "strip_cr l = (if l \<noteq> [] \<and> last l = CHR 0x0D then butlast l else l)"

fun lines_from :: "string \<Rightarrow> string \<Rightarrow> string list" where
  "lines_from cur [] = (if cur = [] then [] else [cur])"
| "lines_from cur (c # cs) =
     (if c = CHR 0x0A then strip_cr cur # lines_from [] cs else lines_from (cur @ [c]) cs)"

definition lines :: "string \<Rightarrow> string list" where
  "lines s = lines_from [] s"

function split_whitespace :: "string \<Rightarrow> string list" where
  "split_whitespace [] = []"
| "split_whitespace (c # cs) =
     (if is_whitespace c then split_whitespace cs
      else (c # takeWhile (\<lambda>c. \<not> is_whitespace c) cs)
             # split_whitespace (dropWhile (\<lambda>c. \<not> is_whitespace c) cs))"
  by pat_completeness auto
termination
  by (relation "measure length") (auto simp: less_Suc_eq_le length_dropWhile_le)

definition trim :: "string \<Rightarrow> string" where
  "trim s = rev (dropWhile is_whitespace (rev (dropWhile is_whitespace s)))"

definition starts_with :: "string \<Rightarrow> string \<Rightarrow> bool" where
  "starts_with p s \<longleftrightarrow> take (length p) s = p"

definition strip_prefix :: "string \<Rightarrow> string \<Rightarrow> string option" where
  "strip_prefix p s = (if starts_with p s then Some (drop (length p) s) else None)"

text \<open>\<open>s.find(p)\<close> followed by \<open>&s[pos + p.len()..]\<close>: the text behind the first occurrence.\<close>

fun after_first :: "string \<Rightarrow> string \<Rightarrow> string option" where
  "after_first p s =
     (if starts_with p s then Some (drop (length p) s)
      else case s of [] \<Rightarrow> None | c # cs \<Rightarrow> after_first p cs)"

fun join :: "string \<Rightarrow> string list \<Rightarrow> string" where
  "join sep [] = []"
| "join sep [s] = s"
| "join sep (s # t # ss) = s @ sep @ join sep (t # ss)"


section \<open>Decimal numbers\<close>

definition digit_char :: "nat \<Rightarrow> char" where
  "digit_char d = char_of (48 + d)"

definition digit_val :: "char \<Rightarrow> nat" where
  "digit_val c = of_char c - 48"

fun decimal :: "nat \<Rightarrow> string" where
  "decimal n = (if n < 10 then [digit_char n] else decimal (n div 10) @ [digit_char (n mod 10)])"

definition digits_val :: "string \<Rightarrow> nat" where
  "digits_val s = foldl (\<lambda>n c. n * 10 + digit_val c) 0 s"

text \<open>\<open>str::parse\<close> for the unsigned types: an optional plus sign and at least one digit, no more
  than the type's maximum.\<close>

definition parse_digits :: "nat \<Rightarrow> string \<Rightarrow> nat option" where
  "parse_digits m s =
     (if s \<noteq> [] \<and> list_all is_ascii_digit s \<and> digits_val s \<le> m then Some (digits_val s) else None)"

definition parse_unsigned :: "nat \<Rightarrow> string \<Rightarrow> nat option" where
  "parse_unsigned m s =
     (case s of CHR ''+'' # t \<Rightarrow> parse_digits m t | _ \<Rightarrow> parse_digits m s)"

definition parse_u32 :: "string \<Rightarrow> u32 option" where
  "parse_u32 s = map_option of_nat (parse_unsigned (2 ^ 32 - 1) s)"

definition parse_u64 :: "string \<Rightarrow> u64 option" where
  "parse_u64 s = map_option of_nat (parse_unsigned (2 ^ 64 - 1) s)"

definition to_string :: "'a::len word \<Rightarrow> string" where
  "to_string w = decimal (unat w)"

text \<open>\<open>Ipv4Addr::from_str\<close>: four decimal octets separated by dots; an octet has at most three digits
  and no leading zero.\<close>

definition parse_octet :: "string \<Rightarrow> u8 option" where
  "parse_octet s =
     (if length s \<le> 3 \<and> (hd s = CHR ''0'' \<longrightarrow> length s = 1)
      then map_option of_nat (parse_digits 255 s) else None)"

fun split_on :: "char \<Rightarrow> string \<Rightarrow> string list" where
  "split_on d [] = [[]]"
| "split_on d (c # cs) =
     (if c = d then [] # split_on d cs
      else (case split_on d cs of [] \<Rightarrow> [[c]] | s # ss \<Rightarrow> (c # s) # ss))"

definition parse_ipv4 :: "string \<Rightarrow> u8 list option" where
  "parse_ipv4 s =
     (let ps = map parse_octet (split_on (CHR ''.'') s)
      in if length ps = 4 \<and> None \<notin> set ps then Some (map the ps) else None)"

definition show_ipv4 :: "u8 list \<Rightarrow> string" where
  "show_ipv4 bs = join ''.'' (map to_string bs)"


section \<open>Conversion to \<open>f64\<close>\<close>

text \<open>
  A finite \<open>f64\<close> is its rational value. \<open>round_f64\<close> rounds a non-negative rational in the normal
  range to the nearest value with 53 significant bits, ties to even, which is how \<open>as f64\<close>, \<open>/\<close>
  and \<open>+\<close> produce their results.
\<close>

type_synonym f64 = rat

definition round_half_even :: "rat \<Rightarrow> int" where
  "round_half_even m =
     (let f = \<lfloor>m\<rfloor>; t = m - of_int f
      in if t < 1 / 2 then f else if t > 1 / 2 then f + 1 else if even f then f else f + 1)"

definition binade :: "rat \<Rightarrow> int" where
  "binade q = int (floorlog 2 (nat \<lfloor>q * 2 ^ 1022\<rfloor>)) - 1023"

definition scale2 :: "int \<Rightarrow> rat" where
  "scale2 e = (if 0 \<le> e then 2 ^ nat e else 1 / 2 ^ nat (- e))"

definition round_f64 :: "rat \<Rightarrow> f64" where
  "round_f64 q =
     (if q = 0 then 0
      else let e = binade q - 52 in of_int (round_half_even (q * scale2 (- e))) * scale2 e)"

definition u64_as_f64 :: "u64 \<Rightarrow> f64" where
  "u64_as_f64 w = round_f64 (of_nat (unat w))"



section \<open>Round trips\<close>

declare decimal.simps [simp del]
declare after_first.simps [simp del]

lemma of_char_digit [simp]: "d < 10 \<Longrightarrow> of_char (digit_char d) = (48 + d :: nat)"
  by (simp add: digit_char_def)

lemma digit_char_props [simp]:
  assumes "d < 10"
  shows "digit_val (digit_char d) = d" and "is_ascii_digit (digit_char d)"
  using assms by (simp_all add: digit_val_def is_ascii_digit_def)

lemma decimal_digits [simp]: "list_all is_ascii_digit (decimal n)"
proof (induction n rule: decimal.induct)
  case (1 n)
  then show ?case by (subst decimal.simps) simp
qed

lemma decimal_not_Nil [simp]: "decimal n \<noteq> []"
  by (subst decimal.simps) simp

lemma digits_val_snoc: "digits_val (s @ [c]) = digits_val s * 10 + digit_val c"
  by (simp add: digits_val_def)

lemma digits_val_decimal [simp]: "digits_val (decimal n) = n"
proof (induction n rule: decimal.induct)
  case (1 n)
  then show ?case
    by (subst decimal.simps) (simp add: digits_val_snoc, simp add: digits_val_def)
qed

lemma parse_digits_decimal [simp]: "n \<le> m \<Longrightarrow> parse_digits m (decimal n) = Some n"
  by (simp add: parse_digits_def)

lemma plus_not_digit [simp]: "\<not> is_ascii_digit (CHR ''+'')"
  by (simp add: is_ascii_digit_def)

lemma parse_unsigned_digits:
  assumes "list_all is_ascii_digit s"
  shows "parse_unsigned m s = parse_digits m s"
  using assms by (auto simp: parse_unsigned_def split: list.split char.split bool.split)

lemma parse_unsigned_decimal [simp]: "n \<le> m \<Longrightarrow> parse_unsigned m (decimal n) = Some n"
  by (simp add: parse_unsigned_digits)

lemma parse_u32_to_string [simp]: "parse_u32 (to_string w) = Some w"
proof -
  have "unat w \<le> 2 ^ 32 - 1" using unsigned_less [of w, where 'a = nat] by simp
  then show ?thesis by (simp add: parse_u32_def to_string_def)
qed

lemma parse_u64_to_string [simp]: "parse_u64 (to_string w) = Some w"
proof -
  have "unat w \<le> 2 ^ 64 - 1" using unsigned_less [of w, where 'a = nat] by simp
  then show ?thesis by (simp add: parse_u64_def to_string_def)
qed

lemma decimal_inject [simp]: "decimal m = decimal n \<longleftrightarrow> m = n"
  by (metis digits_val_decimal)

lemma to_string_inject [simp]: "to_string v = to_string w \<longleftrightarrow> v = w"
  by (simp add: to_string_def word_unat_eq_iff)


text \<open>The first occurrence of a text that contains a character the text before it does not contain.\<close>

lemma after_first_here: "after_first p (p @ s) = Some s"
  by (subst after_first.simps) (simp add: starts_with_def)

lemma after_first_mark:
  assumes "d \<notin> set a" and "d \<notin> set q"
  shows "after_first (q @ d # q') (a @ (q @ d # q') @ b) = Some b"
  using assms(1)
proof (induction a)
  case Nil
  then show ?case by (subst after_first.simps) (simp add: starts_with_def)
next
  case (Cons x a)
  have "\<not> starts_with (q @ d # q') ((x # a) @ (q @ d # q') @ b)"
  proof
    assume st: "starts_with (q @ d # q') ((x # a) @ (q @ d # q') @ b)"
    have "min (Suc (length q)) (length (q @ d # q')) = Suc (length q)" by simp
    then have "take (Suc (length q)) ((x # a) @ (q @ d # q') @ b)
        = take (Suc (length q)) (take (length (q @ d # q')) ((x # a) @ (q @ d # q') @ b))"
      by (simp only: take_take)
    also have "\<dots> = q @ [d]" using st by (simp only: starts_with_def) simp
    finally have "d \<in> set (take (Suc (length q)) ((x # a) @ q))" by simp
    then have "d \<in> set ((x # a) @ q)" by (rule in_set_takeD)
    then show False using Cons.prems assms(2) by auto
  qed
  then show ?case using Cons by (subst after_first.simps) simp
qed

text \<open>A label \<open>name (PID n)\<close> determines the process: the digits before the closing parenthesis are
  its id.\<close>

lemma takeWhile_digits:
  assumes "list_all is_ascii_digit d" and "\<not> is_ascii_digit x"
  shows "takeWhile is_ascii_digit (rev d @ x # r) = rev d"
proof -
  have "\<forall>y\<in>set (rev d). is_ascii_digit y" using assms(1) by (simp add: list_all_iff)
  then show ?thesis using assms(2) by (simp add: takeWhile_append)
qed

lemma pid_label_inject:
  fixes pid pid' :: "'a::len word"
  assumes "a @ '' (PID '' @ to_string pid @ '')'' = b @ '' (PID '' @ to_string pid' @ '')''"
  shows "pid = pid'"
proof -
  let ?d = "\<lambda>p. takeWhile is_ascii_digit (tl (rev p))"
  have "?d (a @ '' (PID '' @ to_string pid @ '')'') = rev (to_string pid)" for a and pid :: "'a word"
  proof -
    have "tl (rev (a @ '' (PID '' @ to_string pid @ '')'')) = rev (to_string pid) @ CHR '' '' # rev (a @ '' (PID'')"
      by simp
    then show ?thesis
      by (simp only:) (rule takeWhile_digits; simp add: to_string_def is_ascii_digit_def)
  qed
  then have "rev (to_string pid) = rev (to_string pid')" using assms by metis
  then show ?thesis by simp
qed


section \<open>IPv4 addresses\<close>

lemma hd_decimal_0:
  "hd (decimal n) = CHR ''0'' \<longleftrightarrow> n = 0"
proof (induction n rule: decimal.induct)
  case (1 n)
  show ?case
  proof (cases "n < 10")
    case True
    have "digit_char n = CHR ''0'' \<longleftrightarrow> n = 0"
    proof
      assume "digit_char n = CHR ''0''"
      then have "(of_char (digit_char n) :: nat) = 48" by simp
      then show "n = 0" using True by simp
    next
      assume "n = 0"
      then have "(of_char (digit_char n) :: nat) = of_char (CHR ''0'')" by simp
      then show "digit_char n = CHR ''0''" by (simp only: of_char_eq_iff)
    qed
    then show ?thesis using True by (subst decimal.simps) simp
  next
    case False
    then show ?thesis using 1 by (subst decimal.simps) auto
  qed
qed

lemma length_decimal_255:
  assumes "n \<le> 255"
  shows "length (decimal n) \<le> 3" and "n = 0 \<Longrightarrow> length (decimal n) = 1"
proof -
  have "length (decimal n) = (if n < 10 then 1 else if n < 100 then 2 else 3)"
    using assms by (simp add: decimal.simps) linarith
  then show "length (decimal n) \<le> 3" and "n = 0 \<Longrightarrow> length (decimal n) = 1" by simp_all
qed

lemma parse_octet_to_string [simp]: "parse_octet (to_string b) = Some b" for b :: u8
proof -
  have "unat b \<le> 255" using unsigned_less [of b, where 'a = nat] by simp
  from length_decimal_255 [OF this] this show ?thesis
    by (simp add: parse_octet_def to_string_def hd_decimal_0)
qed

lemma split_on_no_sep: "d \<notin> set s \<Longrightarrow> split_on d s = [s]"
  by (induction s) auto

lemma split_on_append: "d \<notin> set s \<Longrightarrow> split_on d (s @ d # t) = s # split_on d t"
  by (induction s) auto

lemma dot_not_digit: "list_all is_ascii_digit s \<Longrightarrow> CHR ''.'' \<notin> set s"
  by (auto simp: list_all_iff is_ascii_digit_def)

lemma parse_ipv4_show:
  "parse_ipv4 (show_ipv4 [a, b, c, d]) = Some [a, b, c, d]"
proof -
  have dot: "CHR ''.'' \<notin> set (to_string w)" for w :: u8
    unfolding to_string_def by (rule dot_not_digit) simp
  have "split_on (CHR ''.'') (show_ipv4 [a, b, c, d]) = map to_string [a, b, c, d]"
    using split_on_append [OF dot] split_on_no_sep [OF dot] by (simp add: show_ipv4_def)
  then show ?thesis by (simp add: parse_ipv4_def Let_def)
qed


section \<open>Exact conversions\<close>

lemma round_half_even_int [simp]: "round_half_even (of_int k) = k"
  by (simp add: round_half_even_def)

lemma binade_nat:
  assumes "0 < n" and "n < 2 ^ 53"
  shows "0 \<le> binade (of_nat n)" and "binade (of_nat n) \<le> 52"
proof -
  have "(of_nat n :: rat) * 2 ^ 1022 = of_nat (n * 2 ^ 1022)" by simp
  then have "nat \<lfloor>(of_nat n :: rat) * 2 ^ 1022\<rfloor> = n * 2 ^ 1022"
    by (metis floor_of_nat nat_int)
  moreover have "floorlog 2 (n * 2 ^ 1022) = floorlog 2 n + 1022"
    using assms(1) by (intro floorlog_power) simp_all
  moreover have "0 < floorlog 2 n" using assms(1) floorlog_eq_zero_iff [of 2 n] by simp
  moreover have "floorlog 2 n \<le> 53"
    using assms by (intro floorlog_leI) simp_all
  ultimately show "0 \<le> binade (of_nat n)" and "binade (of_nat n) \<le> 52"
    by (simp_all add: binade_def)
qed

lemma round_f64_nat:
  assumes "n < 2 ^ 53"
  shows "round_f64 (of_nat n) = of_nat n"
proof (cases "n = 0")
  case False
  let ?e = "binade (of_nat n) - 52"
  have "?e \<le> 0" using binade_nat [of n] assms False by simp
  then have s: "scale2 (- ?e) = 2 ^ nat (- ?e)" and "scale2 (- ?e) * scale2 ?e = 1"
    unfolding scale2_def by auto
  have "(of_nat n :: rat) * scale2 (- ?e) = of_int (int n * 2 ^ nat (- ?e))"
    unfolding s by simp
  then have "of_int (round_half_even (of_nat n * scale2 (- ?e))) = (of_nat n :: rat) * scale2 (- ?e)"
    by (simp only: round_half_even_int)
  then show ?thesis
    using False \<open>scale2 (- ?e) * scale2 ?e = 1\<close> by (simp add: round_f64_def Let_def mult.assoc)
qed (simp add: round_f64_def)

lemma u64_as_f64_exact: "w < 2 ^ 53 \<Longrightarrow> u64_as_f64 w = of_nat (unat w)"
  unfolding u64_as_f64_def by (rule round_f64_nat) (simp add: word_less_nat_alt)

lemma u64_as_f64_0 [simp]: "u64_as_f64 0 = 0"
  by (simp add: u64_as_f64_def round_f64_def)


lemma f64_of_average:
  assumes "map_option unat r = (if b then None else Some n)"
  shows "(case r of Some a \<Rightarrow> u64_as_f64 a | None \<Rightarrow> 0) = (if b then 0 else round_f64 (of_nat n))"
proof (cases r)
  case (Some a)
  then have "\<not> b" and "n = unat a" using assms by (auto split: if_splits)
  then show ?thesis using Some by (simp add: u64_as_f64_def)
qed (use assms in \<open>auto split: if_splits\<close>)

end
