(* ===== verification/Config.thy ===== *)
theory Config
  imports Rust_Std
begin

text \<open>
  Configuration (\<open>src/bpfagent/src/config/loader.rs\<close>). The file system, the environment and the
  TOML parser are parameters; a TOML value is what the code can ask of it, its \<open>as_str\<close> and
  \<open>as_integer\<close> views and its debug rendering.

  An \<open>anyhow\<close> error is the chain of its messages, the outermost context first.
\<close>

type_synonym anyhow = "string list"
type_synonym 'a result = "anyhow + 'a"

record toml_value =
  as_str :: "string option"
  as_integer :: "i64 option"
  debug_fmt :: string

type_synonym toml_table = "string \<Rightarrow> toml_value option"

record EbpfProgramConfig =
  cfg_name :: string
  cfg_enabled :: bool
  cfg_settings :: "toml_table option"

record DaemonConfig =
  pid_file :: string
  working_directory :: string
  log_file :: string
  stats_interval_ms :: u64
  ebpf_programs :: "EbpfProgramConfig list"

definition default_true :: bool where "default_true = True"
definition default_programs :: "EbpfProgramConfig list" where "default_programs = []"
definition default_stats_interval_ms :: u64 where "default_stats_interval_ms = 3000"

definition default_config :: DaemonConfig where
  "default_config = \<lparr>pid_file = ''/tmp/bpfagent.pid'', working_directory = ''/'',
     log_file = ''/tmp/bpfagent.log'', stats_interval_ms = default_stats_interval_ms,
     ebpf_programs = default_programs\<rparr>"

text \<open>\<open>config.settings.as_ref().and_then(|s| s.get(key))\<close>, with which every setting is read.\<close>

definition setting :: "EbpfProgramConfig \<Rightarrow> string \<Rightarrow> toml_value option" where
  "setting config key = Option.bind (cfg_settings config) (\<lambda>s. s key)"


section \<open>Loading\<close>

record world =
  path_exists :: "string \<Rightarrow> bool"
  read_to_string :: "string \<Rightarrow> string + string"
  toml_from_str :: "string \<Rightarrow> string + DaemonConfig"
  env_HOME :: "string option"
  current_dir :: "string option"

definition path_join :: "string \<Rightarrow> string \<Rightarrow> string" where
  "path_join base p =
     (if starts_with ''/'' p then p
      else if base = [] \<or> last base = CHR ''/'' then base @ p else base @ ''/'' @ p)"

definition load_from_path :: "world \<Rightarrow> string \<Rightarrow> DaemonConfig result" where
  "load_from_path W path =
     (case read_to_string W path of
        Inl e \<Rightarrow> Inl [''failed to read config file: '' @ path, e]
      | Inr content \<Rightarrow>
          (case toml_from_str W content of
             Inl e \<Rightarrow> Inl [''failed to parse config file as TOML: '' @ path, e]
           | Inr config \<Rightarrow> Inr config))"

definition config_paths :: "world \<Rightarrow> string list" where
  "config_paths W =
     [''/etc/bpfagent.conf'', ''/etc/bpfagent/bpfagent.conf'', ''/usr/local/etc/bpfagent.conf'',
      ''/usr/local/etc/bpfagent/bpfagent.conf'']
     @ (case env_HOME W of
          None \<Rightarrow> []
        | Some home \<Rightarrow> [path_join home ''.bpfagent.conf'', path_join home ''.config/bpfagent/config.toml''])
     @ (case current_dir W of None \<Rightarrow> [] | Some cwd \<Rightarrow> [path_join cwd ''bpfagent.conf''])"

fun load_first :: "world \<Rightarrow> string list \<Rightarrow> DaemonConfig result" where
  "load_first W [] = Inr default_config"
| "load_first W (p # ps) = (if path_exists W p then load_from_path W p else load_first W ps)"

definition load :: "world \<Rightarrow> string option \<Rightarrow> DaemonConfig result" where
  "load W custom_config =
     (case custom_config of
        Some config_path \<Rightarrow>
          if path_exists W config_path then load_from_path W config_path
          else Inl [''specified config file does not exist: '' @ config_path]
      | None \<Rightarrow> load_first W (config_paths W))"

lemma load_first_skip:
  "\<forall>p\<in>set pre. \<not> path_exists W p \<Longrightarrow> load_first W (pre @ ps) = load_first W ps"
  by (induction pre) auto

text \<open>
  Which configuration is used: a named file, and only it (an error if it does not exist);
  otherwise the first existing file in the search order, system paths before the user's and those
  before the current directory, even if it turns out to be unreadable or invalid; defaults only if
  no file of the search path exists.
\<close>

lemma config_search_order:
  "load W (Some p) = (if path_exists W p then load_from_path W p
     else Inl [''specified config file does not exist: '' @ p])
   \<and> (config_paths W = pre @ q # post \<and> path_exists W q \<and> (\<forall>p\<in>set pre. \<not> path_exists W p)
        \<longrightarrow> load W None = load_from_path W q)
   \<and> ((\<forall>p\<in>set (config_paths W). \<not> path_exists W p) \<longrightarrow> load W None = Inr default_config)"
  using load_first_skip [of pre W "q # post"] load_first_skip [of "config_paths W" W "[]"]
  by (simp add: load_def)

definition demo_world :: world where
  "demo_world = \<lparr>path_exists = (\<lambda>p. p = ''/etc/bpfagent/bpfagent.conf'' \<or> p = ''/root/.bpfagent.conf''),
     read_to_string = (\<lambda>p. Inr p), toml_from_str = (\<lambda>_. Inr (default_config\<lparr>stats_interval_ms := 1\<rparr>)),
     env_HOME = Some ''/root'', current_dir = None\<rparr>"

lemma config_search_order_witness:
  "load demo_world None = Inr (default_config\<lparr>stats_interval_ms := 1\<rparr>)"
  using config_search_order [of demo_world "''x''" "[''/etc/bpfagent.conf'']" "''/etc/bpfagent/bpfagent.conf''"
      "drop 2 (config_paths demo_world)"]
  by (simp add: config_paths_def) (simp add: demo_world_def load_from_path_def)

end
