(* ===== verification/Aya.thy ===== *)
theory Aya
  imports Config "HOL-Library.Sublist"
begin

text \<open>
  How the programs are loaded. The calls into \<open>aya\<close> (object loading, map access, attaching) are
  operations of a library outside the repository: a call is a value of \<open>aya_call\<close>, and whether it
  fails, and with which message, is the parameter \<open>aya\<close>. The body of a program's \<open>load()\<close> is the
  list of its steps: a call whose error is returned (\<open>?\<close>, possibly through \<open>map_err\<close>), a call whose
  error is only logged, or a call with a second attempt. Running the steps yields the calls that
  were made, in order, and the error that ended them, if any.
\<close>

datatype attach_point =
  Tracepoint string string
| Kprobe string u64
| XdpDefault string
| XdpSkb string
| TcEgress string
| Uprobe string u64 string "u32 option"

datatype map_write =
  WriteU32 u32 u32
| WriteUprobeConfig u32 u32 u32 u32

datatype aya_call =
  LoadObject string
| FindMap string
| OpenMap string
| InsertMap string map_write
| FindProgram string
| CastProgram string
| LoadProgram string
| Attach string attach_point
| QdiscAddClsact string

type_synonym aya = "aya_call \<Rightarrow> string option"

datatype step =
  Must aya_call "string \<Rightarrow> anyhow"
| Try aya_call
| Retry aya_call aya_call "string \<Rightarrow> anyhow"

fun run_steps :: "aya \<Rightarrow> step list \<Rightarrow> aya_call list \<times> anyhow option" where
  "run_steps aya [] = ([], None)"
| "run_steps aya (Must c err # steps) =
     (case aya c of
        Some e \<Rightarrow> ([c], Some (err e))
      | None \<Rightarrow> (let (cs, r) = run_steps aya steps in (c # cs, r)))"
| "run_steps aya (Try c # steps) = (let (cs, r) = run_steps aya steps in (c # cs, r))"
| "run_steps aya (Retry c d err # steps) =
     (case aya c of
        None \<Rightarrow> (let (cs, r) = run_steps aya steps in (c # cs, r))
      | Some _ \<Rightarrow>
          (case aya d of
             Some e \<Rightarrow> ([c, d], Some (err e))
           | None \<Rightarrow> (let (cs, r) = run_steps aya steps in (c # d # cs, r))))"

text \<open>The idioms of the \<open>load()\<close> bodies.\<close>

definition load_object :: "string \<Rightarrow> step list" where
  "load_object name = [Must (LoadObject name) (\<lambda>e. [e])]"

definition open_map :: "string \<Rightarrow> step list" where
  "open_map name =
     [Must (FindMap name) (\<lambda>_. [name @ '' map not found'']),
      Must (OpenMap name) (\<lambda>e. [''failed to open '' @ name @ '' map: '' @ e])]"

definition configure_map :: "string \<Rightarrow> map_write \<Rightarrow> step list" where
  "configure_map name w =
     open_map name @ [Must (InsertMap name w) (\<lambda>e. [''failed to configure '' @ name @ '': '' @ e])]"

definition take_program :: "string \<Rightarrow> step list" where
  "take_program name =
     [Must (FindProgram name) (\<lambda>_. [''program '' @ [CHR 0x27] @ name @ [CHR 0x27] @ '' not found'']),
      Must (CastProgram name) (\<lambda>e. [e]),
      Must (LoadProgram name) (\<lambda>e. [e])]"

definition attach :: "string \<Rightarrow> attach_point \<Rightarrow> step list" where
  "attach name p = [Must (Attach name p) (\<lambda>e. [e])]"

definition attach_xdp :: "string \<Rightarrow> string \<Rightarrow> step list" where
  "attach_xdp name iface =
     [Retry (Attach name (XdpDefault iface)) (Attach name (XdpSkb iface))
        (\<lambda>e. [''failed to attach XDP on '' @ iface @ '': '' @ e])]"

lemmas load_idioms = load_object_def open_map_def configure_map_def take_program_def attach_def attach_xdp_def


section \<open>Order of the calls\<close>

fun is_attach :: "aya_call \<Rightarrow> bool" where
  "is_attach (Attach _ _) \<longleftrightarrow> True"
| "is_attach _ \<longleftrightarrow> False"

fun step_calls :: "step \<Rightarrow> aya_call list" where
  "step_calls (Must c _) = [c]"
| "step_calls (Try c) = [c]"
| "step_calls (Retry c d _) = [c, d]"

lemma run_steps_append:
  "run_steps aya (xs @ ys) =
     (case run_steps aya xs of
        (cs, Some e) \<Rightarrow> (cs, Some e)
      | (cs, None) \<Rightarrow> (let (ds, r) = run_steps aya ys in (cs @ ds, r)))"
proof (induction xs)
  case (Cons x xs)
  then show ?case by (cases x) (auto simp: Let_def split: option.splits prod.splits)
qed (simp split: prod.split)

lemma run_steps_calls: "set (fst (run_steps aya xs)) \<subseteq> (\<Union>x\<in>set xs. set (step_calls x))"
proof (induction xs)
  case (Cons x xs)
  then show ?case by (cases x) (auto simp: Let_def split: option.splits prod.splits)
qed simp

lemma run_steps_must:
  assumes "snd (run_steps aya xs) = None" and "Must c err \<in> set xs"
  shows "c \<in> set (fst (run_steps aya xs)) \<and> aya c = None"
  using assms
proof (induction xs)
  case (Cons x xs)
  then show ?case by (cases x) (auto simp: Let_def split: option.splits prod.splits)
qed simp

fun is_must :: "step \<Rightarrow> bool" where
  "is_must (Must _ _) \<longleftrightarrow> True"
| "is_must _ \<longleftrightarrow> False"

lemma run_steps_all_must:
  assumes "list_all is_must xs" and "snd (run_steps aya xs) = None"
  shows "fst (run_steps aya xs) = concat (map step_calls xs)"
  using assms
proof (induction xs)
  case (Cons x xs)
  then show ?case by (cases x) (auto simp: Let_def split: option.splits prod.splits)
qed simp

lemma run_steps_ok: "(\<And>c. aya c = None) \<Longrightarrow> \<exists>cs. run_steps aya xs = (cs, None)"
proof (induction xs)
  case (Cons x xs)
  then show ?case by (cases x) auto
qed simp

text \<open>
  Configuration before attachment: if no step of \<open>pre\<close> attaches anything, every attach call of a run
  of \<open>pre @ post\<close> comes after all calls of \<open>pre\<close>, which succeeded.
\<close>

lemma attach_after:
  assumes run: "run_steps aya (pre @ post) = (cs, r)"
    and pre: "\<forall>x\<in>set pre. \<forall>c\<in>set (step_calls x). \<not> is_attach c"
    and a: "cs = as @ a # bs" "is_attach a" and c: "Must c err \<in> set pre"
  shows "c \<in> set as \<and> aya c = None"
proof -
  obtain ps e where ps: "run_steps aya pre = (ps, e)" by (cases "run_steps aya pre")
  have none: "\<forall>c\<in>set ps. \<not> is_attach c"
    using run_steps_calls [of aya pre] pre by (fastforce simp: ps)
  have "e = None"
  proof (rule ccontr)
    assume "e \<noteq> None"
    then have "cs = ps" using run by (auto simp: run_steps_append ps)
    then have "a \<in> set ps" using a(1) by (metis in_set_conv_decomp)
    then show False using none a(2) by blast
  qed
  then have okc: "c \<in> set ps" "aya c = None" using run_steps_must [of aya pre c err] c by (simp_all add: ps)
  obtain ds r' where "run_steps aya post = (ds, r')" by (cases "run_steps aya post")
  then have "as @ a # bs = ps @ ds" using run \<open>e = None\<close> a(1) by (simp add: run_steps_append ps)
  then have "set ps \<subseteq> set as"
    using none a(2) by (auto simp: append_eq_append_conv2 Cons_eq_append_conv)
  then show ?thesis using okc by blast
qed


section \<open>Reading maps and registering metrics\<close>

text \<open>
  \<open>ebpf.map(name)\<close> followed by the conversion to a typed map; reading an entry of an open map is
  the parameter \<open>lookup\<close>, \<open>None\<close> when the kernel reports an error or no such key.
\<close>

definition open_accumulator_map :: "aya \<Rightarrow> string \<Rightarrow> unit result" where
  "open_accumulator_map aya name =
     (case aya (FindMap name) of
        Some _ \<Rightarrow> Inl [name @ '' map not found'']
      | None \<Rightarrow>
          (case aya (OpenMap name) of
             Some e \<Rightarrow> Inl [''failed to open '' @ name @ '' map: '' @ e]
           | None \<Rightarrow> Inr ()))"

type_synonym lookup = "string \<Rightarrow> u32 \<Rightarrow> u64 option"

text \<open>
  Iterating an open map yields a list of entries, each an error or a key with its value. The
  contents of a metric family is the association list from its labels to the values.
\<close>

type_synonym ('k, 'v) entries = "(string + 'k \<times> 'v) list"
type_synonym 'v family = "(string \<times> 'v) list"

text \<open>The entries of an iteration that could be read.\<close>

fun readable :: "('k, 'v) entries \<Rightarrow> ('k \<times> 'v) list" where
  "readable [] = []"
| "readable (Inl _ # es) = readable es"
| "readable (Inr kv # es) = kv # readable es"

text \<open>Creating and registering a metric family with \<open>prometheus\<close>; both may fail.\<close>

datatype prom_call = CreateMetric string | RegisterMetric string

type_synonym prom = "prom_call \<Rightarrow> string option"

end
