(* ===== verification/Averaging.thy ===== *)
theory Averaging
  imports Prelude
begin

text \<open>
  The interface between the eBPF accumulators and the metrics: cumulative (sum, count) readings
  are turned into the deltas since the previous reading and the deltas into an average in
  microseconds. \<open>irss\<close> and \<open>iflat\<close> have their own copies of the two functions; the locale
  \<open>interval_average\<close> states what the displays rely on, and the facts about sequences of readings
  are proved once.
\<close>

locale interval_average =
  fixes deltas :: "u64 \<Rightarrow> u64 \<Rightarrow> u64 \<Rightarrow> u64 \<Rightarrow> (u64 \<times> u64) \<times> u64 \<times> u64"
    and avg :: "u64 \<Rightarrow> u64 \<Rightarrow> u64 option"
  assumes deltas_last: "snd (deltas ls lc s c) = (s, c)"
    and deltas_forward: "ls \<le> s \<Longrightarrow> lc \<le> c \<Longrightarrow> fst (deltas ls lc s c) = (s - ls, c - lc)"
    and deltas_backward: "s < ls \<Longrightarrow> fst (fst (deltas ls lc s c)) = 0"
    and avg_idle: "avg d 0 = None"
    and avg_value: "n \<noteq> 0 \<Longrightarrow> \<exists>a. avg d n = Some a \<and> unat a = unat d div unat n div 1000"
begin

text \<open>The average reported for the latencies \<open>L\<close> added between two readings.\<close>

lemma interval_reports:
  assumes "unat ls + sum_list (map unat L) < 2 ^ 64" and "unat lc + length L < 2 ^ 64"
    and "fst (deltas ls lc (ls + sum_list L) (lc + of_nat (length L))) = (sd, cd)"
  shows "map_option unat (avg sd cd) =
           (if L = [] then None else Some (sum_list (map unat L) div length L div 1000))"
proof -
  have sum: "unat (sum_list L) = sum_list (map unat L)"
  proof -
    have "sum_list (map unat L) < 2 ^ 64" using assms(1) by simp
    then show ?thesis
    proof (induction L)
      case (Cons l L)
      then show ?case using unat_plus_no_overflow [of l "sum_list L"] by simp
    qed simp
  qed
  have len: "unat (of_nat (length L) :: u64) = length L"
    using assms(2) by (simp add: unat_of_nat)
  have "ls \<le> ls + sum_list L" and "lc \<le> lc + of_nat (length L)"
    using assms(1,2) unat_plus_no_overflow [of ls "sum_list L"]
      unat_plus_no_overflow [of lc "of_nat (length L)"]
    by (simp_all add: word_le_nat_alt sum len)
  from deltas_forward [OF this] have sd: "sd = sum_list L" "cd = of_nat (length L)"
    using assms(3) by simp_all
  show ?thesis
  proof (cases "L = []")
    case False
    then have "cd \<noteq> 0" using len sd(2) by (metis length_0_conv unat_0)
    from avg_value [OF this, of sd] show ?thesis using False sum len sd by auto
  qed (simp add: sd avg_idle)
qed

text \<open>The deltas of consecutive readings of growing accumulators add up to the whole growth.\<close>

fun sum_deltas :: "u64 \<Rightarrow> u64 \<Rightarrow> (u64 \<times> u64) list \<Rightarrow> nat" where
  "sum_deltas ls lc [] = 0"
| "sum_deltas ls lc ((s, c) # rs) = unat (fst (fst (deltas ls lc s c))) + sum_deltas s c rs"

lemma deltas_telescope:
  assumes "sorted (map fst ((ls, lc) # rs))" and "sorted (map snd ((ls, lc) # rs))"
  shows "sum_deltas ls lc rs + unat ls = unat (fst (last ((ls, lc) # rs)))"
  using assms
proof (induction rs arbitrary: ls lc)
  case (Cons r rs)
  obtain s c where r: "r = (s, c)" by (cases r)
  have "ls \<le> s" and "lc \<le> c" using Cons.prems by (simp_all add: r)
  then have "unat (fst (fst (deltas ls lc s c))) + unat ls = unat s"
    by (simp add: deltas_forward unat_sub word_le_nat_alt)
  then show ?case using Cons.IH [of s c] Cons.prems by (simp add: r)
qed simp

end

end
