(* ===== verification/Irss_User.thy ===== *)
theory Irss_User
  imports Irss_Ebpf Aya Averaging
begin

text \<open>
  The userspace side of \<open>irss\<close> (\<open>src/bpfagent/src/programs/irss/mod.rs\<close>): settings, loading,
  per-tick averages. \<open>irss_ebpf\<close> is whether the loaded object is held, \<open>irss_metrics\<close> the value of
  the registered gauge.

  Shown: what is configured is what the eBPF filters match on; nothing is attached before the
  filters are written; the reported average is the average of the latencies matched since the
  last tick.
\<close>

definition NS_PER_US :: u64 where "NS_PER_US = 1000"

definition TRACEPOINTS :: "(string \<times> string \<times> string) list" where
  "TRACEPOINTS =
     [(''irss_sys_enter_recvmsg'', ''syscalls'', ''sys_enter_recvmsg''),
      (''irss_sys_exit_recvmsg'', ''syscalls'', ''sys_exit_recvmsg''),
      (''irss_sys_enter_sendmsg'', ''syscalls'', ''sys_enter_sendmsg'')]"

definition KPROBE_FUNCTION :: string where "KPROBE_FUNCTION = ''udp_recvmsg''"

record IrssProgram =
  irss_name :: string
  irss_ebpf :: bool
  irss_metrics :: "f64 option"
  irss_raw_dest :: "u8 list"
  irss_listen_port :: u16
  irss_last_sum :: u64
  irss_last_count :: u64

definition irss_new :: IrssProgram where
  "irss_new = \<lparr>irss_name = ''irss'', irss_ebpf = False, irss_metrics = None, irss_raw_dest = RAW_DEST,
     irss_listen_port = LISTEN_PORT, irss_last_sum = 0, irss_last_count = 0\<rparr>"

definition irss_metrics_new :: "prom \<Rightarrow> f64 result" where
  "irss_metrics_new prom =
     (case prom (CreateMetric ''irss_avg_latency_us'') of
        Some e \<Rightarrow> Inl [''failed to create avg_latency_us gauge: '' @ e]
      | None \<Rightarrow>
          (case prom (RegisterMetric ''irss_avg_latency_us'') of
             Some e \<Rightarrow> Inl [''failed to register avg_latency_us gauge: '' @ e]
           | None \<Rightarrow> Inr 0))"

definition parse_raw_dest :: "EbpfProgramConfig \<Rightarrow> u8 list" where
  "parse_raw_dest config =
     (case Option.bind (setting config ''raw_dest'') as_str of
        None \<Rightarrow> RAW_DEST
      | Some value \<Rightarrow> (case parse_ipv4 value of Some octets \<Rightarrow> octets | None \<Rightarrow> RAW_DEST))"

definition parse_listen_port :: "EbpfProgramConfig \<Rightarrow> u16" where
  "parse_listen_port config =
     (case Option.bind (setting config ''listen_port'') as_integer of
        None \<Rightarrow> LISTEN_PORT
      | Some value \<Rightarrow>
          (case try_from_i64 0 65535 value of
             Some port \<Rightarrow> if port \<noteq> 0 then port else LISTEN_PORT
           | None \<Rightarrow> LISTEN_PORT))"

definition irss_configure :: "EbpfProgramConfig \<Rightarrow> IrssProgram \<Rightarrow> unit result \<times> IrssProgram" where
  "irss_configure config p =
     (Inr (), p\<lparr>irss_raw_dest := parse_raw_dest config, irss_listen_port := parse_listen_port config\<rparr>)"

definition irss_config_steps :: "IrssProgram \<Rightarrow> step list" where
  "irss_config_steps p =
     load_object ''irss''
     @ configure_map ''RAW_DEST_MAP'' (WriteU32 RAW_DEST_KEY (from_le_bytes (irss_raw_dest p)))
     @ configure_map ''LISTEN_PORT_MAP'' (WriteU32 LISTEN_PORT_KEY (ucast (irss_listen_port p)))"

definition irss_attach_steps :: "step list" where
  "irss_attach_steps =
     concat (map (\<lambda>(name, category, event). take_program name @ attach name (Tracepoint category event))
       TRACEPOINTS)
     @ take_program ''irss_udp_recvmsg'' @ attach ''irss_udp_recvmsg'' (Kprobe KPROBE_FUNCTION 0)"

definition irss_load :: "aya \<Rightarrow> IrssProgram \<Rightarrow> (unit result \<times> IrssProgram) \<times> aya_call list" where
  "irss_load aya p =
     (case run_steps aya (irss_config_steps p @ irss_attach_steps) of
        (cs, Some e) \<Rightarrow> ((Inl e, p), cs)
      | (cs, None) \<Rightarrow> ((Inr (), p\<lparr>irss_ebpf := True\<rparr>), cs))"

definition irss_latency_deltas :: "u64 \<Rightarrow> u64 \<Rightarrow> u64 \<Rightarrow> u64 \<Rightarrow> (u64 \<times> u64) \<times> u64 \<times> u64" where
  "irss_latency_deltas last_sum last_count cur_sum count =
     (let sum_delta = saturating_sub cur_sum last_sum; count_delta = saturating_sub count last_count
      in ((sum_delta, count_delta), (cur_sum, count)))"

definition irss_avg_latency_us :: "u64 \<Rightarrow> u64 \<Rightarrow> u64 option" where
  "irss_avg_latency_us sum_delta count_delta =
     do {
       avg \<leftarrow> checked_div sum_delta count_delta;
       checked_div avg NS_PER_US
     }"

definition irss_set_metrics_registry :: "prom \<Rightarrow> IrssProgram \<Rightarrow> unit result \<times> IrssProgram" where
  "irss_set_metrics_registry prom p =
     (case irss_metrics_new prom of
        Inl e \<Rightarrow> (Inl e, p)
      | Inr g \<Rightarrow> (Inr (), p\<lparr>irss_metrics := Some g\<rparr>))"

definition irss_display_metrics :: "aya \<Rightarrow> lookup \<Rightarrow> IrssProgram \<Rightarrow> unit result \<times> IrssProgram" where
  "irss_display_metrics aya lookup p =
     (if irss_metrics p = None then (Inl [''metrics not set for irss program''], p)
      else if \<not> irss_ebpf p then (Inl [''BPF program not loaded''], p)
      else
        (case open_accumulator_map aya ''LATENCY_SUM'' of
           Inl e \<Rightarrow> (Inl e, p)
         | Inr _ \<Rightarrow>
             (case open_accumulator_map aya ''LATENCY_COUNT'' of
                Inl e \<Rightarrow> (Inl e, p)
              | Inr _ \<Rightarrow>
                  (let sum = unwrap_or (lookup ''LATENCY_SUM'' ACCUM_KEY) 0;
                       count = unwrap_or (lookup ''LATENCY_COUNT'' ACCUM_KEY) 0;
                       ((sum_delta, count_delta), (last_sum, last_count)) =
                         irss_latency_deltas (irss_last_sum p) (irss_last_count p) sum count;
                       p = p\<lparr>irss_last_sum := last_sum, irss_last_count := last_count\<rparr>
                   in (Inr (),
                       p\<lparr>irss_metrics := Some
                         (case irss_avg_latency_us sum_delta count_delta of
                            Some avg_us \<Rightarrow> u64_as_f64 avg_us
                          | None \<Rightarrow> 0)\<rparr>)))))"

interpretation irss_avg: interval_average irss_latency_deltas irss_avg_latency_us
proof (unfold_locales, goal_cases)
  case (3 s ls lc c)
  then show ?case by (auto simp: irss_latency_deltas_def saturating_sub_def)
next
  case (5 n d)
  then show ?case
    by (simp add: irss_avg_latency_us_def checked_div_def NS_PER_US_def unat_div)
qed (simp_all add: irss_latency_deltas_def irss_avg_latency_us_def saturating_sub_def checked_div_def Let_def)


section \<open>From the settings to the filters\<close>

text \<open>What the successful map writes of a run leave in the maps the eBPF program reads.\<close>

fun irss_written :: "aya_call list \<Rightarrow> irss_maps \<Rightarrow> irss_maps" where
  "irss_written [] s = s"
| "irss_written (InsertMap name (WriteU32 k v) # cs) s =
     irss_written cs
       (if name = ''RAW_DEST_MAP'' then s\<lparr>RAW_DEST_MAP := AList.update k v (RAW_DEST_MAP s)\<rparr>
        else if name = ''LISTEN_PORT_MAP'' then s\<lparr>LISTEN_PORT_MAP := AList.update k v (LISTEN_PORT_MAP s)\<rparr>
        else s)"
| "irss_written (_ # cs) s = irss_written cs s"

lemma irss_steps_must: "list_all is_must (irss_config_steps p @ irss_attach_steps)"
  by (simp add: irss_config_steps_def irss_attach_steps_def load_idioms TRACEPOINTS_def)

lemma irss_load_calls:
  assumes "irss_load aya p = ((Inr (), p'), cs)"
  shows "cs = concat (map step_calls (irss_config_steps p @ irss_attach_steps))"
  using assms run_steps_all_must [OF irss_steps_must, of aya p]
  by (auto simp: irss_load_def split: prod.splits option.splits)

lemma irss_config_no_attach: "\<forall>x\<in>set (irss_config_steps p). \<forall>c\<in>set (step_calls x). \<not> is_attach c"
  by (simp add: irss_config_steps_def load_idioms)

lemma irss_written_load:
  assumes "irss_load aya p = ((Inr (), p'), cs)"
  shows "RAW_DEST_MAP (irss_written cs irss_maps_init)
           = [(RAW_DEST_KEY, from_le_bytes (irss_raw_dest p))]"
    and "LISTEN_PORT_MAP (irss_written cs irss_maps_init)
           = [(LISTEN_PORT_KEY, ucast (irss_listen_port p))]"
  using irss_load_calls [OF assms]
  by (simp_all add: irss_config_steps_def irss_attach_steps_def load_idioms TRACEPOINTS_def
      irss_maps_init_def)

text \<open>
  What is configured is what is matched: with \<open>raw_dest\<close> set to a dotted address and
  \<open>listen_port\<close> to a port, a successful load leaves the eBPF filters matching exactly those four
  address bytes and that port.
\<close>

lemma irss_filters_configured:
  assumes "setting config ''raw_dest'' = Some v" and "as_str v = Some (show_ipv4 [a, b, c, d])"
    and "setting config ''listen_port'' = Some w" and "as_integer w = Some port"
    and "0 < sint port" and "sint port \<le> 65535"
    and "irss_load aya (snd (irss_configure config p)) = ((Inr (), p'), cs)"
  shows "raw_dest (irss_written cs irss_maps_init) = from_le_bytes [a, b, c, d]
       \<and> uint (listen_port (irss_written cs irss_maps_init)) = sint port"
proof -
  have dest: "parse_raw_dest config = [a, b, c, d]"
    using assms(1,2) by (simp add: parse_raw_dest_def parse_ipv4_show)
  have small: "uint (word_of_int (sint port) :: u16) = sint port"
    using assms(5,6) by (intro uint_word_of_int_id) simp_all
  then have "(word_of_int (sint port) :: u16) \<noteq> 0" using assms(5) by auto
  then have "parse_listen_port config = word_of_int (sint port)"
    using assms(3-6) by (simp add: parse_listen_port_def try_from_i64_def)
  moreover have "sint port mod 4294967296 = sint port" using assms(5,6) by simp
  ultimately show ?thesis
    using irss_written_load [OF assms(7)] dest small
    by (simp add: irss_configure_def raw_dest_def listen_port_def unsigned_ucast_eq take_bit_eq_mod)
qed

definition irss_demo_config :: EbpfProgramConfig where
  "irss_demo_config = \<lparr>cfg_name = ''irss'', cfg_enabled = True, cfg_settings = Some
     [''raw_dest'' \<mapsto> \<lparr>as_str = Some (show_ipv4 [10, 0, 0, 7]), as_integer = None, debug_fmt = []\<rparr>,
      ''listen_port'' \<mapsto> \<lparr>as_str = None, as_integer = Some 6000, debug_fmt = []\<rparr>]\<rparr>"

lemma irss_filters_configured_witness:
  "\<exists>p' cs. irss_load (\<lambda>_. None) (snd (irss_configure irss_demo_config irss_new)) = ((Inr (), p'), cs)
     \<and> raw_dest (irss_written cs irss_maps_init) = from_le_bytes [10, 0, 0, 7]
     \<and> uint (listen_port (irss_written cs irss_maps_init)) = 6000"
proof -
  let ?p = "snd (irss_configure irss_demo_config irss_new)"
  obtain p' cs where load: "irss_load (\<lambda>_. None) ?p = ((Inr (), p'), cs)"
    using run_steps_ok [of "\<lambda>_. None" "irss_config_steps ?p @ irss_attach_steps"]
    by (auto simp: irss_load_def)
  have "setting irss_demo_config ''raw_dest''
        = Some \<lparr>as_str = Some (show_ipv4 [10, 0, 0, 7]), as_integer = None, debug_fmt = []\<rparr>"
    and "setting irss_demo_config ''listen_port''
        = Some \<lparr>as_str = None, as_integer = Some 6000, debug_fmt = []\<rparr>"
    by (simp_all add: setting_def irss_demo_config_def)
  from irss_filters_configured [OF this(1) _ this(2) _ _ _ load, of 10 0 0 7 6000] load
  show ?thesis by auto
qed

text \<open>
  The gauge shows the average of the recent latencies: when the hooks of an interval matched
  the latencies \<open>L\<close>, the tick that ends it sets the gauge to their average in whole microseconds,
  and to zero when there were none; the ledger is ready for the next interval.
\<close>

lemma irss_tick_reports:
  assumes "irss_inv K s" and "s' = irss.watch K s hooks" and "L = irss.latencies K s hooks"
    and "irss_last_sum p = irss_total s" and "irss_last_count p = irss_samples s"
    and "unat (irss_total s) + sum_list (map unat L) < 2 ^ 64"
    and "unat (irss_samples s) + length L < 2 ^ 64"
    and "irss_metrics p \<noteq> None" and "irss_ebpf p" and "\<And>c. aya c = None"
    and "lookup ''LATENCY_SUM'' = map_get (LATENCY_SUM s')"
    and "lookup ''LATENCY_COUNT'' = map_get (LATENCY_COUNT s')"
    and "irss_display_metrics aya lookup p = (r, p')"
  shows "r = Inr ()
       \<and> irss_metrics p' = Some (if L = [] then 0
            else round_f64 (of_nat (sum_list (map unat L) div length L div 1000)))
       \<and> irss_last_sum p' = irss_total s' \<and> irss_last_count p' = irss_samples s'"
proof -
  have tot: "irss_total s' = irss_total s + sum_list L" "irss_samples s' = irss_samples s + of_nat (length L)"
    using irss.watch_totals [OF assms(1)] by (simp_all add: assms(2,3))
  obtain sd cd where d: "irss_latency_deltas (irss_total s) (irss_samples s) (irss_total s') (irss_samples s')
      = ((sd, cd), (irss_total s', irss_samples s'))"
    by (simp add: irss_latency_deltas_def Let_def)
  have avg: "map_option unat (irss_avg_latency_us sd cd) =
      (if L = [] then None else Some (sum_list (map unat L) div length L div 1000))"
    using irss_avg.interval_reports [OF assms(6,7), of sd cd] d tot by simp
  have "irss_display_metrics aya lookup p = (Inr (), p\<lparr>irss_last_sum := irss_total s',
      irss_last_count := irss_samples s', irss_metrics := Some
        (case irss_avg_latency_us sd cd of Some a \<Rightarrow> u64_as_f64 a | None \<Rightarrow> 0)\<rparr>)"
    using assms(4,5,8-12) d
    by (simp add: irss_display_metrics_def open_accumulator_map_def irss_total_def irss_samples_def Let_def)
  then show ?thesis
    using assms(13) f64_of_average [OF avg] by auto
qed

section \<open>From the settings to the exported value\<close>

lemma irss_written_frame:
  "TIMESTAMP_MAP (irss_written cs s) = TIMESTAMP_MAP s"
  "RECV_MSG_PTR (irss_written cs s) = RECV_MSG_PTR s"
  "LATENCY_SUM (irss_written cs s) = LATENCY_SUM s"
  "LATENCY_COUNT (irss_written cs s) = LATENCY_COUNT s"
  by (induction cs s rule: irss_written.induct) auto

lemma irss_exit_filters: "raw_dest (irss_exit K s p t) = raw_dest s"
  by (cases p) (simp add: irss_exit_eq raw_dest_def split: option.split)

lemma irss_enter_filters: "raw_dest (irss_enter K s h) = raw_dest s"
  using irss_enter_frame [of K s h] by (auto simp: raw_dest_def)

text \<open>The latencies of one forwarded datagram, from the system call that receives it.\<close>

lemma irss_datagram_latency:
  assumes inv: "irss_inv K s" and ptr: "RECV_MSG_PTR s = []" and ts: "TIMESTAMP_MAP s = []"
    and port: "probe (sk + SK_NUM_OFFSET) = Inr port" "ucast port = listen_port s"
    and recv: "\<not> ret r <s of_nat KEY_SIZE" "read_payload_key mem (msg a) = Some key"
    and send: "read_tx_dest mem' (msg b) = Some (raw_dest s)" "read_payload_key mem' (msg b) = Some key"
  shows "irss.latencies K s [Neutral (SysEnter pid (Some a)), Neutral (UdpRecvmsg pid (Some sk) probe),
           First (pid, Some r, mem) t1, Second (Some b, mem') t2] = [saturating_sub t2 t1]"
proof -
  let ?s1 = "irss_enter K s (SysEnter pid (Some a))"
  let ?s2 = "irss_enter K ?s1 (UdpRecvmsg pid (Some sk) probe)"
  let ?s3 = "irss_exit K ?s2 (pid, Some r, mem) t1"
  have room: "hash_room 1024 (RECV_MSG_PTR s) pid" by (simp add: ptr hash_room_def)
  have inv2: "irss_inv K ?s2" using inv by (intro irss.inv_neutral)
  have tag: "irss_exit_tag ?s2 (pid, Some r, mem) = Some key"
    using irss_call_with_probe [OF inv room, of "[]" "[]" probe sk port ?s1 a ?s2 r mem] port recv by simp
  have "TIMESTAMP_MAP ?s2 = []"
    using irss_enter_frame [of K s "SysEnter pid (Some a)"]
      irss_enter_frame [of K ?s1 "UdpRecvmsg pid (Some sk) probe"] ts by auto
  then have "irss_room ?s2 (pid, Some r, mem)" by (simp add: irss_room_def hash_room_def)
  then have "map_get (TIMESTAMP_MAP ?s3) key = Some t1"
    using irss.first_exact [OF inv2 tag, of t1] by simp
  moreover have "irss_send_tag ?s3 (Some b, mem') = Some key"
    using send by (simp add: irss_send_tag.simps irss_exit_filters irss_enter_filters)
  ultimately show ?thesis by simp
qed

text \<open>
  C3. The whole path of \<open>irss\<close>: after a successful load of a program and the registration of its
  gauge, a datagram received on the configured port at \<open>t1\<close> and forwarded to the configured
  destination at \<open>t2\<close> makes the next tick export exactly its latency in whole microseconds.
\<close>

theorem irss_end_to_end:
  assumes "irss_load aya p = ((Inr (), q), cs)" and "s = irss_written cs irss_maps_init"
    and "irss_last_sum p = 0" and "irss_last_count p = 0"
    and "irss_set_metrics_registry prom q = (Inr (), q1)"
    and "hash_documented K"
    and "probe (sk + SK_NUM_OFFSET) = Inr (irss_listen_port p)"
    and "\<not> ret r <s of_nat KEY_SIZE" and "read_payload_key mem (msg a) = Some key"
    and "read_tx_dest mem' (msg b) = Some (from_le_bytes (irss_raw_dest p))"
    and "read_payload_key mem' (msg b) = Some key" and "t1 \<le> t2"
    and "s1 = irss.watch K s [Neutral (SysEnter pid (Some a)), Neutral (UdpRecvmsg pid (Some sk) probe),
           First (pid, Some r, mem) t1, Second (Some b, mem') t2]"
    and "\<And>c. aya c = None"
    and "lookup ''LATENCY_SUM'' = map_get (LATENCY_SUM s1)"
    and "lookup ''LATENCY_COUNT'' = map_get (LATENCY_COUNT s1)"
  shows "\<exists>q2. irss_display_metrics aya lookup q1 = (Inr (), q2)
           \<and> irss_metrics q2 = Some (round_f64 (of_nat (unat (t2 - t1) div 1000)))"
proof -
  let ?hooks = "[Neutral (SysEnter pid (Some a)), Neutral (UdpRecvmsg pid (Some sk) probe),
           First (pid, Some r, mem) t1, Second (Some b, mem') t2]"
  have q: "q = p\<lparr>irss_ebpf := True\<rparr>"
    using assms(1) by (auto simp: irss_load_def split: prod.splits option.splits)
  obtain g where q1: "q1 = q\<lparr>irss_metrics := Some g\<rparr>"
    using assms(5) by (auto simp: irss_set_metrics_registry_def split: sum.splits)
  have inv: "irss_inv K s"
    using assms(6) by (simp add: assms(2) irss_inv_def irss_written_frame irss_maps_init_def)
  have tot: "irss_total s = 0" "irss_samples s = 0"
    by (simp_all add: assms(2) irss_total_def irss_samples_def irss_written_frame irss_maps_init_def)
  have "listen_port s = ucast (irss_listen_port p)" and "raw_dest s = from_le_bytes (irss_raw_dest p)"
    using irss_written_load [OF assms(1)] by (simp_all add: assms(2) listen_port_def raw_dest_def)
  then have L: "irss.latencies K s ?hooks = [t2 - t1]"
    using irss_datagram_latency [where probe = probe and sk = sk, OF inv _ _ assms(7) _ assms(8,9) _ assms(11),
        of pid t1 t2] assms(10,12)
    by (simp add: assms(2) irss_written_frame irss_maps_init_def saturating_sub_def)
  obtain r' q2 where d: "irss_display_metrics aya lookup q1 = (r', q2)" by force
  have "unat (t2 - t1) < 2 ^ 64" using unsigned_less [of "t2 - t1"] by simp
  then show ?thesis
    using irss_tick_reports [OF inv refl refl, of q1 ?hooks aya lookup r' q2] d tot L assms(3,4,13-16)
    by (simp add: q1 q)
qed

theorem irss_end_to_end_witness:
  "\<exists>q q1 q2 cs lookup. irss_load (\<lambda>_. None) irss_new = ((Inr (), q), cs)
     \<and> irss_set_metrics_registry (\<lambda>_. None) q = (Inr (), q1)
     \<and> irss_display_metrics (\<lambda>_. None) lookup q1 = (Inr (), q2) \<and> irss_metrics q2 = Some 42"
proof -
  let ?s1 = "\<lambda>cs. irss.watch ref_kernel (irss_written cs irss_maps_init)
     [Neutral (SysEnter 7 (Some irss_demo_enter)), Neutral (UdpRecvmsg 7 (Some 0x9000) (\<lambda>_. Inr 5020)),
      First (7, Some irss_demo_exit, irss_demo_mem) 1000, Second (Some irss_demo_enter, irss_demo_mem) 43000]"
  let ?lookup = "\<lambda>cs n k. if n = ''LATENCY_SUM'' then map_get (LATENCY_SUM (?s1 cs)) k
     else map_get (LATENCY_COUNT (?s1 cs)) k"
  obtain q cs where l: "irss_load (\<lambda>_. None) irss_new = ((Inr (), q), cs)"
    using run_steps_ok [of "\<lambda>_. None" "irss_config_steps irss_new @ irss_attach_steps"]
    by (auto simp: irss_load_def)
  obtain q1 where g: "irss_set_metrics_registry (\<lambda>_. None) q = (Inr (), q1)"
    by (simp add: irss_set_metrics_registry_def irss_metrics_new_def)
  have f: "round_f64 (of_nat 42) = of_nat 42" by (rule round_f64_nat) simp
  have dest: "read_tx_dest irss_demo_mem 0x1000 = Some (from_le_bytes RAW_DEST)"
    using irss_demo_dest by (simp add: raw_dest_def irss_maps_init_def)
  have "\<exists>q2. irss_display_metrics (\<lambda>_. None) (?lookup cs) q1 = (Inr (), q2)
      \<and> irss_metrics q2 = Some (round_f64 (of_nat (unat (43000 - 1000 :: u64) div 1000)))"
    by (rule irss_end_to_end [OF l refl _ _ g, where K = ref_kernel and probe = "\<lambda>_. Inr 5020" and sk = "0x9000"
          and r = irss_demo_exit and mem = irss_demo_mem and a = irss_demo_enter and key = "0xdeadbeef"
          and mem' = irss_demo_mem and b = irss_demo_enter and pid = 7])
      (simp_all add: irss_new_def LISTEN_PORT_def irss_demo_enter_def irss_demo_exit_def irss_demo_key
        dest KEY_SIZE_def)
  then show ?thesis using l g f by auto
qed

end
