(* ===== verification/Packet.thy ===== *)
theory Packet
  imports Prelude
begin

text \<open>
  Packet bytes as the XDP and TC programs see them. A packet is the byte sequence between
  \<open>ctx.data()\<close> and \<open>ctx.data_end()\<close>; a raw pointer read \<open>*((data + i) as *const u8)\<close> is \<open>deref\<close>,
  which is \<open>None\<close> outside the packet: reading there is what the verifier must rule out, so a
  parser that never yields an outer \<open>None\<close> is memory safe. A Rust \<open>Option\<close> result is the inner
  option.
\<close>

type_synonym packet = "u8 list"

definition deref :: "packet \<Rightarrow> nat \<Rightarrow> u8 option" where
  "deref p i = (if i < length p then Some (p ! i) else None)"

lemma deref_in_bounds [simp]: "i < length p \<Longrightarrow> deref p i = Some (p ! i)"
  by (simp add: deref_def)

lemma deref_eq_Some_iff: "deref p i = Some b \<longleftrightarrow> i < length p \<and> b = p ! i"
  by (auto simp: deref_def)

text \<open>The loop \<open>for i in 0..n { tag = (tag << 8) | *(base + i) }\<close>, byte by byte.\<close>

fun deref_be :: "packet \<Rightarrow> nat \<Rightarrow> nat \<Rightarrow> 'a::len word \<Rightarrow> 'a word option" where
  "deref_be p base 0 tag = Some tag"
| "deref_be p base (Suc n) tag =
     do {
       b \<leftarrow> deref p base;
       deref_be p (Suc base) n (push_byte tag b)
     }"

lemma deref_be_eq:
  assumes "base + n \<le> length p"
  shows "deref_be p base n tag = Some (foldl push_byte tag (take n (drop base p)))"
  using assms
proof (induction n arbitrary: base tag)
  case (Suc n)
  then have "take (Suc n) (drop base p) = p ! base # take n (drop (Suc base) p)"
    by (simp add: Cons_nth_drop_Suc [symmetric] take_Suc_conv_app_nth)
  then show ?case using Suc by simp
qed simp

end
