(* ===== verification/Iflat_Ebpf.thy ===== *)
theory Iflat_Ebpf
  imports Correlator Packet
begin

text \<open>
  The eBPF side of \<open>iflat\<close> (\<open>src/ebpf/iflat/src/main.rs\<close>, \<open>src/common/iflat/src/lib.rs\<close>): an XDP
  program on the ingress interface and a TC classifier on the egress interface that correlate
  the two sightings of a forwarded datagram by the first four payload bytes.

  Shown: the packet parser never reads outside the packet; it finds the payload tag of every
  well-formed UDP, TCP and ICMP echo datagram; the tag survives NAT; the two handlers are a tag
  correlator.
\<close>

unbundle bit_operations_syntax

definition KEY_SIZE :: nat where "KEY_SIZE = 4"

definition ACCUM_KEY :: u32 where "ACCUM_KEY = 0"
definition ETH_HLEN :: nat where "ETH_HLEN = 14"
definition ETH_P_IP :: u16 where "ETH_P_IP = 0x0800"
definition IPPROTO_UDP :: u8 where "IPPROTO_UDP = 17"
definition IPPROTO_TCP :: u8 where "IPPROTO_TCP = 6"
definition IPPROTO_ICMP :: u8 where "IPPROTO_ICMP = 1"
definition UDP_HLEN :: nat where "UDP_HLEN = 8"
definition ICMP_HLEN :: nat where "ICMP_HLEN = 8"
definition ICMP_ECHOREPLY :: u8 where "ICMP_ECHOREPLY = 0"
definition ICMP_ECHO :: u8 where "ICMP_ECHO = 8"
definition TC_ACT_OK :: i32 where "TC_ACT_OK = 0"
definition XDP_PASS :: u32 where "XDP_PASS = 2"

lemmas iflat_consts =
  KEY_SIZE_def ACCUM_KEY_def ETH_HLEN_def ETH_P_IP_def IPPROTO_UDP_def IPPROTO_TCP_def
  IPPROTO_ICMP_def UDP_HLEN_def ICMP_HLEN_def ICMP_ECHOREPLY_def ICMP_ECHO_def TC_ACT_OK_def
  XDP_PASS_def

text \<open>The program's maps: \<open>TIMESTAMP_MAP\<close> is an LRU map of 1024 entries, the accumulators hold
  one entry each.\<close>

record iflat_maps =
  TIMESTAMP_MAP :: "(u32, u64) bpf_map"
  LATENCY_SUM :: "(u32, u64) bpf_map"
  LATENCY_COUNT :: "(u32, u64) bpf_map"

definition iflat_maps_init :: iflat_maps where
  "iflat_maps_init = \<lparr>TIMESTAMP_MAP = [], LATENCY_SUM = [], LATENCY_COUNT = []\<rparr>"


section \<open>Packet parsing\<close>

definition read_u8 :: "packet \<Rightarrow> nat \<Rightarrow> u8 option option" where
  "read_u8 p off =
     (if off + 1 > length p then Some None
      else do { b \<leftarrow> deref p off; Some (Some b) })"

definition read_be_u16 :: "packet \<Rightarrow> nat \<Rightarrow> u16 option option" where
  "read_be_u16 p off =
     do {
       hi \<leftarrow> read_u8 p off;
       (case hi of
          None \<Rightarrow> Some None
        | Some h \<Rightarrow> do {
            lo \<leftarrow> read_u8 p (off + 1);
            (case lo of None \<Rightarrow> Some None | Some l \<Rightarrow> Some (Some (from_be_bytes [h, l])))
          })
     }"

text \<open>The \<open>match protocol\<close> of \<open>parse_payload_tag\<close>: the length of the L4 header.\<close>

definition l4_header_len :: "packet \<Rightarrow> nat \<Rightarrow> u8 \<Rightarrow> nat option option" where
  "l4_header_len p l4 protocol =
     (if protocol = IPPROTO_UDP then Some (Some UDP_HLEN)
      else if protocol = IPPROTO_TCP then
        (if l4 + 20 > length p then Some None
         else do {
           data_offset \<leftarrow> deref p (l4 + 12);
           let hlen = unat (drop_bit 4 data_offset) * 4;
           if hlen < 20 then Some None else Some (Some hlen)
         })
      else if protocol = IPPROTO_ICMP then
        (if l4 + ICMP_HLEN > length p then Some None
         else do {
           icmp_type \<leftarrow> deref p l4;
           if icmp_type \<noteq> ICMP_ECHO \<and> icmp_type \<noteq> ICMP_ECHOREPLY then Some None
           else Some (Some ICMP_HLEN)
         })
      else Some None)"

definition parse_payload_tag :: "packet \<Rightarrow> nat \<Rightarrow> u32 option option" where
  "parse_payload_tag p l3 =
     (if l3 + 20 > length p then Some None
      else do {
        version_ihl \<leftarrow> deref p l3;
        if drop_bit 4 version_ihl \<noteq> 4 then Some None
        else do {
          let ihl = unat (version_ihl AND 0x0f) * 4;
          if ihl < 20 then Some None
          else do {
            protocol \<leftarrow> deref p (l3 + 9);
            let l4 = l3 + ihl;
            hlen \<leftarrow> l4_header_len p l4 protocol;
            (case hlen of
               None \<Rightarrow> Some None
             | Some l4_hlen \<Rightarrow>
                 (let payload_off = l4 + l4_hlen in
                  if payload_off + KEY_SIZE > length p then Some None
                  else do {
                    tag \<leftarrow> deref_be p payload_off KEY_SIZE 0;
                    Some (Some tag)
                  }))
          }
        }
      })"


section \<open>Handlers\<close>

definition accumulate_latency :: "kernel \<Rightarrow> u64 \<Rightarrow> iflat_maps \<Rightarrow> iflat_maps" where
  "accumulate_latency K latency s =
     (let sum = unwrap_or (map_get (LATENCY_SUM s) ACCUM_KEY) 0;
          count = unwrap_or (map_get (LATENCY_COUNT s) ACCUM_KEY) 0
      in s\<lparr>LATENCY_SUM := hash_put K 1 (LATENCY_SUM s) ACCUM_KEY (sum + latency),
           LATENCY_COUNT := hash_put K 1 (LATENCY_COUNT s) ACCUM_KEY (count + 1)\<rparr>)"

text \<open>
  \<open>xdp_rx_handler\<close> and \<open>tc_tx_handler\<close> take the packet and the value \<open>bpf_ktime_get_ns()\<close> would
  return; the outer \<open>None\<close> is an out-of-bounds read.
\<close>

definition xdp_rx_handler :: "kernel \<Rightarrow> packet \<Rightarrow> u64 \<Rightarrow> iflat_maps \<Rightarrow> (u32 \<times> iflat_maps) option" where
  "xdp_rx_handler K p now s =
     do {
       eth \<leftarrow> read_be_u16 p 12;
       (case eth of
          None \<Rightarrow> Some (XDP_PASS, s)
        | Some eth_proto \<Rightarrow>
            if eth_proto \<noteq> ETH_P_IP then Some (XDP_PASS, s)
            else do {
              t \<leftarrow> parse_payload_tag p ETH_HLEN;
              (case t of
                 None \<Rightarrow> Some (XDP_PASS, s)
               | Some tag \<Rightarrow>
                   Some (XDP_PASS, s\<lparr>TIMESTAMP_MAP := lru_put K 1024 (TIMESTAMP_MAP s) tag now\<rparr>))
            })
     }"

definition tc_tx_handler :: "kernel \<Rightarrow> packet \<Rightarrow> u64 \<Rightarrow> iflat_maps \<Rightarrow> (i32 \<times> iflat_maps) option" where
  "tc_tx_handler K p now s =
     do {
       t \<leftarrow> parse_payload_tag p 0;
       (case t of
          None \<Rightarrow> Some (TC_ACT_OK, s)
        | Some tag \<Rightarrow>
            (case map_get (TIMESTAMP_MAP s) tag of
               None \<Rightarrow> Some (TC_ACT_OK, s)
             | Some rx_timestamp \<Rightarrow>
                 (let s' = s\<lparr>TIMESTAMP_MAP := map_remove (TIMESTAMP_MAP s) tag\<rparr>;
                      latency = saturating_sub now rx_timestamp
                  in Some (TC_ACT_OK, accumulate_latency K latency s'))))
     }"


section \<open>The parser is memory safe\<close>

lemma read_u8_safe: "read_u8 p off = Some (if off < length p then Some (p ! off) else None)"
  by (simp add: read_u8_def)

lemma read_be_u16_safe:
  "read_be_u16 p off =
     Some (if off + 1 < length p then Some (from_be_bytes [p ! off, p ! (off + 1)]) else None)"
  by (simp add: read_be_u16_def read_u8_safe)

lemma l4_header_len_safe: "l4_header_len p l4 protocol \<noteq> None"
  by (auto simp: l4_header_len_def Let_def iflat_consts)

lemma deref_be_tag:
  "off + KEY_SIZE \<le> length p \<Longrightarrow>
     deref_be p off KEY_SIZE 0 = Some (from_be_bytes (take KEY_SIZE (drop off p)))"
  by (simp add: deref_be_eq from_be_bytes_def)

lemma parse_payload_tag_eq:
  "parse_payload_tag p l3 =
     Some (let ihl = unat (p ! l3 AND 0x0f) * 4 in
           if l3 + 20 \<le> length p \<and> drop_bit 4 (p ! l3) = 4 \<and> 20 \<le> ihl
           then do {
             n \<leftarrow> the (l4_header_len p (l3 + ihl) (p ! (l3 + 9)));
             if l3 + ihl + n + KEY_SIZE \<le> length p
             then Some (from_be_bytes (take KEY_SIZE (drop (l3 + ihl + n) p))) else None
           }
           else None)"
proof (cases "l3 + 20 \<le> length p")
  case True
  obtain r where "l4_header_len p (l3 + unat (p ! l3 AND 15) * 4) (p ! (l3 + 9)) = Some r"
    using l4_header_len_safe by blast
  then show ?thesis
    using True
    by (auto simp: parse_payload_tag_def Let_def deref_be_tag not_less split: option.splits)
qed (simp add: parse_payload_tag_def Let_def)

lemma parse_payload_tag_safe: "parse_payload_tag p l3 \<noteq> None"
  by (simp add: parse_payload_tag_eq)

lemma xdp_rx_handler_safe: "xdp_rx_handler K p now s \<noteq> None"
  using parse_payload_tag_safe [of p ETH_HLEN]
  by (auto simp: xdp_rx_handler_def read_be_u16_safe split: option.splits)

lemma tc_tx_handler_safe: "tc_tx_handler K p now s \<noteq> None"
  using parse_payload_tag_safe [of p 0]
  by (auto simp: tc_tx_handler_def Let_def split: option.splits)


section \<open>What the parser accepts\<close>

text \<open>
  The datagrams the program is about, described without the parser: an IPv4 header whose length
  field is right, followed by a UDP, TCP or ICMP echo header, followed by the payload.
\<close>

definition ipv4_header :: "u8 list \<Rightarrow> bool" where
  "ipv4_header h \<longleftrightarrow>
     20 \<le> length h \<and> drop_bit 4 (h ! 0) = 4 \<and> length h = unat (h ! 0 AND 0x0f) * 4"

definition l4_header :: "u8 \<Rightarrow> u8 list \<Rightarrow> bool" where
  "l4_header protocol h \<longleftrightarrow>
     (protocol = IPPROTO_UDP \<and> length h = UDP_HLEN)
   \<or> (protocol = IPPROTO_TCP \<and> 20 \<le> length h \<and> length h = unat (drop_bit 4 (h ! 12)) * 4)
   \<or> (protocol = IPPROTO_ICMP \<and> length h = ICMP_HLEN \<and> h ! 0 \<in> {ICMP_ECHO, ICMP_ECHOREPLY})"

definition datagram :: "u8 list \<Rightarrow> u8 list \<Rightarrow> u8 list \<Rightarrow> packet" where
  "datagram ip l4 payload = ip @ l4 @ payload"

definition well_formed_datagram :: "u8 list \<Rightarrow> u8 list \<Rightarrow> u8 list \<Rightarrow> bool" where
  "well_formed_datagram ip l4 payload \<longleftrightarrow>
     ipv4_header ip \<and> l4_header (ip ! 9) l4 \<and> KEY_SIZE \<le> length payload"

text \<open>The parser only looks at offsets relative to the IP header.\<close>

lemma deref_append_shift [simp]: "deref (e @ p) (length e + i) = deref p i"
  by (simp add: deref_def nth_append)

lemma l4_header_len_shift:
  "l4_header_len (e @ p) (length e + i) protocol = l4_header_len p i protocol"
  by (simp add: l4_header_len_def add.assoc)

lemma parse_payload_tag_shift: "parse_payload_tag (e @ p) (length e) = parse_payload_tag p 0"
  using nth_append_length_plus [of e p 0] nth_append_length_plus [of e p 9]
  by (simp add: parse_payload_tag_eq Let_def l4_header_len_shift add.assoc cong: if_cong)

lemma l4_header_len_datagram:
  assumes "l4_header protocol l4"
  shows "l4_header_len (ip @ l4 @ payload) (length ip) protocol = Some (Some (length l4))"
proof -
  have "l4_header_len (l4 @ payload) 0 protocol = Some (Some (length l4))"
    using assms by (auto simp: l4_header_len_def l4_header_def iflat_consts Let_def nth_append)
  then show ?thesis using l4_header_len_shift [of ip "l4 @ payload" 0] by simp
qed

lemma parse_payload_tag_datagram:
  assumes "well_formed_datagram ip l4 payload"
  shows "parse_payload_tag (datagram ip l4 payload) 0 = Some (Some (from_be_bytes (take KEY_SIZE payload)))"
proof -
  have ip: "20 \<le> length ip" "drop_bit 4 (ip ! 0) = 4" "unat (ip ! 0 AND 0x0f) * 4 = length ip"
    and l4: "l4_header (ip ! 9) l4" and pay: "KEY_SIZE \<le> length payload"
    using assms by (simp_all add: well_formed_datagram_def ipv4_header_def)
  let ?p = "ip @ l4 @ payload"
  have "ip \<noteq> []" using ip(1) by auto
  then have "?p ! 0 = ip ! 0" and "?p ! 9 = ip ! 9" and "20 \<le> length ?p"
    using ip(1) by (simp_all add: nth_append)
  then show ?thesis
    using ip pay l4_header_len_datagram [OF l4, of ip payload]
    by (simp add: parse_payload_tag_eq datagram_def Let_def)
qed

text \<open>Conversely, a packet yields a tag only if it is such a datagram.\<close>

lemma l4_header_len_Some:
  assumes "l4_header_len p l4 protocol = Some (Some n)" and "l4 + n \<le> length p"
  shows "l4_header protocol (take n (drop l4 p))"
  using assms
  by (auto simp: l4_header_len_def l4_header_def iflat_consts Let_def deref_eq_Some_iff
      split: if_splits Option.bind_splits)

lemma parse_payload_tag_Some:
  assumes "parse_payload_tag p 0 = Some (Some tag)"
  shows "\<exists>ip l4 payload. p = datagram ip l4 payload \<and> well_formed_datagram ip l4 payload
           \<and> tag = from_be_bytes (take KEY_SIZE payload)"
proof -
  let ?ihl = "unat (p ! 0 AND 0x0f) * 4"
  have len: "20 \<le> length p" and ver: "drop_bit 4 (p ! 0) = 4" and ihl: "20 \<le> ?ihl"
    using assms by (auto simp: parse_payload_tag_eq Let_def split: if_splits)
  obtain n where "the (l4_header_len p ?ihl (p ! 9)) = Some n"
    and fits: "?ihl + n + KEY_SIZE \<le> length p"
    and tag: "tag = from_be_bytes (take KEY_SIZE (drop (?ihl + n) p))"
    using assms
    by (auto simp: parse_payload_tag_eq Let_def split: if_splits Option.bind_splits)
  then have n: "l4_header_len p ?ihl (p ! 9) = Some (Some n)"
    using l4_header_len_safe [of p ?ihl "p ! 9"] by auto
  let ?ip = "take ?ihl p" and ?l4 = "take n (drop ?ihl p)" and ?pay = "drop (?ihl + n) p"
  have "p = datagram ?ip ?l4 ?pay"
    by (simp add: datagram_def add.commute flip: drop_drop)
  moreover have "well_formed_datagram ?ip ?l4 ?pay"
    using len ver ihl fits l4_header_len_Some [OF n]
    by (simp add: well_formed_datagram_def ipv4_header_def)
  ultimately show ?thesis using tag by blast
qed


section \<open>The handlers are a tag correlator\<close>

definition iflat_rx_tag :: "packet \<Rightarrow> u32 option" where
  "iflat_rx_tag p =
     (if read_be_u16 p 12 = Some (Some ETH_P_IP) then the (parse_payload_tag p ETH_HLEN) else None)"

definition iflat_tx_tag :: "packet \<Rightarrow> u32 option" where
  "iflat_tx_tag p = the (parse_payload_tag p 0)"

definition iflat_rx :: "kernel \<Rightarrow> iflat_maps \<Rightarrow> packet \<Rightarrow> u64 \<Rightarrow> iflat_maps" where
  "iflat_rx K s p t = snd (the (xdp_rx_handler K p t s))"

definition iflat_tx :: "kernel \<Rightarrow> iflat_maps \<Rightarrow> packet \<Rightarrow> u64 \<Rightarrow> iflat_maps" where
  "iflat_tx K s p t = snd (the (tc_tx_handler K p t s))"

definition iflat_total :: "iflat_maps \<Rightarrow> u64" where
  "iflat_total s = unwrap_or (map_get (LATENCY_SUM s) ACCUM_KEY) 0"

definition iflat_samples :: "iflat_maps \<Rightarrow> u64" where
  "iflat_samples s = unwrap_or (map_get (LATENCY_COUNT s) ACCUM_KEY) 0"

definition iflat_wf :: "iflat_maps \<Rightarrow> bool" where
  "iflat_wf s \<longleftrightarrow> map_wf 1024 (TIMESTAMP_MAP s) \<and> single_wf ACCUM_KEY (LATENCY_SUM s)
     \<and> single_wf ACCUM_KEY (LATENCY_COUNT s)"

definition iflat_inv :: "kernel \<Rightarrow> iflat_maps \<Rightarrow> bool" where
  "iflat_inv K s \<longleftrightarrow> hash_documented K \<and> lru_documented K \<and> iflat_wf s"

definition iflat_room :: "kernel \<Rightarrow> iflat_maps \<Rightarrow> packet \<Rightarrow> bool" where
  "iflat_room K s p \<longleftrightarrow> (\<forall>k. iflat_rx_tag p = Some k \<longrightarrow> lru_room K 1024 (TIMESTAMP_MAP s) k)"

lemma iflat_wf_init [simp]: "iflat_wf iflat_maps_init"
  by (simp add: iflat_wf_def iflat_maps_init_def)

lemma iflat_init [simp]:
  "iflat_total iflat_maps_init = 0"
  "iflat_samples iflat_maps_init = 0"
  "TIMESTAMP_MAP iflat_maps_init = []"
  "iflat_inv ref_kernel iflat_maps_init"
  by (simp_all add: iflat_total_def iflat_samples_def iflat_inv_def)
    (simp_all add: iflat_maps_init_def)

lemma iflat_rx_eq:
  "iflat_rx K s p t =
     (case iflat_rx_tag p of
        None \<Rightarrow> s
      | Some tag \<Rightarrow> s\<lparr>TIMESTAMP_MAP := lru_put K 1024 (TIMESTAMP_MAP s) tag t\<rparr>)"
  using parse_payload_tag_safe [of p ETH_HLEN]
  by (auto simp: iflat_rx_def iflat_rx_tag_def xdp_rx_handler_def read_be_u16_safe split: option.splits)

lemma iflat_tx_eq:
  "iflat_tx K s p t =
     (case Option.bind (iflat_tx_tag p) (map_get (TIMESTAMP_MAP s)) of
        None \<Rightarrow> s
      | Some t0 \<Rightarrow> accumulate_latency K (saturating_sub t t0)
           (s\<lparr>TIMESTAMP_MAP := map_remove (TIMESTAMP_MAP s) (the (iflat_tx_tag p))\<rparr>))"
  using parse_payload_tag_safe [of p 0]
  by (auto simp: iflat_tx_def iflat_tx_tag_def tc_tx_handler_def Let_def split: option.splits)

lemma accumulate_latency_simps [simp]:
  assumes "hash_documented K" and "single_wf ACCUM_KEY (LATENCY_SUM s)"
    and "single_wf ACCUM_KEY (LATENCY_COUNT s)"
  shows "accumulate_latency K l s =
     s\<lparr>LATENCY_SUM := [(ACCUM_KEY, iflat_total s + l)],
       LATENCY_COUNT := [(ACCUM_KEY, iflat_samples s + 1)]\<rparr>"
  using assms
  by (simp add: accumulate_latency_def Let_def iflat_total_def iflat_samples_def flip: One_nat_def)

interpretation iflat: tag_correlator "iflat_inv K" "iflat_rx K" "iflat_tx K" "\<lambda>s (x::unit). s"
  "\<lambda>s. iflat_rx_tag" "\<lambda>s. iflat_tx_tag" "\<lambda>s. map_get (TIMESTAMP_MAP s)"
  iflat_total iflat_samples "iflat_room K" for K
proof (unfold_locales, goal_cases)
  case (1 s p t)
  then show ?case
    by (auto simp: iflat_inv_def iflat_wf_def iflat_rx_eq split: option.splits)
next
  case (2 s q t)
  then show ?case
    by (auto simp: iflat_inv_def iflat_wf_def iflat_tx_eq split: option.splits)
next
  case (4 s p t)
  then show ?case by (simp add: iflat_rx_eq iflat_total_def iflat_samples_def split: option.splits)
next
  case (6 s p k t)
  then show ?case by (simp add: iflat_inv_def iflat_rx_eq map_get_lru_put_own)
next
  case (7 s p k j t)
  then show ?case by (simp add: iflat_inv_def iflat_rx_eq map_get_lru_put_other)
next
  case (8 s p k t)
  then show ?case by (simp add: iflat_room_def iflat_rx_eq map_get_lru_put_room)
qed (auto simp: iflat_inv_def iflat_wf_def iflat_rx_eq iflat_tx_eq iflat_total_def iflat_samples_def)


section \<open>Properties\<close>

text \<open>A UDP datagram before and after masquerading, for the witnesses.\<close>

definition demo_eth :: "u8 list" where
  "demo_eth = [2, 0, 0, 0, 0, 1, 2, 0, 0, 0, 0, 2, 8, 0]"

definition demo_ip :: "u8 list" where
  "demo_ip = [0x45, 0, 0, 32, 0, 1, 0, 0, 64, 17, 0x26, 0xca, 10, 0, 0, 2, 10, 9, 0, 1]"

definition demo_ip_nat :: "u8 list" where
  "demo_ip_nat = [0x45, 0, 0, 32, 0, 1, 0, 0, 63, 17, 0x31, 0xd0, 192, 168, 1, 9, 10, 9, 0, 1]"

definition demo_udp :: "u8 list" where
  "demo_udp = [0x30, 0x39, 0x13, 0x9c, 0, 12, 0xab, 0xcd]"

definition demo_udp_nat :: "u8 list" where
  "demo_udp_nat = [0xf0, 0x01, 0x13, 0x9c, 0, 12, 0x12, 0x34]"

definition demo_payload :: "u8 list" where
  "demo_payload = [0xde, 0xad, 0xbe, 0xef]"

lemmas demo_defs =
  demo_eth_def demo_ip_def demo_ip_nat_def demo_udp_def demo_udp_nat_def demo_payload_def

lemma demo_well_formed:
  "well_formed_datagram demo_ip demo_udp demo_payload"
  "well_formed_datagram demo_ip_nat demo_udp_nat demo_payload"
  "length demo_eth = ETH_HLEN"
  "read_be_u16 demo_eth 12 = Some (Some ETH_P_IP)"
  by (simp_all add: demo_defs well_formed_datagram_def ipv4_header_def l4_header_def iflat_consts
      read_be_u16_safe from_be_bytes_def push_byte_def)

lemma demo_tag: "from_be_bytes (take KEY_SIZE demo_payload) = (0xdeadbeef :: u32)"
  by (simp add: demo_defs iflat_consts from_be_bytes_def push_byte_def)

text \<open>
  C1. Memory safety of the XDP and TC programs: for every packet and every map state, every raw
  pointer read of \<open>parse_payload_tag\<close> and of both handlers stays inside the packet.
\<close>

theorem iflat_memory_safe:
  "parse_payload_tag p l3 \<noteq> None \<and> xdp_rx_handler K p now s \<noteq> None \<and> tc_tx_handler K p now s \<noteq> None"
  by (simp add: parse_payload_tag_safe xdp_rx_handler_safe tc_tx_handler_safe)

text \<open>
  C19. The parser returns a tag for exactly the IPv4 packets that carry a UDP, TCP or ICMP echo
  header followed by at least four payload bytes, and the tag is the big-endian value of the
  first four payload bytes.
\<close>

theorem iflat_tag_characterised:
  "parse_payload_tag p 0 = Some (Some tag) \<longleftrightarrow>
     (\<exists>ip l4 payload. p = datagram ip l4 payload \<and> well_formed_datagram ip l4 payload
        \<and> tag = from_be_bytes (take KEY_SIZE payload))"
  using parse_payload_tag_datagram parse_payload_tag_Some by auto

lemma iflat_frame_tag:
  assumes "length eth = ETH_HLEN" and "read_be_u16 eth 12 = Some (Some ETH_P_IP)"
    and "well_formed_datagram ip l4 payload"
  shows "iflat_rx_tag (eth @ datagram ip l4 payload) = Some (from_be_bytes (take KEY_SIZE payload))"
proof -
  have "read_be_u16 (eth @ datagram ip l4 payload) 12 = read_be_u16 eth 12"
    using assms(1) by (simp add: read_be_u16_safe nth_append iflat_consts)
  then show ?thesis
    using assms(2) parse_payload_tag_shift [of eth "datagram ip l4 payload"]
      parse_payload_tag_datagram [OF assms(3)]
    by (simp add: iflat_rx_tag_def flip: assms(1))
qed

text \<open>
  C20. The correlation key survives forwarding and NAT: the tag the XDP program derives from the
  Ethernet frame and the tag the TC program derives from the forwarded packet are the same
  number, whatever the rewritten IP and L4 headers contain.
\<close>

theorem iflat_nat_invariant:
  assumes "length eth = ETH_HLEN" and "read_be_u16 eth 12 = Some (Some ETH_P_IP)"
    and "well_formed_datagram ip l4 payload" and "well_formed_datagram ip' l4' payload"
  shows "iflat_rx_tag (eth @ datagram ip l4 payload) = Some (from_be_bytes (take KEY_SIZE payload))
    \<and> iflat_tx_tag (datagram ip' l4' payload) = iflat_rx_tag (eth @ datagram ip l4 payload)"
  using iflat_frame_tag [OF assms(1-3)] parse_payload_tag_datagram [OF assms(4)]
  by (simp_all add: iflat_tx_tag_def)

theorem iflat_nat_invariant_witness:
  "iflat_rx_tag (demo_eth @ datagram demo_ip demo_udp demo_payload) = Some 0xdeadbeef
   \<and> iflat_tx_tag (datagram demo_ip_nat demo_udp_nat demo_payload) = Some 0xdeadbeef"
  using iflat_nat_invariant [OF demo_well_formed(3,4,1,2)] by (simp add: demo_tag)

text \<open>
  C2. A forwarded datagram is measured: from a well-formed state in which the kernel evicts
  nothing to record it, a frame seen on the ingress interface at \<open>t1\<close> and, after NAT and after
  any other traffic that neither carries its tag nor causes an eviction, on the egress interface
  at \<open>t2\<close>, adds exactly \<open>t2 - t1\<close> to the sum, one to the count, and leaves no record behind.
\<close>

theorem iflat_forwarded_measured:
  assumes "iflat_inv K s"
    and "length eth = ETH_HLEN" and "read_be_u16 eth 12 = Some (Some ETH_P_IP)"
    and "well_formed_datagram ip l4 payload" and "well_formed_datagram ip' l4' payload"
    and "iflat_room K s (eth @ datagram ip l4 payload)"
    and "tag = from_be_bytes (take KEY_SIZE payload)"
    and "iflat.undisturbed K tag (iflat_rx K s (eth @ datagram ip l4 payload) t1) traffic"
    and "s1 = iflat.watch K (iflat_rx K s (eth @ datagram ip l4 payload) t1) traffic"
    and "s2 = iflat_tx K s1 (datagram ip' l4' payload) t2"
  shows "iflat_total s2 = iflat_total s1 + saturating_sub t2 t1
         \<and> iflat_samples s2 = iflat_samples s1 + 1
         \<and> map_get (TIMESTAMP_MAP s2) tag = None"
proof -
  have "iflat_rx_tag (eth @ datagram ip l4 payload) = Some tag"
    using iflat_frame_tag assms(2-4,7) by simp
  moreover have "iflat_tx_tag (datagram ip' l4' payload) = Some tag"
    using parse_payload_tag_datagram assms(5,7) by (simp add: iflat_tx_tag_def)
  ultimately show ?thesis
    using iflat.measured_once [OF assms(1) _ assms(6,8), of "datagram ip' l4' payload" t2]
      assms(9,10) by simp
qed

theorem iflat_forwarded_measured_witness:
  "let s2 = iflat_tx ref_kernel
       (iflat_rx ref_kernel iflat_maps_init (demo_eth @ datagram demo_ip demo_udp demo_payload) 1000)
       (datagram demo_ip_nat demo_udp_nat demo_payload) 43000
   in iflat_total s2 = 42000 \<and> iflat_samples s2 = 1"
proof -
  have inv: "iflat_inv ref_kernel iflat_maps_init" by simp
  have room: "iflat_room ref_kernel iflat_maps_init p" for p
    by (simp add: iflat_room_def lru_room_def ref_kernel_def keys_def)
  have s1: "iflat_total (iflat_rx ref_kernel iflat_maps_init p t) = 0
      \<and> iflat_samples (iflat_rx ref_kernel iflat_maps_init p t) = 0" for p t
    using iflat.first_totals [OF inv, of p t] by simp
  show ?thesis
    using iflat_forwarded_measured [OF inv demo_well_formed(3,4,1,2) room refl _ refl refl,
        of 1000 "[]" 43000] s1
    by (simp add: saturating_sub_def)
qed

text \<open>
  C21. The accumulators are sound under every interleaving of ingress and egress packets: the sum
  is the sum (modulo \<open>2 ^ 64\<close>) and the count the number of the latencies of the egress packets
  that found a record, and no record is matched twice.
\<close>

theorem iflat_accumulates_exactly:
  assumes "iflat_inv K s"
  shows "iflat_total (iflat.watch K s traffic) = iflat_total s + sum_list (iflat.latencies K s traffic)
    \<and> iflat_samples (iflat.watch K s traffic)
           = iflat_samples s + of_nat (length (iflat.latencies K s traffic))
    \<and> iflat.matches K tag s traffic
           \<le> iflat.records K tag s traffic + (if map_get (TIMESTAMP_MAP s) tag = None then 0 else 1)"
  using iflat.watch_totals [OF assms] iflat.matches_le_records [OF assms] by blast

text \<open>The witness: the demo datagram is seen once on each interface, then once more on egress.\<close>

definition demo_traffic :: "(packet, packet, unit) sighting list" where
  "demo_traffic =
     [First (demo_eth @ datagram demo_ip demo_udp demo_payload) 1000,
      Second (datagram demo_ip_nat demo_udp_nat demo_payload) 43000,
      Second (datagram demo_ip_nat demo_udp_nat demo_payload) 44000]"

lemma demo_tags:
  "iflat_rx_tag (demo_eth @ datagram demo_ip demo_udp demo_payload) = Some 0xdeadbeef"
  "iflat_tx_tag (datagram demo_ip_nat demo_udp_nat demo_payload) = Some 0xdeadbeef"
  using iflat_frame_tag [OF demo_well_formed(3,4,1)] parse_payload_tag_datagram [OF demo_well_formed(2)]
  by (simp_all add: iflat_tx_tag_def demo_tag)

lemma demo_latencies:
  "iflat.latencies ref_kernel iflat_maps_init demo_traffic = [42000]"
  "iflat.records ref_kernel 0xdeadbeef iflat_maps_init demo_traffic = 1"
  by (simp_all add: demo_traffic_def demo_tags iflat_rx_eq iflat_tx_eq iflat_maps_init_def ignoring_def
      lru_insert_def ref_kernel_def keys_def map_get_def map_remove_def saturating_sub_def
      accumulate_latency_def hash_insert_def)

theorem iflat_accumulates_exactly_witness:
  "iflat_total (iflat.watch ref_kernel iflat_maps_init demo_traffic) = 42000
   \<and> iflat_samples (iflat.watch ref_kernel iflat_maps_init demo_traffic) = 1
   \<and> iflat.matches ref_kernel 0xdeadbeef iflat_maps_init demo_traffic \<le> 1"
  using iflat_accumulates_exactly [of ref_kernel iflat_maps_init demo_traffic "0xdeadbeef"]
  by (simp add: demo_latencies)

end
