(* ===== verification/Iflat_Uprobe_Ebpf.thy ===== *)
theory Iflat_Uprobe_Ebpf
  imports Iflat_Ebpf User_Mem
begin

text \<open>
  The eBPF side of \<open>iflat_uprobe\<close> (\<open>src/ebpf/iflat_uprobe/src/main.rs\<close>,
  \<open>src/common/iflat_uprobe/src/lib.rs\<close>): two XDP programs and a uprobe that measure the two legs
  of a datagram's way to a userspace function. The program has its own copies of the packet
  helpers of \<open>iflat\<close>; the two parsers are shown to agree on everything but ICMP, so the facts
  about the parser of \<open>iflat\<close> carry over. Each leg is a tag correlator: the second sighting of the
  first leg is the first sighting of the second one.
\<close>

unbundle bit_operations_syntax

definition KEY_SIZE :: nat where "KEY_SIZE = 4"
definition MAX_ARGS :: nat where "MAX_ARGS = 6"
definition UPROBE_CONFIG_KEY :: u32 where "UPROBE_CONFIG_KEY = 0"
definition PAYLOAD_PTR_DIRECT :: u32 where "PAYLOAD_PTR_DIRECT = - 1"
definition ACCUM_KEY :: u32 where "ACCUM_KEY = 0"
definition ETH_HLEN :: nat where "ETH_HLEN = 14"
definition ETH_P_IP :: u16 where "ETH_P_IP = 0x0800"
definition IPPROTO_UDP :: u8 where "IPPROTO_UDP = 17"
definition IPPROTO_TCP :: u8 where "IPPROTO_TCP = 6"
definition UDP_HLEN :: nat where "UDP_HLEN = 8"

lemmas ifu_consts =
  KEY_SIZE_def MAX_ARGS_def UPROBE_CONFIG_KEY_def PAYLOAD_PTR_DIRECT_def ACCUM_KEY_def ETH_HLEN_def
  ETH_P_IP_def IPPROTO_UDP_def IPPROTO_TCP_def UDP_HLEN_def

record UprobeConfig =
  arg_index :: u32
  payload_ptr_offset :: u32
  tag_offset :: u32

record ifu_maps =
  TIMESTAMP1_MAP :: "(u32, u64) bpf_map"
  TIMESTAMP2_MAP :: "(u32, u64) bpf_map"
  LATENCY1_SUM :: "(u32, u64) bpf_map"
  LATENCY1_COUNT :: "(u32, u64) bpf_map"
  LATENCY2_SUM :: "(u32, u64) bpf_map"
  LATENCY2_COUNT :: "(u32, u64) bpf_map"
  UPROBE_CONFIG_MAP :: "(u32, UprobeConfig) bpf_map"

definition ifu_maps_init :: ifu_maps where
  "ifu_maps_init = \<lparr>TIMESTAMP1_MAP = [], TIMESTAMP2_MAP = [], LATENCY1_SUM = [], LATENCY1_COUNT = [],
     LATENCY2_SUM = [], LATENCY2_COUNT = [], UPROBE_CONFIG_MAP = []\<rparr>"


section \<open>Packet parsing\<close>

definition read_u8 :: "packet \<Rightarrow> nat \<Rightarrow> u8 option option" where
  "read_u8 p off =
     (if off + 1 > length p then Some None
      else do { b \<leftarrow> deref p off; Some (Some b) })"

definition read_be_u16 :: "packet \<Rightarrow> nat \<Rightarrow> u16 option option" where
  "read_be_u16 p off =
     do {
       hi \<leftarrow> read_u8 p off;
       (case hi of
          None \<Rightarrow> Some None
        | Some h \<Rightarrow> do {
            lo \<leftarrow> read_u8 p (off + 1);
            (case lo of None \<Rightarrow> Some None | Some l \<Rightarrow> Some (Some (from_be_bytes [h, l])))
          })
     }"

text \<open>The \<open>match protocol\<close> of \<open>parse_ipv4_tag\<close>.\<close>

definition l4_header_len :: "packet \<Rightarrow> nat \<Rightarrow> u8 \<Rightarrow> nat option option" where
  "l4_header_len p l4 protocol =
     (if protocol = IPPROTO_UDP then Some (Some UDP_HLEN)
      else if protocol = IPPROTO_TCP then
        (if l4 + 20 > length p then Some None
         else do {
           data_offset \<leftarrow> deref p (l4 + 12);
           let hlen = unat (drop_bit 4 data_offset) * 4;
           if hlen < 20 then Some None else Some (Some hlen)
         })
      else Some None)"

definition parse_ipv4_tag :: "packet \<Rightarrow> nat \<Rightarrow> u32 option option" where
  "parse_ipv4_tag p l3 =
     (if l3 + 20 > length p then Some None
      else do {
        version_ihl \<leftarrow> deref p l3;
        if drop_bit 4 version_ihl \<noteq> 4 then Some None
        else do {
          let ihl = unat (version_ihl AND 0x0f) * 4;
          if ihl < 20 then Some None
          else do {
            protocol \<leftarrow> deref p (l3 + 9);
            let l4 = l3 + ihl;
            hlen \<leftarrow> l4_header_len p l4 protocol;
            (case hlen of
               None \<Rightarrow> Some None
             | Some l4_hlen \<Rightarrow>
                 (let payload_off = l4 + l4_hlen in
                  if payload_off + KEY_SIZE > length p then Some None
                  else do {
                    tag \<leftarrow> deref_be p payload_off KEY_SIZE 0;
                    Some (Some tag)
                  }))
          }
        }
      })"

text \<open>The second operand of \<open>&&\<close> is read only when the EtherType matches.\<close>

definition parse_payload_tag :: "packet \<Rightarrow> u32 option option" where
  "parse_payload_tag p =
     do {
       eth_proto \<leftarrow> read_be_u16 p 12;
       ethernet \<leftarrow> (if eth_proto = Some ETH_P_IP
         then do {
           v \<leftarrow> read_u8 p ETH_HLEN;
           Some (case v of None \<Rightarrow> False | Some v \<Rightarrow> drop_bit 4 v = 4)
         }
         else Some False);
       if ethernet then parse_ipv4_tag p ETH_HLEN else parse_ipv4_tag p 0
     }"


section \<open>Handlers\<close>

definition accumulate_latency1 :: "kernel \<Rightarrow> u64 \<Rightarrow> ifu_maps \<Rightarrow> ifu_maps" where
  "accumulate_latency1 K latency s =
     (let sum = unwrap_or (map_get (LATENCY1_SUM s) ACCUM_KEY) 0;
          count = unwrap_or (map_get (LATENCY1_COUNT s) ACCUM_KEY) 0
      in s\<lparr>LATENCY1_SUM := hash_put K 1 (LATENCY1_SUM s) ACCUM_KEY (sum + latency),
           LATENCY1_COUNT := hash_put K 1 (LATENCY1_COUNT s) ACCUM_KEY (count + 1)\<rparr>)"

definition accumulate_latency2 :: "kernel \<Rightarrow> u64 \<Rightarrow> ifu_maps \<Rightarrow> ifu_maps" where
  "accumulate_latency2 K latency s =
     (let sum = unwrap_or (map_get (LATENCY2_SUM s) ACCUM_KEY) 0;
          count = unwrap_or (map_get (LATENCY2_COUNT s) ACCUM_KEY) 0
      in s\<lparr>LATENCY2_SUM := hash_put K 1 (LATENCY2_SUM s) ACCUM_KEY (sum + latency),
           LATENCY2_COUNT := hash_put K 1 (LATENCY2_COUNT s) ACCUM_KEY (count + 1)\<rparr>)"

definition xdp_rx1_handler :: "kernel \<Rightarrow> packet \<Rightarrow> u64 \<Rightarrow> ifu_maps \<Rightarrow> (u32 \<times> ifu_maps) option" where
  "xdp_rx1_handler K p now s =
     do {
       t \<leftarrow> parse_payload_tag p;
       (case t of
          None \<Rightarrow> Some (XDP_PASS, s)
        | Some tag \<Rightarrow>
            Some (XDP_PASS, s\<lparr>TIMESTAMP1_MAP := lru_put K 1024 (TIMESTAMP1_MAP s) tag now\<rparr>))
     }"

definition xdp_rx2_handler :: "kernel \<Rightarrow> packet \<Rightarrow> u64 \<Rightarrow> ifu_maps \<Rightarrow> (u32 \<times> ifu_maps) option" where
  "xdp_rx2_handler K p now s =
     do {
       t \<leftarrow> parse_payload_tag p;
       (case t of
          None \<Rightarrow> Some (XDP_PASS, s)
        | Some tag \<Rightarrow>
            (let s = (case map_get (TIMESTAMP1_MAP s) tag of
                        None \<Rightarrow> s
                      | Some ts1 \<Rightarrow>
                          (let s = s\<lparr>TIMESTAMP1_MAP := map_remove (TIMESTAMP1_MAP s) tag\<rparr>;
                               latency = saturating_sub now ts1
                           in accumulate_latency1 K latency s))
             in Some (XDP_PASS, s\<lparr>TIMESTAMP2_MAP := lru_put K 1024 (TIMESTAMP2_MAP s) tag now\<rparr>)))
     }"

text \<open>The loop that rebuilds the tag, one fallible byte read per round.\<close>

fun read_tag_bytes :: "user_mem \<Rightarrow> u64 \<Rightarrow> nat \<Rightarrow> u32 \<Rightarrow> u32 option" where
  "read_tag_bytes mem ptr 0 tag = Some tag"
| "read_tag_bytes mem ptr (Suc n) tag =
     (case mem ptr of
        None \<Rightarrow> None
      | Some byte \<Rightarrow> read_tag_bytes mem (ptr + 1) n (push_byte tag byte))"

text \<open>
  \<open>arg i\<close> is \<open>ctx.arg::<u64>(i)\<close>, the content of the i-th argument register. The first part of
  \<open>fn_call_handler\<close>, up to the tag, is \<open>fn_call_tag\<close>: \<open>None\<close> stands for its early returns.
\<close>

definition fn_call_payload :: "UprobeConfig \<Rightarrow> user_mem \<Rightarrow> u64 \<Rightarrow> u64 option" where
  "fn_call_payload config mem base =
     (if payload_ptr_offset config = PAYLOAD_PTR_DIRECT then Some base
      else do {
        bs \<leftarrow> read_bytes mem (base + ucast (payload_ptr_offset config)) 8;
        Some (from_le_bytes bs)
      })"

definition fn_call_tag :: "ifu_maps \<Rightarrow> (nat \<Rightarrow> u64 option) \<Rightarrow> user_mem \<Rightarrow> u32 option" where
  "fn_call_tag s arg mem =
     do {
       config \<leftarrow> map_get (UPROBE_CONFIG_MAP s) UPROBE_CONFIG_KEY;
       if arg_index config < 1 \<or> unat (arg_index config) > MAX_ARGS then None
       else do {
         let base = unwrap_or (arg (unat (arg_index config - 1))) 0;
         if base = 0 then None
         else do {
           payload \<leftarrow> fn_call_payload config mem base;
           if payload = 0 then None
           else read_tag_bytes mem (payload + ucast (tag_offset config)) KEY_SIZE 0
         }
       }
     }"

definition fn_call_handler ::
  "kernel \<Rightarrow> (nat \<Rightarrow> u64 option) \<Rightarrow> user_mem \<Rightarrow> u64 \<Rightarrow> ifu_maps \<Rightarrow> u32 \<times> ifu_maps" where
  "fn_call_handler K arg mem now s =
     (case fn_call_tag s arg mem of
        None \<Rightarrow> (0, s)
      | Some tag \<Rightarrow>
          (case map_get (TIMESTAMP2_MAP s) tag of
             None \<Rightarrow> (0, s)
           | Some ts2 \<Rightarrow>
               (let s = s\<lparr>TIMESTAMP2_MAP := map_remove (TIMESTAMP2_MAP s) tag\<rparr>;
                    latency = saturating_sub now ts2
                in (0, accumulate_latency2 K latency s))))"


section \<open>The parser agrees with the parser of \<open>iflat\<close> on UDP and TCP\<close>

lemma ifu_l4_header_len:
  "l4_header_len p l4 protocol =
     (if protocol = IPPROTO_ICMP then Some None else Iflat_Ebpf.l4_header_len p l4 protocol)"
  by (simp add: l4_header_len_def Iflat_Ebpf.l4_header_len_def ifu_consts iflat_consts)

lemma parse_ipv4_tag_eq:
  "parse_ipv4_tag p l3 =
     (if l3 + 9 < length p \<and> p ! (l3 + 9) = IPPROTO_ICMP then Some None
      else Iflat_Ebpf.parse_payload_tag p l3)"
  unfolding parse_ipv4_tag_def Iflat_Ebpf.parse_payload_tag_def KEY_SIZE_def Iflat_Ebpf.KEY_SIZE_def
  by (simp add: ifu_l4_header_len Let_def)

lemma parse_ipv4_tag_safe: "parse_ipv4_tag p l3 \<noteq> None"
  using parse_payload_tag_safe [of p l3] by (simp add: parse_ipv4_tag_eq)

lemma ifu_read_u8: "read_u8 p off = Iflat_Ebpf.read_u8 p off"
  by (simp add: read_u8_def Iflat_Ebpf.read_u8_def)

lemma ifu_read_be_u16: "read_be_u16 p off = Iflat_Ebpf.read_be_u16 p off"
  unfolding read_be_u16_def Iflat_Ebpf.read_be_u16_def ifu_read_u8 ..

definition looks_ethernet :: "packet \<Rightarrow> bool" where
  "looks_ethernet p \<longleftrightarrow>
     14 < length p \<and> from_be_bytes [p ! 12, p ! 13] = ETH_P_IP \<and> drop_bit 4 (p ! 14) = 4"

lemma ifu_parse_payload_tag_eq:
  "parse_payload_tag p = parse_ipv4_tag p (if looks_ethernet p then ETH_HLEN else 0)"
  by (simp add: parse_payload_tag_def ifu_read_u8 ifu_read_be_u16 read_u8_safe read_be_u16_safe
      looks_ethernet_def ETH_HLEN_def)

lemma ifu_parse_payload_tag_safe: "parse_payload_tag p \<noteq> None"
  unfolding ifu_parse_payload_tag_eq by (rule parse_ipv4_tag_safe)

lemma read_tag_bytes_eq:
  "read_tag_bytes mem ptr n tag = map_option (foldl push_byte tag) (read_bytes mem ptr n)"
  by (induction n arbitrary: ptr tag) (auto split: option.splits Option.bind_splits)


section \<open>Each leg is a tag correlator\<close>

definition ifu_tag :: "packet \<Rightarrow> u32 option" where
  "ifu_tag p = the (parse_payload_tag p)"

type_synonym call_ctx = "(nat \<Rightarrow> u64 option) \<times> user_mem"

definition ifu_rx1 :: "kernel \<Rightarrow> ifu_maps \<Rightarrow> packet \<Rightarrow> u64 \<Rightarrow> ifu_maps" where
  "ifu_rx1 K s p t = snd (the (xdp_rx1_handler K p t s))"

definition ifu_rx2 :: "kernel \<Rightarrow> ifu_maps \<Rightarrow> packet \<Rightarrow> u64 \<Rightarrow> ifu_maps" where
  "ifu_rx2 K s p t = snd (the (xdp_rx2_handler K p t s))"

definition ifu_call :: "kernel \<Rightarrow> ifu_maps \<Rightarrow> call_ctx \<Rightarrow> u64 \<Rightarrow> ifu_maps" where
  "ifu_call K s q t = snd (fn_call_handler K (fst q) (snd q) t s)"

definition ifu_call_tag :: "ifu_maps \<Rightarrow> call_ctx \<Rightarrow> u32 option" where
  "ifu_call_tag s q = fn_call_tag s (fst q) (snd q)"

definition ifu_total1 :: "ifu_maps \<Rightarrow> u64" where
  "ifu_total1 s = unwrap_or (map_get (LATENCY1_SUM s) ACCUM_KEY) 0"

definition ifu_samples1 :: "ifu_maps \<Rightarrow> u64" where
  "ifu_samples1 s = unwrap_or (map_get (LATENCY1_COUNT s) ACCUM_KEY) 0"

definition ifu_total2 :: "ifu_maps \<Rightarrow> u64" where
  "ifu_total2 s = unwrap_or (map_get (LATENCY2_SUM s) ACCUM_KEY) 0"

definition ifu_samples2 :: "ifu_maps \<Rightarrow> u64" where
  "ifu_samples2 s = unwrap_or (map_get (LATENCY2_COUNT s) ACCUM_KEY) 0"

lemmas ifu_accum_defs = ifu_total1_def ifu_samples1_def ifu_total2_def ifu_samples2_def

definition ifu_inv :: "kernel \<Rightarrow> ifu_maps \<Rightarrow> bool" where
  "ifu_inv K s \<longleftrightarrow> hash_documented K \<and> lru_documented K
     \<and> map_wf 1024 (TIMESTAMP1_MAP s) \<and> map_wf 1024 (TIMESTAMP2_MAP s)
     \<and> single_wf ACCUM_KEY (LATENCY1_SUM s) \<and> single_wf ACCUM_KEY (LATENCY1_COUNT s)
     \<and> single_wf ACCUM_KEY (LATENCY2_SUM s) \<and> single_wf ACCUM_KEY (LATENCY2_COUNT s)"

definition ifu_room1 :: "kernel \<Rightarrow> ifu_maps \<Rightarrow> packet \<Rightarrow> bool" where
  "ifu_room1 K s p \<longleftrightarrow> (\<forall>k. ifu_tag p = Some k \<longrightarrow> lru_room K 1024 (TIMESTAMP1_MAP s) k)"

definition ifu_room2 :: "kernel \<Rightarrow> ifu_maps \<Rightarrow> packet \<Rightarrow> bool" where
  "ifu_room2 K s p \<longleftrightarrow> (\<forall>k. ifu_tag p = Some k \<longrightarrow> lru_room K 1024 (TIMESTAMP2_MAP s) k)"

lemma ifu_rx1_eq:
  "ifu_rx1 K s p t =
     (case ifu_tag p of
        None \<Rightarrow> s
      | Some tag \<Rightarrow> s\<lparr>TIMESTAMP1_MAP := lru_put K 1024 (TIMESTAMP1_MAP s) tag t\<rparr>)"
  using ifu_parse_payload_tag_safe [of p]
  by (auto simp: ifu_rx1_def ifu_tag_def xdp_rx1_handler_def split: option.splits)

lemma ifu_accumulate1 [simp]:
  assumes "ifu_inv K s"
  shows "accumulate_latency1 K l (s\<lparr>TIMESTAMP1_MAP := T\<rparr>) =
     s\<lparr>TIMESTAMP1_MAP := T, LATENCY1_SUM := [(ACCUM_KEY, ifu_total1 s + l)],
       LATENCY1_COUNT := [(ACCUM_KEY, ifu_samples1 s + 1)]\<rparr>"
  using assms
  by (simp add: accumulate_latency1_def Let_def ifu_inv_def ifu_accum_defs flip: One_nat_def)

lemma ifu_accumulate2 [simp]:
  assumes "ifu_inv K s"
  shows "accumulate_latency2 K l (s\<lparr>TIMESTAMP2_MAP := T\<rparr>) =
     s\<lparr>TIMESTAMP2_MAP := T, LATENCY2_SUM := [(ACCUM_KEY, ifu_total2 s + l)],
       LATENCY2_COUNT := [(ACCUM_KEY, ifu_samples2 s + 1)]\<rparr>"
  using assms
  by (simp add: accumulate_latency2_def Let_def ifu_inv_def ifu_accum_defs flip: One_nat_def)

lemma ifu_rx2_eq:
  assumes "ifu_inv K s"
  shows "ifu_rx2 K s p t =
     (case ifu_tag p of
        None \<Rightarrow> s
      | Some tag \<Rightarrow>
          (case map_get (TIMESTAMP1_MAP s) tag of
             None \<Rightarrow> s\<lparr>TIMESTAMP2_MAP := lru_put K 1024 (TIMESTAMP2_MAP s) tag t\<rparr>
           | Some t0 \<Rightarrow>
               s\<lparr>TIMESTAMP1_MAP := map_remove (TIMESTAMP1_MAP s) tag,
                 TIMESTAMP2_MAP := lru_put K 1024 (TIMESTAMP2_MAP s) tag t,
                 LATENCY1_SUM := [(ACCUM_KEY, ifu_total1 s + saturating_sub t t0)],
                 LATENCY1_COUNT := [(ACCUM_KEY, ifu_samples1 s + 1)]\<rparr>))"
  using ifu_parse_payload_tag_safe [of p] assms
  by (auto simp: ifu_rx2_def ifu_tag_def xdp_rx2_handler_def Let_def split: option.splits)

lemma ifu_call_eq:
  assumes "ifu_inv K s"
  shows "ifu_call K s q t =
     (case Option.bind (ifu_call_tag s q) (map_get (TIMESTAMP2_MAP s)) of
        None \<Rightarrow> s
      | Some t0 \<Rightarrow>
          s\<lparr>TIMESTAMP2_MAP := map_remove (TIMESTAMP2_MAP s) (the (ifu_call_tag s q)),
            LATENCY2_SUM := [(ACCUM_KEY, ifu_total2 s + saturating_sub t t0)],
            LATENCY2_COUNT := [(ACCUM_KEY, ifu_samples2 s + 1)]\<rparr>)"
  using assms
  by (auto simp: ifu_call_def ifu_call_tag_def fn_call_handler_def Let_def split: option.splits)

lemma ifu_inv_rx1: "ifu_inv K s \<Longrightarrow> ifu_inv K (ifu_rx1 K s p t)"
  by (auto simp: ifu_rx1_eq ifu_inv_def split: option.split)

lemma ifu_inv_rx2: "ifu_inv K s \<Longrightarrow> ifu_inv K (ifu_rx2 K s p t)"
  by (auto simp: ifu_rx2_eq split: option.split) (auto simp: ifu_inv_def)

lemma ifu_inv_call: "ifu_inv K s \<Longrightarrow> ifu_inv K (ifu_call K s q t)"
  by (auto simp: ifu_call_eq split: option.split) (auto simp: ifu_inv_def)

lemma ifu_invD: "ifu_inv K s \<Longrightarrow> lru_documented K"
  by (simp add: ifu_inv_def)

interpretation leg1: tag_correlator "ifu_inv K" "ifu_rx1 K" "ifu_rx2 K"
  "\<lambda>s x. ifu_call K s (fst x) (snd x)" "\<lambda>s. ifu_tag" "\<lambda>s. ifu_tag" "\<lambda>s. map_get (TIMESTAMP1_MAP s)"
  ifu_total1 ifu_samples1 "ifu_room1 K" for K
proof (unfold_locales, goal_cases)
  case (1 s p t)
  then show ?case by (rule ifu_inv_rx1)
next
  case (2 s q t)
  then show ?case by (rule ifu_inv_rx2)
next
  case (3 s x)
  then show ?case by (rule ifu_inv_call)
next
  case (4 s p t)
  then show ?case by (simp add: ifu_rx1_eq ifu_accum_defs split: option.split)
next
  case (6 s p k t)
  then show ?case by (simp add: ifu_rx1_eq map_get_lru_put_own ifu_invD)
next
  case (7 s p k j t)
  then show ?case by (simp add: ifu_rx1_eq map_get_lru_put_other ifu_invD)
next
  case (8 s p k t)
  then show ?case by (simp add: ifu_rx1_eq ifu_room1_def map_get_lru_put_room)
next
  case (12 s x)
  then show ?case by (simp add: ifu_call_eq ifu_accum_defs split: option.split)
qed (auto simp: ifu_rx1_eq ifu_rx2_eq ifu_accum_defs)

interpretation leg2: tag_correlator "ifu_inv K" "ifu_rx2 K" "ifu_call K"
  "\<lambda>s x. ifu_rx1 K s (fst x) (snd x)" "\<lambda>s. ifu_tag" ifu_call_tag "\<lambda>s. map_get (TIMESTAMP2_MAP s)"
  ifu_total2 ifu_samples2 "ifu_room2 K" for K
proof (unfold_locales, goal_cases)
  case (1 s p t)
  then show ?case by (rule ifu_inv_rx2)
next
  case (2 s q t)
  then show ?case by (rule ifu_inv_call)
next
  case (3 s x)
  then show ?case by (rule ifu_inv_rx1)
next
  case (4 s p t)
  then show ?case by (simp add: ifu_rx2_eq ifu_accum_defs split: option.split)
next
  case (6 s p k t)
  then show ?case by (simp add: ifu_rx2_eq map_get_lru_put_own ifu_invD split: option.split)
next
  case (7 s p k j t)
  then show ?case
    using map_get_lru_put_other [OF ifu_invD]
    by (cases "map_get (TIMESTAMP1_MAP s) k") (simp_all add: ifu_rx2_eq)
next
  case (8 s p k t)
  then show ?case by (simp add: ifu_rx2_eq ifu_room2_def map_get_lru_put_room split: option.split)
next
  case (12 s x)
  then show ?case by (simp add: ifu_rx1_eq ifu_accum_defs split: option.split)
qed (auto simp: ifu_call_eq ifu_rx2_eq ifu_accum_defs)


section \<open>The tags of Ethernet and TUN frames\<close>

lemma ifu_parse_datagram:
  assumes "well_formed_datagram ip l4 payload" and "ip ! 9 \<noteq> IPPROTO_ICMP"
  shows "parse_ipv4_tag (e @ datagram ip l4 payload) (length e)
           = Some (Some (from_be_bytes (take KEY_SIZE payload)))"
proof -
  have "9 < length ip" using assms(1) by (simp add: well_formed_datagram_def ipv4_header_def)
  then have "(e @ datagram ip l4 payload) ! (length e + 9) \<noteq> IPPROTO_ICMP"
    using assms(2) by (simp add: datagram_def nth_append)
  moreover have "KEY_SIZE = Iflat_Ebpf.KEY_SIZE" by (simp add: KEY_SIZE_def Iflat_Ebpf.KEY_SIZE_def)
  ultimately show ?thesis
    using parse_payload_tag_datagram [OF assms(1)]
    by (simp add: parse_ipv4_tag_eq parse_payload_tag_shift)
qed

lemma looks_ethernet_frame:
  assumes "length eth = ETH_HLEN" and "from_be_bytes [eth ! 12, eth ! 13] = ETH_P_IP"
    and "well_formed_datagram ip l4 payload"
  shows "looks_ethernet (eth @ datagram ip l4 payload)"
proof -
  have "ip \<noteq> []" and "drop_bit 4 (ip ! 0) = 4"
    using assms(3) by (auto simp: well_formed_datagram_def ipv4_header_def)
  then show ?thesis
    using assms(1,2) by (simp add: looks_ethernet_def datagram_def ETH_HLEN_def nth_append)
qed

lemma looks_ethernet_datagram:
  assumes "well_formed_datagram ip l4 payload"
  shows "looks_ethernet (datagram ip l4 payload) \<longleftrightarrow>
           from_be_bytes [ip ! 12, ip ! 13] = ETH_P_IP \<and> drop_bit 4 (ip ! 14) = 4"
  using assms
  by (auto simp: looks_ethernet_def datagram_def well_formed_datagram_def ipv4_header_def nth_append)


section \<open>Properties\<close>

text \<open>
  C24. Memory safety of the two XDP programs of \<open>iflat_uprobe\<close>: no packet makes them read outside
  the packet.
\<close>

theorem ifu_memory_safe:
  "parse_payload_tag p \<noteq> None \<and> xdp_rx1_handler K p now s \<noteq> None \<and> xdp_rx2_handler K p now s \<noteq> None"
  using ifu_parse_payload_tag_safe [of p]
  by (auto simp: xdp_rx1_handler_def xdp_rx2_handler_def Let_def split: option.split)

text \<open>
  C25. The same datagram has the same tag on an Ethernet interface and on a TUN interface: in an
  Ethernet frame always, in a TUN frame unless the source address is \<open>8.0.64.0\<close> to \<open>8.0.79.255\<close>,
  in which case the frame is parsed from offset 14 as if it had an Ethernet header.
\<close>

theorem ifu_frame_tags:
  assumes "well_formed_datagram ip l4 payload" and "ip ! 9 \<noteq> IPPROTO_ICMP"
    and "length eth = ETH_HLEN" and "from_be_bytes [eth ! 12, eth ! 13] = ETH_P_IP"
  shows "parse_payload_tag (eth @ datagram ip l4 payload)
           = Some (Some (from_be_bytes (take KEY_SIZE payload)))
       \<and> parse_payload_tag (datagram ip l4 payload)
           = (if ip ! 12 = 8 \<and> ip ! 13 = 0 \<and> drop_bit 4 (ip ! 14) = 4
              then parse_ipv4_tag (datagram ip l4 payload) ETH_HLEN
              else Some (Some (from_be_bytes (take KEY_SIZE payload))))"
proof -
  have ethertype: "from_be_bytes [a, b] = ETH_P_IP \<longleftrightarrow> a = 8 \<and> b = 0" for a b :: u8
  proof -
    have "from_be_bytes [a, b] = ETH_P_IP \<longleftrightarrow> from_le_bytes [b, a] = (from_le_bytes [0, 8] :: u16)"
      by (simp add: from_le_bytes_def) (simp add: from_be_bytes_def push_byte_def ETH_P_IP_def)
    also have "\<dots> \<longleftrightarrow> [b, a] = [0, 8]"
      using to_le_bytes_from_le_bytes [of "[b, a]", where 'a = 16]
        to_le_bytes_from_le_bytes [of "[0, 8]", where 'a = 16] by auto
    finally show ?thesis by auto
  qed
  have "parse_ipv4_tag (eth @ datagram ip l4 payload) ETH_HLEN
      = Some (Some (from_be_bytes (take KEY_SIZE payload)))"
    using ifu_parse_datagram [OF assms(1,2), of eth] assms(3) by simp
  then show ?thesis
    using looks_ethernet_frame [OF assms(3,4,1)] looks_ethernet_datagram [OF assms(1)]
      ifu_parse_datagram [OF assms(1,2), of "[]"]
    by (simp add: ifu_parse_payload_tag_eq ethertype)
qed

text \<open>A datagram from \<open>8.0.64.1\<close>, whose tag is lost on a TUN interface.\<close>

definition demo_ip_alias :: "u8 list" where
  "demo_ip_alias = [0x45, 0, 0, 32, 0, 1, 0, 0, 64, 17, 0, 0, 8, 0, 64, 1, 10, 9, 0, 1]"

lemma demo_alias_well_formed: "well_formed_datagram demo_ip_alias demo_udp demo_payload"
  by (simp add: demo_ip_alias_def demo_defs well_formed_datagram_def ipv4_header_def l4_header_def
      iflat_consts)

theorem ifu_frame_tags_witness:
  "parse_payload_tag (demo_eth @ datagram demo_ip demo_udp demo_payload) = Some (Some 0xdeadbeef)
   \<and> parse_payload_tag (datagram demo_ip demo_udp demo_payload) = Some (Some 0xdeadbeef)
   \<and> parse_payload_tag (demo_eth @ datagram demo_ip_alias demo_udp demo_payload) = Some (Some 0xdeadbeef)
   \<and> parse_payload_tag (datagram demo_ip_alias demo_udp demo_payload) = Some None"
proof -
  have eth: "length demo_eth = ETH_HLEN" "from_be_bytes [demo_eth ! 12, demo_eth ! 13] = ETH_P_IP"
    by (simp_all add: demo_defs ifu_consts from_be_bytes_def push_byte_def)
  have tag: "from_be_bytes (take KEY_SIZE demo_payload) = (0xdeadbeef :: u32)"
    using demo_tag by (simp add: KEY_SIZE_def Iflat_Ebpf.KEY_SIZE_def)
  have "demo_ip ! 9 \<noteq> IPPROTO_ICMP" and "demo_ip_alias ! 9 \<noteq> IPPROTO_ICMP"
    by (simp_all add: demo_defs demo_ip_alias_def iflat_consts)
  moreover have "parse_ipv4_tag (datagram demo_ip_alias demo_udp demo_payload) ETH_HLEN = Some None"
    by (simp add: parse_ipv4_tag_def ETH_HLEN_def datagram_def demo_ip_alias_def demo_defs)
  ultimately show ?thesis
    using ifu_frame_tags [OF demo_well_formed(1) _ eth] ifu_frame_tags [OF demo_alias_well_formed _ eth]
    by (simp add: tag) (simp add: demo_defs demo_ip_alias_def)
qed


text \<open>
  C5. One datagram, two legs: sighted on the first interface at \<open>t1\<close>, on the second at \<open>t2\<close> and
  in the probed function at \<open>t3\<close>, with any unrelated activity in between, it adds \<open>t2 - t1\<close> to
  the first pair of accumulators and \<open>t3 - t2\<close> to the second, one sample each.
\<close>

theorem ifu_journey_measured:
  assumes "ifu_inv K s" and "ifu_tag p1 = Some tag" and "ifu_tag p2 = Some tag"
    and "ifu_room1 K s p1" and "leg1.undisturbed K tag (ifu_rx1 K s p1 t1) es"
    and "s1 = leg1.watch K (ifu_rx1 K s p1 t1) es"
    and "ifu_room2 K s1 p2" and "s2 = ifu_rx2 K s1 p2 t2"
    and "leg2.undisturbed K tag s2 es'" and "s3 = leg2.watch K s2 es'"
    and "ifu_call_tag s3 q = Some tag" and "s4 = ifu_call K s3 q t3"
  shows "ifu_total1 s2 = ifu_total1 s1 + saturating_sub t2 t1 \<and> ifu_samples1 s2 = ifu_samples1 s1 + 1
       \<and> ifu_total2 s4 = ifu_total2 s3 + saturating_sub t3 t2 \<and> ifu_samples2 s4 = ifu_samples2 s3 + 1"
proof -
  have "ifu_inv K s1" unfolding assms(6) by (intro leg1.inv_watch ifu_inv_rx1 assms(1))
  from leg2.measured_once [OF this assms(3,7), of t2 es' q t3]
    leg1.measured_once [OF assms(1,2,4,5), of p2 t2]
  show ?thesis using assms(3,6,8-12) by simp
qed

text \<open>The uprobe configuration of the witness: the first argument points at the payload.\<close>

definition ifu_demo :: ifu_maps where
  "ifu_demo = ifu_maps_init\<lparr>UPROBE_CONFIG_MAP :=
     [(UPROBE_CONFIG_KEY, \<lparr>arg_index = 1, payload_ptr_offset = PAYLOAD_PTR_DIRECT, tag_offset = 0\<rparr>)]\<rparr>"

definition ifu_demo_call :: call_ctx where
  "ifu_demo_call = ((\<lambda>i. if i = 0 then Some 0x3000 else None), mem_of [(0x3000, demo_payload)])"

lemma ifu_demo_ok:
  "ifu_inv ref_kernel ifu_demo"
  "ifu_room1 ref_kernel ifu_demo p"
  "ifu_tag (demo_eth @ datagram demo_ip demo_udp demo_payload) = Some 0xdeadbeef"
  "ifu_tag (datagram demo_ip_nat demo_udp_nat demo_payload) = Some 0xdeadbeef"
proof -
  show "ifu_inv ref_kernel ifu_demo" by (simp add: ifu_demo_def ifu_maps_init_def ifu_inv_def)
  show "ifu_room1 ref_kernel ifu_demo p"
    by (simp add: ifu_room1_def ifu_demo_def ifu_maps_init_def)
  have eth: "length demo_eth = ETH_HLEN" "from_be_bytes [demo_eth ! 12, demo_eth ! 13] = ETH_P_IP"
    by (simp_all add: demo_defs ifu_consts from_be_bytes_def push_byte_def)
  have ip: "demo_ip ! 9 \<noteq> IPPROTO_ICMP" "demo_ip_nat ! 9 \<noteq> IPPROTO_ICMP"
    by (simp_all add: demo_defs iflat_consts)
  have tag: "from_be_bytes (take KEY_SIZE demo_payload) = (0xdeadbeef :: u32)"
    using demo_tag by (simp add: KEY_SIZE_def Iflat_Ebpf.KEY_SIZE_def)
  show "ifu_tag (demo_eth @ datagram demo_ip demo_udp demo_payload) = Some 0xdeadbeef"
    using ifu_parse_datagram [OF demo_well_formed(1) ip(1), of demo_eth]
      looks_ethernet_frame [OF eth demo_well_formed(1)]
    by (simp add: ifu_tag_def ifu_parse_payload_tag_eq tag eth(1))
  have "\<not> looks_ethernet (datagram demo_ip_nat demo_udp_nat demo_payload)"
    unfolding looks_ethernet_datagram [OF demo_well_formed(2)] by (simp add: demo_ip_nat_def)
  then show "ifu_tag (datagram demo_ip_nat demo_udp_nat demo_payload) = Some 0xdeadbeef"
    using ifu_parse_datagram [OF demo_well_formed(2) ip(2), of "[]"]
    by (simp add: ifu_tag_def ifu_parse_payload_tag_eq tag)
qed

lemma ifu_demo_call_tag:
  assumes "UPROBE_CONFIG_MAP s = UPROBE_CONFIG_MAP ifu_demo"
  shows "ifu_call_tag s ifu_demo_call = Some 0xdeadbeef"
  using assms
  by (simp add: ifu_call_tag_def fn_call_tag_def fn_call_payload_def ifu_demo_call_def ifu_demo_def
      ifu_consts read_tag_bytes_eq demo_payload_def push_byte_def del: mem_of.simps)

theorem ifu_journey_measured_witness:
  "let s1 = ifu_rx1 ref_kernel ifu_demo (demo_eth @ datagram demo_ip demo_udp demo_payload) 1000;
       s2 = ifu_rx2 ref_kernel s1 (datagram demo_ip_nat demo_udp_nat demo_payload) 1500;
       s3 = ifu_call ref_kernel s2 ifu_demo_call 1700
   in ifu_total1 s2 = ifu_total1 s1 + 500 \<and> ifu_total2 s3 = ifu_total2 s2 + 200"
proof -
  let ?s1 = "ifu_rx1 ref_kernel ifu_demo (demo_eth @ datagram demo_ip demo_udp demo_payload) 1000"
  let ?p = "datagram demo_ip_nat demo_udp_nat demo_payload"
  have T2: "TIMESTAMP2_MAP ?s1 = []" and "UPROBE_CONFIG_MAP ?s1 = UPROBE_CONFIG_MAP ifu_demo"
    by (simp_all add: ifu_rx1_eq ifu_demo_ok(3) ifu_demo_def ifu_maps_init_def)
  moreover have "ifu_inv ref_kernel ?s1" by (intro ifu_inv_rx1 ifu_demo_ok)
  ultimately have "UPROBE_CONFIG_MAP (ifu_rx2 ref_kernel ?s1 ?p 1500) = UPROBE_CONFIG_MAP ifu_demo"
    by (simp add: ifu_rx2_eq split: option.split)
  then have "ifu_call_tag (ifu_rx2 ref_kernel ?s1 ?p 1500) ifu_demo_call = Some 0xdeadbeef"
    by (rule ifu_demo_call_tag)
  moreover have "ifu_room2 ref_kernel ?s1 ?p"
    by (simp add: ifu_room2_def T2)
  ultimately show ?thesis
    using ifu_journey_measured [OF ifu_demo_ok(1,3,4,2), of 1000 "[]" ?s1 _ 1500 "[]" _ ifu_demo_call _ 1700]
    by (simp add: saturating_sub_def Let_def)
qed

text \<open>
  Both pairs of accumulators are sound under every interleaving of the three hooks: each is
  the sum and the number of the latencies of the sightings that found a record of that leg.
\<close>

lemma ifu_accumulates_exactly:
  assumes "ifu_inv K s"
  shows "ifu_total1 (leg1.watch K s es) = ifu_total1 s + sum_list (leg1.latencies K s es)
       \<and> ifu_samples1 (leg1.watch K s es) = ifu_samples1 s + of_nat (length (leg1.latencies K s es))
       \<and> ifu_total2 (leg2.watch K s es') = ifu_total2 s + sum_list (leg2.latencies K s es')
       \<and> ifu_samples2 (leg2.watch K s es') = ifu_samples2 s + of_nat (length (leg2.latencies K s es'))"
  using leg1.watch_totals [OF assms] leg2.watch_totals [OF assms] by blast

definition ifu_demo_traffic :: "(packet, packet, call_ctx \<times> u64) sighting list" where
  "ifu_demo_traffic =
     [First (demo_eth @ datagram demo_ip demo_udp demo_payload) 1000,
      Second (datagram demo_ip_nat demo_udp_nat demo_payload) 1500]"

lemma ifu_demo_latencies: "leg1.latencies ref_kernel ifu_demo ifu_demo_traffic = [500]"
  using leg1.first_exact [OF ifu_demo_ok(1,3,2), of 1000]
  by (simp add: ifu_demo_traffic_def ifu_demo_ok saturating_sub_def)

lemma ifu_accumulates_exactly_witness:
  "ifu_total1 (leg1.watch ref_kernel ifu_demo ifu_demo_traffic) = 500
   \<and> ifu_samples1 (leg1.watch ref_kernel ifu_demo ifu_demo_traffic) = 1"
proof -
  have "ifu_total1 ifu_demo = 0" and "ifu_samples1 ifu_demo = 0"
    by (simp_all add: ifu_demo_def ifu_maps_init_def ifu_accum_defs)
  then show ?thesis
    using ifu_accumulates_exactly [OF ifu_demo_ok(1), of ifu_demo_traffic "[]"]
    by (simp add: ifu_demo_latencies)
qed

end
