(* ===== verification/Iflat_User.thy ===== *)
theory Iflat_User
  imports Iflat_Ebpf Aya Averaging
begin

text \<open>
  The userspace side of \<open>iflat\<close> (\<open>src/bpfagent/src/programs/iflat/mod.rs\<close>). Without both interface
  settings the program disables itself: loading and display then do nothing.

  Shown: an implicitly enabled program never fails to load; the XDP program falls back to generic
  mode exactly when the default mode is refused; the reported average.
\<close>

definition NS_PER_US :: u64 where "NS_PER_US = 1000"
definition MAX_IFACE_LEN :: nat where "MAX_IFACE_LEN = 15"

record IflatProgram =
  iflat_name :: string
  iflat_ebpf :: bool
  iflat_metrics :: "f64 option"
  iflat_enabled :: bool
  rx_iface :: string
  tx_iface :: string
  iflat_last_sum :: u64
  iflat_last_count :: u64

definition iflat_new :: IflatProgram where
  "iflat_new = \<lparr>iflat_name = ''iflat'', iflat_ebpf = False, iflat_metrics = None, iflat_enabled = True,
     rx_iface = [], tx_iface = [], iflat_last_sum = 0, iflat_last_count = 0\<rparr>"

definition iflat_metrics_new :: "prom \<Rightarrow> f64 result" where
  "iflat_metrics_new prom =
     (case prom (CreateMetric ''iflat_avg_latency_us'') of
        Some e \<Rightarrow> Inl [''failed to create avg_latency_us gauge: '' @ e]
      | None \<Rightarrow>
          (case prom (RegisterMetric ''iflat_avg_latency_us'') of
             Some e \<Rightarrow> Inl [''failed to register avg_latency_us gauge: '' @ e]
           | None \<Rightarrow> Inr 0))"

definition quoted :: "string \<Rightarrow> string" where
  "quoted s = [CHR 0x27] @ s @ [CHR 0x27]"

definition parse_iface_setting :: "EbpfProgramConfig \<Rightarrow> string \<Rightarrow> string option result" where
  "parse_iface_setting config key =
     (case setting config key of
        None \<Rightarrow> Inr None
      | Some value \<Rightarrow>
          (case as_str value of
             None \<Rightarrow> Inl [''invalid iflat '' @ key @ '' setting '' @ quoted (debug_fmt value) @ '': not a string'']
           | Some name \<Rightarrow>
               if name = [] \<or> length name > MAX_IFACE_LEN
               then Inl [''invalid iflat '' @ key @ '' setting '' @ quoted name
                           @ '': not a valid interface name'']
               else Inr (Some name)))"

definition iflat_configure :: "EbpfProgramConfig \<Rightarrow> IflatProgram \<Rightarrow> unit result \<times> IflatProgram" where
  "iflat_configure config p =
     (case parse_iface_setting config ''rx_iface'' of
        Inl e \<Rightarrow> (Inl e, p)
      | Inr rx \<Rightarrow>
          (case parse_iface_setting config ''tx_iface'' of
             Inl e \<Rightarrow> (Inl e, p)
           | Inr tx \<Rightarrow>
               (case (rx, tx) of
                  (Some rx, Some tx) \<Rightarrow> (Inr (), p\<lparr>rx_iface := rx, tx_iface := tx\<rparr>)
                | _ \<Rightarrow> (Inr (), p\<lparr>iflat_enabled := False\<rparr>))))"

definition iflat_load_steps :: "IflatProgram \<Rightarrow> step list" where
  "iflat_load_steps p =
     load_object ''iflat''
     @ take_program ''iflat_xdp_rx'' @ attach_xdp ''iflat_xdp_rx'' (rx_iface p)
     @ [Try (QdiscAddClsact (tx_iface p))]
     @ take_program ''iflat_tc_tx''
     @ [Must (Attach ''iflat_tc_tx'' (TcEgress (tx_iface p)))
          (\<lambda>e. [''failed to attach TC egress on '' @ tx_iface p @ '': '' @ e])]"

definition iflat_load :: "aya \<Rightarrow> IflatProgram \<Rightarrow> (unit result \<times> IflatProgram) \<times> aya_call list" where
  "iflat_load aya p =
     (if \<not> iflat_enabled p then ((Inr (), p), [])
      else
        (case run_steps aya (iflat_load_steps p) of
           (cs, Some e) \<Rightarrow> ((Inl e, p), cs)
         | (cs, None) \<Rightarrow> ((Inr (), p\<lparr>iflat_ebpf := True\<rparr>), cs)))"

definition latency_deltas :: "u64 \<Rightarrow> u64 \<Rightarrow> u64 \<Rightarrow> u64 \<Rightarrow> (u64 \<times> u64) \<times> u64 \<times> u64" where
  "latency_deltas last_sum last_count cur_sum count =
     (let sum_delta = saturating_sub cur_sum last_sum; count_delta = saturating_sub count last_count
      in ((sum_delta, count_delta), (cur_sum, count)))"

definition avg_latency_us :: "u64 \<Rightarrow> u64 \<Rightarrow> u64 option" where
  "avg_latency_us sum_delta count_delta =
     do {
       avg \<leftarrow> checked_div sum_delta count_delta;
       checked_div avg NS_PER_US
     }"

definition iflat_set_metrics_registry :: "prom \<Rightarrow> IflatProgram \<Rightarrow> unit result \<times> IflatProgram" where
  "iflat_set_metrics_registry prom p =
     (case iflat_metrics_new prom of
        Inl e \<Rightarrow> (Inl e, p)
      | Inr g \<Rightarrow> (Inr (), p\<lparr>iflat_metrics := Some g\<rparr>))"

definition iflat_display_metrics :: "aya \<Rightarrow> lookup \<Rightarrow> IflatProgram \<Rightarrow> unit result \<times> IflatProgram" where
  "iflat_display_metrics aya lookup p =
     (if \<not> iflat_enabled p then (Inr (), p)
      else if iflat_metrics p = None then (Inl [''metrics not set for iflat program''], p)
      else if \<not> iflat_ebpf p then (Inl [''BPF program not loaded''], p)
      else
        (case open_accumulator_map aya ''LATENCY_SUM'' of
           Inl e \<Rightarrow> (Inl e, p)
         | Inr _ \<Rightarrow>
             (case open_accumulator_map aya ''LATENCY_COUNT'' of
                Inl e \<Rightarrow> (Inl e, p)
              | Inr _ \<Rightarrow>
                  (let sum = unwrap_or (lookup ''LATENCY_SUM'' ACCUM_KEY) 0;
                       count = unwrap_or (lookup ''LATENCY_COUNT'' ACCUM_KEY) 0;
                       ((sum_delta, count_delta), (last_sum, last_count)) =
                         latency_deltas (iflat_last_sum p) (iflat_last_count p) sum count;
                       p = p\<lparr>iflat_last_sum := last_sum, iflat_last_count := last_count\<rparr>
                   in (Inr (),
                       p\<lparr>iflat_metrics := Some
                         (case avg_latency_us sum_delta count_delta of
                            Some avg_us \<Rightarrow> u64_as_f64 avg_us
                          | None \<Rightarrow> 0)\<rparr>)))))"

interpretation iflat_avg: interval_average latency_deltas avg_latency_us
proof (unfold_locales, goal_cases)
  case (3 s ls lc c)
  then show ?case by (auto simp: latency_deltas_def saturating_sub_def)
next
  case (5 n d)
  then show ?case by (simp add: avg_latency_us_def checked_div_def NS_PER_US_def unat_div)
qed (simp_all add: latency_deltas_def avg_latency_us_def saturating_sub_def checked_div_def Let_def)


section \<open>Properties\<close>

text \<open>
  Without settings \<open>iflat\<close> is inert: configured from an entry without a settings table, loading
  succeeds whatever \<open>aya\<close> would answer, makes no call at all, and every later display succeeds and
  changes nothing, so an implicitly enabled \<open>iflat\<close> cannot fail the agent.
\<close>

lemma iflat_implicit_enable_inert:
  assumes "cfg_settings config = None" and "iflat_configure config p = (r, p')"
  shows "r = Inr () \<and> iflat_load aya p' = ((Inr (), p'), []) \<and> iflat_display_metrics aya lookup p' = (Inr (), p')"
  using assms by (auto simp: iflat_configure_def parse_iface_setting_def setting_def iflat_load_def
      iflat_display_metrics_def)

lemma iflat_implicit_enable_inert_witness:
  "\<exists>p'. iflat_configure \<lparr>cfg_name = ''iflat'', cfg_enabled = True, cfg_settings = None\<rparr> iflat_new = (Inr (), p')
     \<and> iflat_load (\<lambda>_. Some ''EPERM'') p' = ((Inr (), p'), [])"
proof -
  let ?c = "\<lparr>cfg_name = ''iflat'', cfg_enabled = True, cfg_settings = None\<rparr>"
  obtain r p' where "iflat_configure ?c iflat_new = (r, p')" by (cases "iflat_configure ?c iflat_new")
  with iflat_implicit_enable_inert [of ?c iflat_new r p' "\<lambda>_. Some ''EPERM''"] show ?thesis by simp
qed

text \<open>
  The ingress program is attached in generic mode if and only if the default mode was tried
  and refused, and a successful load leaves both programs attached.
\<close>

lemma iflat_xdp_fallback:
  assumes "iflat_enabled p" and "iflat_load aya p = ((r, p'), cs)"
  shows "(Attach ''iflat_xdp_rx'' (XdpSkb (rx_iface p)) \<in> set cs \<longleftrightarrow>
            Attach ''iflat_xdp_rx'' (XdpDefault (rx_iface p)) \<in> set cs
            \<and> aya (Attach ''iflat_xdp_rx'' (XdpDefault (rx_iface p))) \<noteq> None)
       \<and> (r = Inr () \<longrightarrow> iflat_ebpf p' \<and> Attach ''iflat_tc_tx'' (TcEgress (tx_iface p)) \<in> set cs
            \<and> (aya (Attach ''iflat_xdp_rx'' (XdpDefault (rx_iface p))) = None
               \<or> aya (Attach ''iflat_xdp_rx'' (XdpSkb (rx_iface p))) = None))"
  using assms
  by (simp add: iflat_load_def iflat_load_steps_def load_idioms Let_def split: option.splits prod.splits)
    (auto split: option.splits)


definition iflat_demo :: IflatProgram where
  "iflat_demo = iflat_new\<lparr>rx_iface := ''eno1'', tx_iface := ''tun0''\<rparr>"

definition no_native_xdp :: aya where
  "no_native_xdp c = (case c of Attach _ (XdpDefault _) \<Rightarrow> Some ''EOPNOTSUPP'' | _ \<Rightarrow> None)"

lemma iflat_xdp_fallback_witness:
  "\<exists>p' cs. iflat_load no_native_xdp iflat_demo = ((Inr (), p'), cs)
     \<and> Attach ''iflat_xdp_rx'' (XdpSkb ''eno1'') \<in> set cs \<and> iflat_ebpf p'"
proof -
  obtain p' cs where load: "iflat_load no_native_xdp iflat_demo = ((Inr (), p'), cs)"
    by (simp add: iflat_load_def iflat_load_steps_def load_idioms no_native_xdp_def iflat_demo_def
        iflat_new_def)
  then have "Attach ''iflat_xdp_rx'' (XdpDefault ''eno1'') \<in> set cs"
    by (auto simp: iflat_load_def iflat_load_steps_def load_idioms no_native_xdp_def iflat_demo_def
        iflat_new_def)
  then show ?thesis
    using iflat_xdp_fallback [OF _ load] load by (auto simp: iflat_demo_def iflat_new_def no_native_xdp_def)
qed

text \<open>
  The \<open>iflat\<close> gauge shows the average of the latencies matched by the traffic of the interval,
  in whole microseconds, and zero when nothing was matched.
\<close>

lemma iflat_reports_interval_average:
  assumes "iflat_inv K s" and "s' = iflat.watch K s traffic" and "L = iflat.latencies K s traffic"
    and "iflat_last_sum p = iflat_total s" and "iflat_last_count p = iflat_samples s"
    and "unat (iflat_total s) + sum_list (map unat L) < 2 ^ 64"
    and "unat (iflat_samples s) + length L < 2 ^ 64"
    and "iflat_enabled p" and "iflat_metrics p \<noteq> None" and "iflat_ebpf p" and "\<And>c. aya c = None"
    and "lookup ''LATENCY_SUM'' = map_get (LATENCY_SUM s')"
    and "lookup ''LATENCY_COUNT'' = map_get (LATENCY_COUNT s')"
    and "iflat_display_metrics aya lookup p = (r, p')"
  shows "r = Inr ()
       \<and> iflat_metrics p' = Some (if L = [] then 0
            else round_f64 (of_nat (sum_list (map unat L) div length L div 1000)))
       \<and> iflat_last_sum p' = iflat_total s' \<and> iflat_last_count p' = iflat_samples s'"
proof -
  have tot: "iflat_total s' = iflat_total s + sum_list L" "iflat_samples s' = iflat_samples s + of_nat (length L)"
    using iflat.watch_totals [OF assms(1)] by (simp_all add: assms(2,3))
  obtain sd cd where d: "latency_deltas (iflat_total s) (iflat_samples s) (iflat_total s') (iflat_samples s')
      = ((sd, cd), (iflat_total s', iflat_samples s'))"
    by (simp add: latency_deltas_def Let_def)
  have avg: "map_option unat (avg_latency_us sd cd) =
      (if L = [] then None else Some (sum_list (map unat L) div length L div 1000))"
    using iflat_avg.interval_reports [OF assms(6,7), of sd cd] d tot by simp
  have "iflat_display_metrics aya lookup p = (Inr (), p\<lparr>iflat_last_sum := iflat_total s',
      iflat_last_count := iflat_samples s', iflat_metrics := Some
        (case avg_latency_us sd cd of Some a \<Rightarrow> u64_as_f64 a | None \<Rightarrow> 0)\<rparr>)"
    using assms(4,5,8-13) d
    by (simp add: iflat_display_metrics_def open_accumulator_map_def iflat_total_def iflat_samples_def Let_def)
  then show ?thesis using assms(14) f64_of_average [OF avg] by auto
qed

lemma iflat_reports_interval_average_witness:
  "\<exists>p'. iflat_display_metrics (\<lambda>_. None)
       (\<lambda>n k. if n = ''LATENCY_SUM''
          then map_get (LATENCY_SUM (iflat.watch ref_kernel iflat_maps_init demo_traffic)) k
          else map_get (LATENCY_COUNT (iflat.watch ref_kernel iflat_maps_init demo_traffic)) k)
       (iflat_demo\<lparr>iflat_ebpf := True, iflat_metrics := Some 7\<rparr>) = (Inr (), p')
     \<and> iflat_metrics p' = Some 42"
proof -
  let ?s = "iflat.watch ref_kernel iflat_maps_init demo_traffic"
  let ?lookup = "\<lambda>n k. if n = ''LATENCY_SUM'' then map_get (LATENCY_SUM ?s) k else map_get (LATENCY_COUNT ?s) k"
  let ?p = "iflat_demo\<lparr>iflat_ebpf := True, iflat_metrics := Some 7\<rparr>"
  obtain r p' where d: "iflat_display_metrics (\<lambda>_. None) ?lookup ?p = (r, p')"
    by (cases "iflat_display_metrics (\<lambda>_. None) ?lookup ?p")
  have "round_f64 (of_nat 42) = of_nat 42" by (rule round_f64_nat) simp
  then show ?thesis
    using iflat_reports_interval_average [OF iflat_init(4) refl refl, of ?p demo_traffic
        "\<lambda>_. None" ?lookup r p', OF _ _ _ _ _ _ _ _ _ _ d] d
    by (simp add: demo_latencies iflat_demo_def iflat_new_def)
qed

end
