(* ===== verification/Counter.thy ===== *)
theory Counter
  imports Bpf_Map
begin

text \<open>
  The contract that the counting programs share (\<open>kfree_skb\<close> per drop reason, \<open>uprobe\<close> and
  \<open>my_program\<close> per process): an event counts one for its key when the key has a slot or a slot is
  free, and is lost without a trace otherwise. The locale \<open>event_counter\<close> states it over a
  program's handler; counting over whole runs is proved once.
\<close>

locale event_counter =
  fixes inv :: "'s \<Rightarrow> bool"
    and step :: "'s \<Rightarrow> 'e \<Rightarrow> 's"
    and key :: "'e \<Rightarrow> 'k option"
    and count :: "'s \<Rightarrow> 'k \<Rightarrow> u64"
    and slots :: "'s \<Rightarrow> 'k set"
    and cap :: nat
  assumes inv_step: "inv s \<Longrightarrow> inv (step s e)"
    and slots_finite: "inv s \<Longrightarrow> finite (slots s)"
    and ignored: "inv s \<Longrightarrow> key e = None \<Longrightarrow> step s e = s"
    and counted: "inv s \<Longrightarrow> key e = Some k \<Longrightarrow> k \<in> slots s \<or> card (slots s) < cap \<Longrightarrow>
          count (step s e) = (count s)(k := count s k + 1) \<and> slots (step s e) = insert k (slots s)"
    and lost: "inv s \<Longrightarrow> key e = Some k \<Longrightarrow> k \<notin> slots s \<Longrightarrow> cap \<le> card (slots s) \<Longrightarrow> step s e = s"
begin

definition run :: "'s \<Rightarrow> 'e list \<Rightarrow> 's" where
  "run = foldl step"

lemma run_simps [simp]:
  "run s [] = s"
  "run s (e # es) = run (step s e) es"
  by (simp_all add: run_def)

definition occurrences :: "'k \<Rightarrow> 'e list \<Rightarrow> nat" where
  "occurrences k es = length (filter (\<lambda>e. key e = Some k) es)"

definition keys_of :: "'e list \<Rightarrow> 'k set" where
  "keys_of es = {k. \<exists>e\<in>set es. key e = Some k}"

lemma keys_of_Cons: "keys_of (e # es) = set_option (key e) \<union> keys_of es"
  by (auto simp: keys_of_def)

lemma finite_keys_of [simp]: "finite (keys_of es)"
  by (induction es) (simp_all add: keys_of_Cons, simp add: keys_of_def)

lemma inv_run: "inv s \<Longrightarrow> inv (run s es)"
  by (induction es arbitrary: s) (auto intro: inv_step)

text \<open>With slots for all keys of the run, every event counts, under its own key only.\<close>

lemma run_counts:
  assumes "inv s" and "card (slots s \<union> keys_of es) \<le> cap"
  shows "count (run s es) k = count s k + of_nat (occurrences k es)"
  using assms
proof (induction es arbitrary: s)
  case (Cons e es)
  have fin: "finite (slots s \<union> keys_of (e # es))" using slots_finite [OF Cons.prems(1)] by simp
  show ?case
  proof (cases "key e")
    case None
    then show ?thesis
      using Cons ignored [OF Cons.prems(1) None] by (simp add: occurrences_def keys_of_Cons)
  next
    case (Some j)
    have "j \<in> slots s \<or> card (slots s) < cap"
    proof (cases "j \<in> slots s")
      case False
      then have "slots s \<subset> slots s \<union> keys_of (e # es)" using Some by (auto simp: keys_of_Cons)
      from psubset_card_mono [OF fin this] show ?thesis using Cons.prems(2) by simp
    qed simp
    note step = counted [OF Cons.prems(1) Some this]
    then have "slots (step s e) \<union> keys_of es = slots s \<union> keys_of (e # es)"
      using Some by (auto simp: keys_of_Cons)
    then show ?thesis
      using Cons.IH [OF inv_step [OF Cons.prems(1)], of e] Cons.prems(2) step Some
      by (simp add: occurrences_def add.assoc)
  qed
qed (simp add: occurrences_def)

text \<open>A key that has its slot keeps counting, however many other keys compete.\<close>

lemma run_counts_present:
  assumes "inv s" and "k \<in> slots s"
  shows "count (run s es) k = count s k + of_nat (occurrences k es) \<and> k \<in> slots (run s es)"
  using assms
proof (induction es arbitrary: s)
  case (Cons e es)
  have "count (step s e) k = count s k + (if key e = Some k then 1 else 0) \<and> k \<in> slots (step s e)"
  proof (cases "key e")
    case None
    then show ?thesis using Cons.prems ignored [OF Cons.prems(1) None] by simp
  next
    case (Some j)
    then show ?thesis
      using Cons.prems counted [OF Cons.prems(1) Some] lost [OF Cons.prems(1) Some]
      by (cases "j \<in> slots s \<or> card (slots s) < cap") auto
  qed
  then show ?case
    using Cons.IH [OF inv_step [OF Cons.prems(1)], of e]
    by (auto simp: occurrences_def add.assoc)
qed (simp add: occurrences_def)

text \<open>Once every slot is taken, the events of any further key leave no trace.\<close>

lemma run_full:
  assumes "inv s" and "cap \<le> card (slots s)" and "\<And>e. e \<in> set es \<Longrightarrow> \<forall>k\<in>slots s. key e \<noteq> Some k"
  shows "run s es = s"
  using assms(3)
proof (induction es)
  case (Cons e es)
  have "step s e = s"
    using Cons.prems [of e] ignored [OF assms(1), of e] lost [OF assms(1), of e] assms(2)
    by (cases "key e") auto
  then show ?case using Cons by simp
qed simp

end


section \<open>Counting in a BPF hash map\<close>

definition map_count :: "('k, u64) bpf_map \<Rightarrow> 'k \<Rightarrow> u64" where
  "map_count m k = unwrap_or (map_get m k) 0"

definition map_slots :: "('k, 'v) bpf_map \<Rightarrow> 'k set" where
  "map_slots m = dom (map_get m)"

lemma map_slots_keys: "map_slots m = set (keys m)"
  by (auto simp: map_slots_def dom_def map_get_def in_keys_iff)

lemma finite_map_slots [simp]: "finite (map_slots m)"
  by (simp add: map_slots_keys)

lemma card_map_slots: "map_wf n m \<Longrightarrow> card (map_slots m) = length m"
  by (simp add: map_wf_def map_slots_keys distinct_card) (simp add: keys_def)

lemma map_get_slot: "k \<in> map_slots m \<longleftrightarrow> map_get m k \<noteq> None"
  by (auto simp: map_slots_def)

text \<open>
  The body the counters have in common: look the key up, write the successor (or one), and give
  the error of a refused insert back.
\<close>

lemma increment_accepted:
  assumes "hash_documented K" and "map_wf n m" and "k \<in> map_slots m \<or> card (map_slots m) < n"
  shows "hash_insert K n m k v = Inr (AList.update k v m)"
proof -
  have "map_get m k \<noteq> None \<or> length m < n"
    using assms(3) card_map_slots [OF assms(2)] by (simp add: map_get_slot)
  then show ?thesis by (rule hash_insert_accepts [OF assms(1)])
qed

lemma map_slots_update: "map_slots (AList.update k v m) = insert k (map_slots m)"
  by (auto simp: map_slots_def map_get_def map_ops)

lemma map_count_update: "map_count (AList.update k v m) = (map_count m)(k := v)"
  by (auto simp: map_count_def map_get_def map_ops fun_eq_iff)

lemma increment_refused:
  assumes "hash_documented K" and "map_wf n m" and "k \<notin> map_slots m" and "n \<le> card (map_slots m)"
  shows "\<exists>e. hash_insert K n m k v = Inl e"
proof -
  have "map_get m k = None" and "n \<le> length m"
    using assms(3,4) card_map_slots [OF assms(2)] by (simp_all add: map_get_slot)
  then show ?thesis by (rule hash_insert_refuses [OF assms(1)])
qed

end
