(* ===== verification/Counting_Ebpf.thy ===== *)
theory Counting_Ebpf
  imports Counter
begin

text \<open>
  The counting eBPF programs: \<open>kfree_skb\<close> (\<open>src/ebpf/kfree_skb/src/main.rs\<close>), \<open>uprobe\<close>
  (\<open>src/ebpf/uprobe/src/main.rs\<close>, \<open>src/common/uprobe/src/lib.rs\<close>) and \<open>my_program\<close>
  (\<open>src/ebpf/my_program/src/main.rs\<close>). Each interprets the locale \<open>event_counter\<close> on its handler.

  A handler takes what the kernel gives it: the context pointer and the result of reading kernel
  memory, the thread id, the argument registers, the process name, the clock.
\<close>


section \<open>\<open>kfree_skb\<close>\<close>

text \<open>\<open>DROP_COUNTS\<close> has 128 entries and is the only state; \<open>Inl\<close> is \<open>Err\<close>. \<open>probe\<close> is
  \<open>bpf_probe_read_kernel::<u32>\<close>.\<close>

type_synonym drop_counts = "(u32, u64) bpf_map"

definition try_kfree_skb ::
  "kernel \<Rightarrow> u64 \<Rightarrow> (u64 \<Rightarrow> i64 + u32) \<Rightarrow> drop_counts \<Rightarrow> (u32 + u32) \<times> drop_counts" where
  "try_kfree_skb K ctx probe m =
     (case probe (ctx + 28) of
        Inl e \<Rightarrow> (Inl (ucast e), m)
      | Inr reason_raw \<Rightarrow>
          (case map_get m reason_raw of
             Some count \<Rightarrow>
               (let new_count = count + 1 in
                case hash_insert K 128 m reason_raw new_count of
                  Inl e \<Rightarrow> (Inl (ucast e), m)
                | Inr m \<Rightarrow> (Inr 0, m))
           | None \<Rightarrow>
               (case hash_insert K 128 m reason_raw 1 of
                  Inl e \<Rightarrow> (Inl (ucast e), m)
                | Inr m \<Rightarrow> (Inr 0, m))))"

definition kfree_skb ::
  "kernel \<Rightarrow> u64 \<Rightarrow> (u64 \<Rightarrow> i64 + u32) \<Rightarrow> drop_counts \<Rightarrow> u32 \<times> drop_counts" where
  "kfree_skb K ctx probe m =
     (case try_kfree_skb K ctx probe m of (Inr ret, m) \<Rightarrow> (ret, m) | (Inl ret, m) \<Rightarrow> (ret, m))"


section \<open>\<open>my_program\<close>\<close>

type_synonym Pid = u32
type_synonym EventCount = u64
type_synonym counters = "(Pid, EventCount) bpf_map"

definition try_my_handler :: "kernel \<Rightarrow> u64 \<Rightarrow> counters \<Rightarrow> (u32 + u32) \<times> counters" where
  "try_my_handler K pid_tgid m =
     (let pid = ucast (drop_bit 32 pid_tgid) in
      case map_get m pid of
        Some count \<Rightarrow>
          (case hash_insert K 1024 m pid (count + 1) of
             Inl e \<Rightarrow> (Inl (ucast e), m)
           | Inr m \<Rightarrow> (Inr 0, m))
      | None \<Rightarrow>
          (case hash_insert K 1024 m pid 1 of
             Inl e \<Rightarrow> (Inl (ucast e), m)
           | Inr m \<Rightarrow> (Inr 0, m)))"

definition my_handler :: "kernel \<Rightarrow> u64 \<Rightarrow> counters \<Rightarrow> u32 \<times> counters" where
  "my_handler K pid_tgid m =
     (case try_my_handler K pid_tgid m of (Inr ret, m) \<Rightarrow> (ret, m) | (Inl ret, m) \<Rightarrow> (ret, m))"


section \<open>\<open>uprobe\<close>\<close>

definition MAX_ARGS :: nat where "MAX_ARGS = 6"
definition ARG_STR_SIZE :: nat where "ARG_STR_SIZE = 64"
definition STRING_ARG_KEY :: u32 where "STRING_ARG_KEY = 0"

record CallRecord =
  rec_count :: u64
  last_ts :: u64
  args :: "u64 list"
  comm :: "u8 list"
  arg_str :: "u8 list"

definition zeroed :: CallRecord where
  "zeroed = \<lparr>rec_count = 0, last_ts = 0, args = replicate MAX_ARGS 0, comm = replicate 16 0,
     arg_str = replicate ARG_STR_SIZE 0\<rparr>"

record uprobe_maps =
  CALLS :: "(u32, CallRecord) bpf_map"
  STRING_ARG_MAP :: "(u32, u32) bpf_map"

text \<open>What one call of the probed function gives the handler; \<open>call_str src buf\<close> is the buffer
  after \<open>bpf_probe_read_user_str_bytes(src, &mut buf)\<close>, whether it succeeded or not.\<close>

record call_event =
  call_pid_tgid :: u64
  call_now :: u64
  call_comm :: "u8 list option"
  call_arg :: "nat \<Rightarrow> u64 option"
  call_str :: "u64 \<Rightarrow> u8 list \<Rightarrow> u8 list"

definition snapshot :: "u32 \<Rightarrow> call_event \<Rightarrow> CallRecord \<Rightarrow> CallRecord" where
  "snapshot string_arg e r =
     (let r = r\<lparr>rec_count := rec_count r + 1, last_ts := call_now e,
            comm := unwrap_or (call_comm e) (replicate 16 0),
            args := map (\<lambda>i. unwrap_or (call_arg e i) 0) [0..<MAX_ARGS]\<rparr>
      in if 1 \<le> string_arg \<and> string_arg \<le> of_nat MAX_ARGS
         then
           (let src = args r ! unat (string_arg - 1);
                r = r\<lparr>arg_str := replicate ARG_STR_SIZE 0\<rparr>
            in if src \<noteq> 0 then r\<lparr>arg_str := call_str e src (arg_str r)\<rparr> else r)
         else r)"

text \<open>The record is updated in place through the pointer \<open>CALLS.get_ptr_mut\<close> returned.\<close>

definition trace_call_handler :: "kernel \<Rightarrow> call_event \<Rightarrow> uprobe_maps \<Rightarrow> u32 \<times> uprobe_maps" where
  "trace_call_handler K e s =
     (let pid = ucast (drop_bit 32 (call_pid_tgid e));
          s = (if map_get (CALLS s) pid = None
               then s\<lparr>CALLS := hash_put K 1024 (CALLS s) pid zeroed\<rparr> else s)
      in case map_get (CALLS s) pid of
           None \<Rightarrow> (0, s)
         | Some r \<Rightarrow>
             (let string_arg = unwrap_or (map_get (STRING_ARG_MAP s) STRING_ARG_KEY) 0
              in (0, s\<lparr>CALLS := AList.update pid (snapshot string_arg e r) (CALLS s)\<rparr>)))"


section \<open>Interpretations\<close>

definition drop_key :: "i64 + u32 \<Rightarrow> u32 option" where
  "drop_key r = (case r of Inl _ \<Rightarrow> None | Inr reason \<Rightarrow> Some reason)"

definition drop_step :: "kernel \<Rightarrow> drop_counts \<Rightarrow> i64 + u32 \<Rightarrow> drop_counts" where
  "drop_step K m r = snd (kfree_skb K 0 (\<lambda>_. r) m)"

definition counter_inv :: "kernel \<Rightarrow> nat \<Rightarrow> ('k, 'v) bpf_map \<Rightarrow> bool" where
  "counter_inv K n m \<longleftrightarrow> hash_documented K \<and> map_wf n m"

definition pid_of :: "u64 \<Rightarrow> u32" where
  "pid_of pid_tgid = ucast (drop_bit 32 pid_tgid)"

lemma drop_step_eq:
  "drop_step K m r =
     (case drop_key r of None \<Rightarrow> m | Some k \<Rightarrow> hash_put K 128 m k (map_count m k + 1))"
  by (auto simp: drop_step_def kfree_skb_def try_kfree_skb_def drop_key_def map_count_def ignoring_def
      split: sum.split option.split)

lemma my_step_eq: "snd (my_handler K p m) = hash_put K 1024 m (pid_of p) (map_count m (pid_of p) + 1)"
  by (auto simp: my_handler_def try_my_handler_def pid_of_def map_count_def ignoring_def Let_def
      split: sum.split option.split)

lemma counter_put:
  assumes "counter_inv K n m"
  shows "counter_inv K n (hash_put K n m k v)"
  using assms by (auto simp: counter_inv_def)

lemma counter_counts:
  assumes "counter_inv K n m" and "k \<in> map_slots m \<or> card (map_slots m) < n"
  shows "map_count (hash_put K n m k (map_count m k + 1)) = (map_count m)(k := map_count m k + 1)
    \<and> map_slots (hash_put K n m k (map_count m k + 1)) = insert k (map_slots m)"
  using increment_accepted [of K n m k] assms
  by (simp add: counter_inv_def ignoring_def map_slots_update map_count_update)

lemma counter_lost:
  assumes "counter_inv K n m" and "k \<notin> map_slots m" and "n \<le> card (map_slots m)"
  shows "hash_put K n m k v = m"
  using increment_refused [of K n m k v] assms by (auto simp: counter_inv_def ignoring_def)

interpretation drops: event_counter "counter_inv K 128" "drop_step K" drop_key map_count map_slots 128 for K
  by unfold_locales
    (simp_all add: drop_step_eq counter_put counter_counts counter_lost split: option.split)

interpretation opens: event_counter "counter_inv K 1024" "\<lambda>m p. snd (my_handler K p m)"
  "\<lambda>p. Some (pid_of p)" map_count map_slots 1024 for K
  by unfold_locales (auto simp: my_step_eq counter_put counter_counts counter_lost)


definition call_pid :: "call_event \<Rightarrow> u32" where
  "call_pid e = pid_of (call_pid_tgid e)"

definition uprobe_inv :: "kernel \<Rightarrow> uprobe_maps \<Rightarrow> bool" where
  "uprobe_inv K s \<longleftrightarrow> counter_inv K 1024 (CALLS s)"

definition call_count :: "uprobe_maps \<Rightarrow> u32 \<Rightarrow> u64" where
  "call_count s pid = unwrap_or (map_option rec_count (map_get (CALLS s) pid)) 0"

definition string_arg_of :: "uprobe_maps \<Rightarrow> u32" where
  "string_arg_of s = unwrap_or (map_get (STRING_ARG_MAP s) STRING_ARG_KEY) 0"

lemma rec_count_snapshot [simp]: "rec_count (snapshot a e r) = rec_count r + 1"
  by (simp add: snapshot_def Let_def)

lemma rec_count_zeroed [simp]: "rec_count zeroed = 0"
  by (simp add: zeroed_def)

lemma map_wf_update_present:
  assumes "map_wf n m" and "map_get m k \<noteq> None"
  shows "map_wf n (AList.update k v m)"
  using assms by (simp add: map_wf_def length_update in_keys_iff map_get_def)

lemma map_get_update: "map_get (AList.update k v m) = (map_get m)(k \<mapsto> v)"
  by (simp add: map_get_def map_ops fun_eq_iff)

lemma trace_call_counted:
  assumes "uprobe_inv K s" and "call_pid e \<in> map_slots (CALLS s) \<or> card (map_slots (CALLS s)) < 1024"
    and "s' = snd (trace_call_handler K e s)"
  shows "map_get (CALLS s') = (map_get (CALLS s))(call_pid e \<mapsto>
           snapshot (string_arg_of s) e (unwrap_or (map_get (CALLS s) (call_pid e)) zeroed))
       \<and> uprobe_inv K s' \<and> STRING_ARG_MAP s' = STRING_ARG_MAP s"
proof -
  let ?p = "call_pid e"
  let ?m = "if map_get (CALLS s) ?p = None then hash_put K 1024 (CALLS s) ?p zeroed else CALLS s"
  have inv: "hash_documented K" "map_wf 1024 (CALLS s)"
    using assms(1) by (simp_all add: uprobe_inv_def counter_inv_def)
  have get: "map_get ?m = (map_get (CALLS s))(?p \<mapsto> unwrap_or (map_get (CALLS s) ?p) zeroed)"
    using increment_accepted [OF inv assms(2), of zeroed]
    by (auto simp: ignoring_def map_get_update fun_eq_iff)
  have s': "s' = s\<lparr>CALLS := AList.update ?p
      (snapshot (string_arg_of s) e (unwrap_or (map_get (CALLS s) ?p) zeroed)) ?m\<rparr>"
    using get unfolding assms(3)
    by (auto simp: trace_call_handler_def call_pid_def pid_of_def string_arg_of_def Let_def
        split: option.split)
  have "map_wf 1024 ?m" using inv by auto
  then have "uprobe_inv K s'"
    using inv(1) get by (simp add: s' uprobe_inv_def counter_inv_def map_wf_update_present)
  then show ?thesis using get by (simp add: s' map_get_update)
qed

lemma trace_call_lost:
  assumes "uprobe_inv K s" and "call_pid e \<notin> map_slots (CALLS s)" and "1024 \<le> card (map_slots (CALLS s))"
  shows "snd (trace_call_handler K e s) = s"
proof -
  have "hash_put K 1024 (CALLS s) (call_pid e) zeroed = CALLS s"
    using counter_lost [OF _ assms(2,3)] assms(1) by (simp add: uprobe_inv_def)
  moreover have "map_get (CALLS s) (call_pid e) = None" using assms(2) by (simp add: map_get_slot)
  ultimately show ?thesis
    by (simp add: trace_call_handler_def call_pid_def pid_of_def Let_def)
qed

interpretation calls: event_counter "uprobe_inv K" "\<lambda>s e. snd (trace_call_handler K e s)"
  "\<lambda>e. Some (call_pid e)" call_count "\<lambda>s. map_slots (CALLS s)" 1024 for K
proof (unfold_locales, goal_cases)
  case (1 s e)
  show ?case
  proof (cases "call_pid e \<in> map_slots (CALLS s) \<or> card (map_slots (CALLS s)) < 1024")
    case True
    then show ?thesis using trace_call_counted [OF 1 _ refl] by blast
  next
    case False
    then show ?thesis using trace_call_lost [OF 1] 1 by simp
  qed
next
  case (4 s e k)
  then show ?case using trace_call_counted [OF 4(1) _ refl, of e]
    by (auto simp: call_count_def map_slots_def fun_eq_iff unwrap_or_def split: option.splits)
next
  case (5 s e k)
  then show ?case by (simp add: trace_call_lost)
qed simp_all


section \<open>Properties\<close>

text \<open>
  No drop is lost or miscounted: as long as at most 128 different reasons occur, the counter
  of every reason in \<open>DROP_COUNTS\<close> is its former value plus the number of drops with that reason;
  events whose reason cannot be read count for none.
\<close>

lemma kfree_counts_exactly:
  assumes "counter_inv K 128 m" and "card (map_slots m \<union> drops.keys_of es) \<le> 128"
  shows "map_count (drops.run K m es) reason = map_count m reason + of_nat (drops.occurrences reason es)"
  by (rule drops.run_counts [OF assms])

lemma counter_inv_Nil [simp]: "counter_inv ref_kernel n []"
  by (simp add: counter_inv_def)

lemma kfree_counts_exactly_witness:
  "map_count (drops.run ref_kernel [] [Inr 3, Inr 6, Inl 14, Inr 3]) 3 = 2"
proof -
  have "drops.keys_of [Inr 3, Inr 6, Inl 14, Inr 3] = {3, 6}"
    by (auto simp: drops.keys_of_def drop_key_def)
  then show ?thesis
    using kfree_counts_exactly [of ref_kernel "[]" "[Inr 3, Inr 6, Inl 14, Inr 3]" 3]
    by (simp add: map_slots_keys keys_def drops.occurrences_def drop_key_def map_count_def)
qed

text \<open>
  The probed process is counted call by call: once a process has its record, whatever other
  processes call, its count is the former count plus the number of its calls, and its last
  snapshot holds the arguments of its most recent call.
\<close>

lemma uprobe_counts_calls:
  assumes "uprobe_inv K s" and "pid \<in> map_slots (CALLS s)"
    and "call_pid e = pid" and "s' = calls.run K s es" and "s'' = snd (trace_call_handler K e s')"
  shows "call_count s'' pid = call_count s pid + of_nat (calls.occurrences pid es) + 1
    \<and> map_option args (map_get (CALLS s'') pid)
         = Some (map (\<lambda>i. unwrap_or (call_arg e i) 0) [0..<MAX_ARGS])"
proof -
  have inv: "uprobe_inv K s'" unfolding assms(4) by (rule calls.inv_run [OF assms(1)])
  have run: "call_count s' pid = call_count s pid + of_nat (calls.occurrences pid es)"
    "pid \<in> map_slots (CALLS s')"
    using calls.run_counts_present [OF assms(1,2)] by (simp_all add: assms(4))
  have "call_count s'' pid = call_count s' pid + 1"
    using calls.counted [OF inv, of e pid] run(2) assms(3,5) by simp
  moreover have "args (snapshot a e r) = map (\<lambda>i. unwrap_or (call_arg e i) 0) [0..<MAX_ARGS]" for a r
    by (simp add: snapshot_def Let_def)
  moreover have "map_get (CALLS s'') pid = Some (snapshot (string_arg_of s') e
      (unwrap_or (map_get (CALLS s') pid) zeroed))"
    using trace_call_counted [OF inv _ assms(5)] run(2) assms(3) by simp
  ultimately show ?thesis using run(1) by simp
qed

definition demo_call :: "u64 \<Rightarrow> call_event" where
  "demo_call pid_tgid = \<lparr>call_pid_tgid = pid_tgid, call_now = 99, call_comm = None,
     call_arg = (\<lambda>i. Some (of_nat i + 1)), call_str = (\<lambda>_ b. b)\<rparr>"

lemma uprobe_counts_calls_witness:
  "let s = \<lparr>CALLS = [(1, zeroed)], STRING_ARG_MAP = []\<rparr>;
       s' = snd (trace_call_handler ref_kernel (demo_call 0x100000009)
              (calls.run ref_kernel s [demo_call 0x100000009, demo_call 0x200000009]))
   in call_count s' 1 = 2 \<and> map_option args (map_get (CALLS s') 1) = Some [1, 2, 3, 4, 5, 6]"
proof -
  let ?s = "\<lparr>CALLS = [(1, zeroed)], STRING_ARG_MAP = []\<rparr>"
  have "uprobe_inv ref_kernel ?s" and "1 \<in> map_slots (CALLS ?s)" and "call_pid (demo_call 0x100000009) = 1"
    by (simp_all add: uprobe_inv_def counter_inv_def map_wf_def keys_def map_slots_keys call_pid_def
        pid_of_def demo_call_def)
  from uprobe_counts_calls [OF this refl refl, of "[demo_call 0x100000009, demo_call 0x200000009]"]
  show ?thesis
    by (simp add: Let_def calls.occurrences_def call_count_def MAX_ARGS_def upt_rec)
      (simp add: call_pid_def pid_of_def demo_call_def)
qed

text \<open>
  \<open>my_program\<close> counts the \<open>openat\<close> calls of each process exactly while at most 1024 processes
  call, and when its map is full the calls of further processes leave it unchanged.
\<close>

lemma my_program_counts:
  assumes "counter_inv K 1024 m"
  shows "(card (map_slots m \<union> opens.keys_of es) \<le> 1024 \<longrightarrow>
            map_count (opens.run K m es) pid = map_count m pid + of_nat (opens.occurrences pid es))
       \<and> (1024 \<le> card (map_slots m) \<longrightarrow> (\<forall>e\<in>set es. pid_of e \<notin> map_slots m) \<longrightarrow> opens.run K m es = m)"
  using opens.run_counts [OF assms] opens.run_full [OF assms, of es] by auto

lemma my_program_counts_witness:
  "map_count (opens.run ref_kernel [] [0x700000001, 0x700000002, 0x900000003]) 7 = 2"
proof -
  have "opens.keys_of [0x700000001, 0x700000002, 0x900000003] = {7, 9}"
    unfolding opens.keys_of_def by (auto simp: pid_of_def)
  then show ?thesis
    using my_program_counts [of ref_kernel "[]" "[0x700000001, 0x700000002, 0x900000003]" 7]
    by (simp add: map_slots_keys keys_def opens.occurrences_def map_count_def) (simp add: pid_of_def)
qed

end
