(* ===== verification/Uprobe_User.thy ===== *)
theory Uprobe_User
  imports Counting_Ebpf Aya
begin

text \<open>
  The userspace side of \<open>uprobe\<close> (\<open>src/bpfagent/src/programs/uprobe/mod.rs\<close>) and of \<open>my_program\<close>
  (\<open>src/bpfagent/src/programs/my_program/mod.rs\<close>). Process names are ASCII, so a \<open>comm\<close> buffer is the text of its bytes.
\<close>


section \<open>Settings\<close>

definition parse_string_setting :: "EbpfProgramConfig \<Rightarrow> string \<Rightarrow> string option" where
  "parse_string_setting config key = Option.bind (setting config key) as_str"

definition parse_int_setting :: "EbpfProgramConfig \<Rightarrow> string \<Rightarrow> 'a \<Rightarrow> (i64 \<Rightarrow> 'a option) \<Rightarrow> 'a" where
  "parse_int_setting config key dflt convert =
     (case Option.bind (setting config key) as_integer of
        None \<Rightarrow> dflt
      | Some value \<Rightarrow> (case convert value of Some parsed \<Rightarrow> parsed | None \<Rightarrow> dflt))"

definition parse_offset :: "EbpfProgramConfig \<Rightarrow> u64" where
  "parse_offset config = parse_int_setting config ''offset'' 0 (try_from_i64 0 (2 ^ 64 - 1))"

definition parse_pid :: "EbpfProgramConfig \<Rightarrow> i32" where
  "parse_pid config = parse_int_setting config ''pid'' (- 1) (try_from_i64 (- (2 ^ 31)) (2 ^ 31 - 1))"

definition parse_string_arg :: "EbpfProgramConfig \<Rightarrow> u32" where
  "parse_string_arg config =
     parse_int_setting config ''string_arg'' 0
       (\<lambda>v. case try_from_i64 0 (2 ^ 32 - 1) v of
              None \<Rightarrow> None
            | Some n \<Rightarrow> if unat n \<le> MAX_ARGS then Some n else None)"

text \<open>\<open>None\<close> is \<open>UProbeScope::AllProcesses\<close>.\<close>

definition pid_scope :: "i32 \<Rightarrow> u32 option" where
  "pid_scope pid = (if sint pid < 0 then None else if pid = 0 then None else Some pid)"

definition cstr_string :: "u8 list \<Rightarrow> string" where
  "cstr_string buf = from_utf8_lossy (map (\<lambda>b. char_of (unat b)) (takeWhile (\<lambda>b. b \<noteq> 0) buf))"


section \<open>The program\<close>

record UprobeProgram =
  up_name :: string
  up_ebpf :: bool
  up_metrics :: "u64 family option"
  up_enabled :: bool
  up_target :: string
  up_symbol :: string
  up_offset :: u64
  up_pid :: i32
  up_string_arg :: u32
  up_last_counts :: "(u32 \<times> u64) list"

definition uprobe_new :: UprobeProgram where
  "uprobe_new = \<lparr>up_name = ''uprobe'', up_ebpf = False, up_metrics = None, up_enabled = False,
     up_target = [], up_symbol = [], up_offset = 0, up_pid = - 1, up_string_arg = 0, up_last_counts = []\<rparr>"

definition uprobe_metrics_new :: "prom \<Rightarrow> u64 family result" where
  "uprobe_metrics_new prom =
     (case prom (CreateMetric ''uprobe_calls_total'') of
        Some e \<Rightarrow> Inl [''failed to create calls_total counter'', e]
      | None \<Rightarrow>
          (case prom (RegisterMetric ''uprobe_calls_total'') of
             Some e \<Rightarrow> Inl [''failed to register calls_total counter'', e]
           | None \<Rightarrow> Inr []))"

definition uprobe_set_metrics_registry :: "prom \<Rightarrow> UprobeProgram \<Rightarrow> unit result \<times> UprobeProgram" where
  "uprobe_set_metrics_registry prom p =
     (case uprobe_metrics_new prom of
        Inl e \<Rightarrow> (Inl e, p)
      | Inr m \<Rightarrow> (Inr (), p\<lparr>up_metrics := Some m\<rparr>))"

definition uprobe_configure :: "EbpfProgramConfig \<Rightarrow> UprobeProgram \<Rightarrow> unit result \<times> UprobeProgram" where
  "uprobe_configure config p =
     (let target = unwrap_or (parse_string_setting config ''target'') [];
          symbol = unwrap_or (parse_string_setting config ''symbol'') []
      in (Inr (), p\<lparr>up_target := target, up_symbol := symbol, up_offset := parse_offset config,
            up_pid := parse_pid config, up_string_arg := parse_string_arg config,
            up_enabled := \<not> (target = [] \<or> symbol = [])\<rparr>))"

definition uprobe_config_steps :: "UprobeProgram \<Rightarrow> step list" where
  "uprobe_config_steps p =
     load_object ''uprobe''
     @ configure_map ''STRING_ARG_MAP'' (WriteU32 STRING_ARG_KEY (up_string_arg p))"

definition uprobe_attach_steps :: "UprobeProgram \<Rightarrow> step list" where
  "uprobe_attach_steps p =
     take_program ''uprobe_trace_call''
     @ attach ''uprobe_trace_call'' (Uprobe (up_symbol p) (up_offset p) (up_target p) (pid_scope (up_pid p)))"

definition uprobe_load :: "aya \<Rightarrow> UprobeProgram \<Rightarrow> (unit result \<times> UprobeProgram) \<times> aya_call list" where
  "uprobe_load aya p =
     (if \<not> up_enabled p then ((Inr (), p), [])
      else
        (case run_steps aya (uprobe_config_steps p @ uprobe_attach_steps p) of
           (cs, Some e) \<Rightarrow> ((Inl e, p), cs)
         | (cs, None) \<Rightarrow> ((Inr (), p\<lparr>up_ebpf := True\<rparr>), cs)))"

definition pname :: "u8 list \<Rightarrow> u32 \<Rightarrow> string" where
  "pname c pid = cstr_string c @ '' (PID '' @ to_string pid @ '')''"

definition inc_by :: "u64 family \<Rightarrow> string \<Rightarrow> u64 \<Rightarrow> u64 family" where
  "inc_by m label n = AList.update label (unwrap_or (map_of m label) 0 + n) m"

text \<open>The loop over the entries of \<open>CALLS\<close>: the call totals and the counts last seen.\<close>

fun report_calls ::
  "(u32, CallRecord) entries \<Rightarrow> u64 family \<times> (u32 \<times> u64) list \<Rightarrow> u64 family \<times> (u32 \<times> u64) list" where
  "report_calls [] (m, last_counts) = (m, last_counts)"
| "report_calls (Inl _ # es) (m, last_counts) = report_calls es (m, last_counts)"
| "report_calls (Inr (pid, record) # es) (m, last_counts) =
     (let last = unwrap_or (map_of last_counts pid) 0;
          last_counts = AList.update pid (rec_count record) last_counts;
          delta = saturating_sub (rec_count record) last
      in if delta = 0 then report_calls es (m, last_counts)
         else report_calls es (inc_by m (pname (comm record) pid) delta, last_counts))"

definition uprobe_display_metrics ::
  "aya \<Rightarrow> (u32, CallRecord) entries \<Rightarrow> UprobeProgram \<Rightarrow> unit result \<times> UprobeProgram" where
  "uprobe_display_metrics aya entries p =
     (if \<not> up_enabled p then (Inr (), p)
      else
        (case up_metrics p of
           None \<Rightarrow> (Inl [''metrics not set for uprobe program''], p)
         | Some m \<Rightarrow>
             if \<not> up_ebpf p then (Inl [''BPF program not loaded''], p)
             else
               (case open_accumulator_map aya ''CALLS'' of
                  Inl e \<Rightarrow> (Inl e, p)
                | Inr _ \<Rightarrow>
                    (let (m, last_counts) = report_calls entries (m, up_last_counts p)
                     in (Inr (), p\<lparr>up_metrics := Some m, up_last_counts := last_counts\<rparr>)))))"


section \<open>\<open>my_program\<close>\<close>

definition OBJECT_NAME :: string where "OBJECT_NAME = ''my_program''"
definition PROGRAM_NAME :: string where "PROGRAM_NAME = ''my_handler''"
definition TP_CATEGORY :: string where "TP_CATEGORY = ''syscalls''"
definition TP_EVENT :: string where "TP_EVENT = ''sys_enter_openat''"
definition MAP_NAME :: string where "MAP_NAME = ''COUNTERS''"

record MyProgram =
  my_ebpf :: bool
  my_metrics :: "i64 family option"

definition my_new :: MyProgram where
  "my_new = \<lparr>my_ebpf = False, my_metrics = None\<rparr>"

definition my_load :: "aya \<Rightarrow> MyProgram \<Rightarrow> (unit result \<times> MyProgram) \<times> aya_call list" where
  "my_load aya p =
     (case run_steps aya (load_object OBJECT_NAME @ take_program PROGRAM_NAME
             @ attach PROGRAM_NAME (Tracepoint TP_CATEGORY TP_EVENT)) of
        (cs, Some e) \<Rightarrow> ((Inl e, p), cs)
      | (cs, None) \<Rightarrow> ((Inr (), p\<lparr>my_ebpf := True\<rparr>), cs))"

definition my_set_metrics_registry :: "prom \<Rightarrow> MyProgram \<Rightarrow> unit result \<times> MyProgram" where
  "my_set_metrics_registry prom p =
     (case prom (CreateMetric ''my_program_events_per_pid'') of
        Some e \<Rightarrow> (Inl [e], p)
      | None \<Rightarrow>
          (case prom (RegisterMetric ''my_program_events_per_pid'') of
             Some e \<Rightarrow> (Inl [e], p)
           | None \<Rightarrow> (Inr (), p\<lparr>my_metrics := Some []\<rparr>)))"

text \<open>An error while iterating ends the loop; the gauges set so far stay set. \<open>count as i64\<close>
  reinterprets the bits.\<close>

fun my_report :: "(u32, u64) entries \<Rightarrow> i64 family \<Rightarrow> unit result \<times> i64 family" where
  "my_report [] m = (Inr (), m)"
| "my_report (Inl e # es) m = (Inl [''failed to iterate '' @ MAP_NAME @ '': '' @ e], m)"
| "my_report (Inr (pid, count) # es) m = my_report es (AList.update (to_string pid) count m)"

definition my_display_metrics :: "aya \<Rightarrow> (u32, u64) entries \<Rightarrow> MyProgram \<Rightarrow> unit result \<times> MyProgram" where
  "my_display_metrics aya entries p =
     (case my_metrics p of
        None \<Rightarrow> (Inl [''metrics not set for my_program''], p)
      | Some m \<Rightarrow>
          if \<not> my_ebpf p then (Inl [''BPF program not loaded''], p)
          else
            (case open_accumulator_map aya MAP_NAME of
               Inl e \<Rightarrow> (Inl e, p)
             | Inr _ \<Rightarrow> (let (r, m) = my_report entries m in (r, p\<lparr>my_metrics := Some m\<rparr>))))"


section \<open>Properties\<close>

text \<open>A label determines the process.\<close>

lemma uprobe_config_no_attach:
  "\<forall>x\<in>set (uprobe_config_steps p). \<forall>c\<in>set (step_calls x). \<not> is_attach c"
  by (simp add: uprobe_config_steps_def load_idioms)

lemma pname_pid: "pname c pid = pname c' pid' \<Longrightarrow> pid = pid'"
  unfolding pname_def by (rule pid_label_inject)

lemma map_of_inc_by: "map_of (inc_by m l n) = (map_of m)(l \<mapsto> unwrap_or (map_of m l) 0 + n)"
  by (simp add: inc_by_def map_ops)

lemma report_calls_other:
  assumes "q \<notin> set (keys (readable es))"
  shows "map_of (fst (report_calls es (m, lc))) (pname c q) = map_of m (pname c q)
       \<and> map_of (snd (report_calls es (m, lc))) q = map_of lc q"
  using assms
proof (induction es "(m, lc)" arbitrary: m lc rule: report_calls.induct)
  case (3 pid r es m lc)
  have "pid \<noteq> q" and q: "q \<notin> set (keys (readable es))" using "3.prems" by (auto simp: keys_def)
  then have "pname (comm r) pid \<noteq> pname c q" using pname_pid by metis
  then show ?case using 3(1,2) [OF refl refl refl _ q] \<open>pid \<noteq> q\<close> by (simp add: Let_def map_of_inc_by map_ops)
qed (auto simp: keys_def)

text \<open>One display: the counters and the remembered counts of every process.\<close>

lemma report_calls_adds:
  assumes "distinct (keys (readable es))" and "report_calls es (m, last_counts) = (m', last_counts')"
  shows "map_of (readable es) pid = Some r \<Longrightarrow>
            unwrap_or (map_of m' (pname (comm r) pid)) 0
              = unwrap_or (map_of m (pname (comm r) pid)) 0
                + saturating_sub (rec_count r) (unwrap_or (map_of last_counts pid) 0)
            \<and> map_of last_counts' pid = Some (rec_count r)"
    and "map_of (readable es) pid = None \<Longrightarrow>
            map_of m' (pname c pid) = map_of m (pname c pid)
            \<and> map_of last_counts' pid = map_of last_counts pid"
proof -
  have "unwrap_or (map_of (fst (report_calls es (m, lc))) (pname (comm r) pid)) 0
          = unwrap_or (map_of m (pname (comm r) pid)) 0 + saturating_sub (rec_count r) (unwrap_or (map_of lc pid) 0)
        \<and> map_of (snd (report_calls es (m, lc))) pid = Some (rec_count r)"
    if "map_of (readable es) pid = Some r" for pid r m lc
    using assms(1) that
  proof (induction es "(m, lc)" arbitrary: m lc rule: report_calls.induct)
    case (3 q r' es m lc)
    show ?case
    proof (cases "q = pid")
      case True
      then have "r' = r" and "pid \<notin> set (keys (readable es))" using "3.prems" by (auto simp: keys_def)
      then show ?thesis
        using True report_calls_other [of pid es] by (simp add: Let_def map_of_inc_by map_ops)
    next
      case False
      then have "pname (comm r') q \<noteq> pname (comm r) pid" using pname_pid by metis
      then show ?thesis
        using 3(1,2) [OF refl refl refl] "3.prems" False by (simp add: Let_def map_of_inc_by map_ops keys_def)
    qed
  qed auto
  from this [where m = m and lc = last_counts]
  show "map_of (readable es) pid = Some r \<Longrightarrow>
            unwrap_or (map_of m' (pname (comm r) pid)) 0
              = unwrap_or (map_of m (pname (comm r) pid)) 0
                + saturating_sub (rec_count r) (unwrap_or (map_of last_counts pid) 0)
            \<and> map_of last_counts' pid = Some (rec_count r)"
    by (simp add: assms(2))
  show "map_of (readable es) pid = None \<Longrightarrow>
            map_of m' (pname c pid) = map_of m (pname c pid)
            \<and> map_of last_counts' pid = map_of last_counts pid"
    using report_calls_other [where es = es and m = m and lc = last_counts] by (simp add: assms(2) in_keys_iff)
qed

definition exported :: "UprobeProgram \<Rightarrow> string \<Rightarrow> u64" where
  "exported p label = unwrap_or (Option.bind (up_metrics p) (\<lambda>m. map_of m label)) 0"

definition remembered :: "UprobeProgram \<Rightarrow> u32 \<Rightarrow> u64" where
  "remembered p pid = unwrap_or (map_of (up_last_counts p) pid) 0"

definition displays :: "(aya \<times> (u32, CallRecord) entries) list \<Rightarrow> UprobeProgram \<Rightarrow> UprobeProgram" where
  "displays ds p = fold (\<lambda>(aya, es) p. snd (uprobe_display_metrics aya es p)) ds p"

text \<open>The records of a process that the displays of a run read, in order: a display whose map cannot be
  opened reads nothing.\<close>

definition seen :: "(aya \<times> (u32, CallRecord) entries) list \<Rightarrow> u32 \<Rightarrow> CallRecord list" where
  "seen ds pid = concat (map (\<lambda>(aya, es).
     if open_accumulator_map aya ''CALLS'' = Inr () then case map_of (readable es) pid of None \<Rightarrow> [] | Some r \<Rightarrow> [r]
     else []) ds)"

definition operating :: "UprobeProgram \<Rightarrow> bool" where
  "operating p \<longleftrightarrow> up_enabled p \<and> up_ebpf p \<and> up_metrics p \<noteq> None"

lemma display_step:
  assumes "operating p" and "distinct (keys (readable es))" and "p' = snd (uprobe_display_metrics aya es p)"
  shows "operating p'"
    and "seen [(aya, es)] pid = [r] \<Longrightarrow> exported p' (pname (comm r) pid)
             = exported p (pname (comm r) pid) + saturating_sub (rec_count r) (remembered p pid)
           \<and> remembered p' pid = rec_count r"
    and "seen [(aya, es)] pid = [] \<Longrightarrow> exported p' (pname c pid) = exported p (pname c pid)
           \<and> remembered p' pid = remembered p pid"
proof -
  obtain m where m: "up_metrics p = Some m" "up_enabled p" "up_ebpf p" using assms(1) by (auto simp: operating_def)
  obtain m' l' where run: "report_calls es (m, up_last_counts p) = (m', l')" by (cases "report_calls es (m, up_last_counts p)")
  have p': "p' = (if open_accumulator_map aya ''CALLS'' = Inr () then p\<lparr>up_metrics := Some m', up_last_counts := l'\<rparr> else p)"
    by (auto simp: assms(3) uprobe_display_metrics_def m run split: sum.splits)
  note adds = report_calls_adds [OF assms(2) run, of pid]
  show "operating p'" using assms(1) by (simp add: p' operating_def)
  show "seen [(aya, es)] pid = [r] \<Longrightarrow> exported p' (pname (comm r) pid)
             = exported p (pname (comm r) pid) + saturating_sub (rec_count r) (remembered p pid)
           \<and> remembered p' pid = rec_count r"
    using adds(1) [of r] by (simp add: p' seen_def exported_def remembered_def m split: if_splits option.splits)
  show "seen [(aya, es)] pid = [] \<Longrightarrow> exported p' (pname c pid) = exported p (pname c pid)
           \<and> remembered p' pid = remembered p pid"
    using adds(2) [of c] by (simp add: p' seen_def exported_def remembered_def m split: if_splits option.splits)
qed

lemma seen_Cons: "seen (d # ds) pid = seen [d] pid @ seen ds pid"
  by (simp add: seen_def)

lemma seen_one: "seen [d] pid = [] \<or> (\<exists>r. seen [d] pid = [r])"
  by (simp add: seen_def split: prod.split option.split)

text \<open>
  C30. The exported totals account for every call, once: over any run of displays, of which any may
  fail or miss records, the counter of a process that keeps its name has grown by exactly the calls
  between the count remembered before the run and the last count that was read, provided its counts
  do not decrease; that count is then remembered, so the next run continues from it, and a process
  that was not read keeps its counter and its remembered count.
\<close>

theorem uprobe_reports_every_call:
  assumes "operating p" and "\<And>aya es. (aya, es) \<in> set ds \<Longrightarrow> distinct (keys (readable es))"
    and "\<And>r. r \<in> set (seen ds pid) \<Longrightarrow> comm r = c"
    and "sorted (remembered p pid # map rec_count (seen ds pid))"
  shows "remembered (displays ds p) pid = last (remembered p pid # map rec_count (seen ds pid))
       \<and> exported (displays ds p) (pname c pid) - exported p (pname c pid)
           = remembered (displays ds p) pid - remembered p pid"
  using assms
proof (induction ds arbitrary: p)
  case (Cons d ds)
  obtain aya es where d: "d = (aya, es)" by (cases d)
  let ?p = "snd (uprobe_display_metrics aya es p)"
  let ?claim = "\<lambda>e q. remembered (displays e q) pid = last (remembered q pid # map rec_count (seen e pid))
       \<and> exported (displays e q) (pname c pid) - exported q (pname c pid)
           = remembered (displays e q) pid - remembered q pid"
  have dist: "distinct (keys (readable es))" using Cons.prems(2) [of aya es] by (simp add: d)
  note step = display_step [OF Cons.prems(1) dist refl, where aya = aya]
  have run: "displays (d # ds) p = displays ds ?p" by (simp add: displays_def d)
  have ds: "distinct (keys (readable es'))" if "(aya', es') \<in> set ds" for aya' es'
    using Cons.prems(2) [of aya' es'] that by auto
  show ?case
  proof (cases "seen [d] pid = []")
    case True
    then have same: "remembered ?p pid = remembered p pid" "exported ?p (pname c pid) = exported p (pname c pid)"
      using step(3) [where c = c and pid = pid] by (simp_all add: d)
    have all: "seen (d # ds) pid = seen ds pid" using True seen_Cons [of d ds pid] by simp
    have "?claim ds ?p" by (rule Cons.IH [OF step(1)]) (use ds Cons.prems(3,4) in \<open>auto simp: all same\<close>)
    then show ?thesis unfolding run all same by blast
  next
    case False
    then obtain r where r: "seen [d] pid = [r]" using seen_one by blast
    have all: "seen (d # ds) pid = r # seen ds pid" using seen_Cons [of d ds pid] r by simp
    have c: "comm r = c" using Cons.prems(3) [of r] by (simp add: all)
    have new: "remembered ?p pid = rec_count r"
      "exported ?p (pname c pid) = exported p (pname c pid) + saturating_sub (rec_count r) (remembered p pid)"
      using step(2) [where r = r and pid = pid] r by (simp_all add: d c)
    have srt: "remembered p pid \<le> rec_count r" "sorted (remembered ?p pid # map rec_count (seen ds pid))"
      using Cons.prems(4) by (simp_all add: all new(1))
    have names: "comm r' = c" if "r' \<in> set (seen ds pid)" for r' using Cons.prems(3) that by (simp add: all)
    have IH: "?claim ds ?p" by (rule Cons.IH [OF step(1)]) (use ds names srt(2) in blast)+
    have "remembered (displays ds ?p) pid = last (remembered p pid # map rec_count (r # seen ds pid))"
      using conjunct1 [OF IH] by (simp add: new(1))
    moreover have "exported (displays ds ?p) (pname c pid) - exported p (pname c pid)
        = remembered (displays ds ?p) pid - remembered p pid"
      using conjunct2 [OF IH] srt(1) unfolding new by (simp add: saturating_sub_def algebra_simps)
    ultimately show ?thesis unfolding run all by blast
  qed
qed (simp add: displays_def seen_def)

theorem uprobe_reports_every_call_witness:
  "let p = uprobe_new\<lparr>up_ebpf := True, up_enabled := True, up_metrics := Some []\<rparr>;
       ds = map (\<lambda>n. (\<lambda>_. None, [Inl ''EIO'', Inr (7, zeroed\<lparr>rec_count := n, comm := [97, 112, 112, 0]\<rparr>)])) [4, 9]
   in exported (displays ds p) ''app (PID 7)'' = 9"
proof -
  let ?p = "uprobe_new\<lparr>up_ebpf := True, up_enabled := True, up_metrics := Some []\<rparr>"
  let ?es = "\<lambda>n. [Inl ''EIO'', Inr (7, zeroed\<lparr>rec_count := n, comm := [97, 112, 112, 0]\<rparr>)] :: (u32, CallRecord) entries"
  let ?ds = "map (\<lambda>n. (\<lambda>_. None, ?es n)) [4, 9] :: (aya \<times> (u32, CallRecord) entries) list"
  have sees: "seen ?ds 7 = map (\<lambda>n. zeroed\<lparr>rec_count := n, comm := [97, 112, 112, 0]\<rparr>) [4, 9]"
    by (simp add: seen_def open_accumulator_map_def)
  moreover have "operating ?p" and "remembered ?p 7 = 0" and "exported ?p l = 0" for l
    by (simp_all add: operating_def uprobe_new_def remembered_def exported_def)
  moreover from this have "remembered (displays ?ds ?p) 7 = last (remembered ?p 7 # map rec_count (seen ?ds 7))
       \<and> exported (displays ?ds ?p) (pname [97, 112, 112, 0] 7) - exported ?p (pname [97, 112, 112, 0] 7)
           = remembered (displays ?ds ?p) 7 - remembered ?p 7"
    by (intro uprobe_reports_every_call, unfold sees) (auto simp: keys_def)
  ultimately have "exported (displays ?ds ?p) (pname [97, 112, 112, 0] 7) = 9" by simp
  moreover have "pname [97, 112, 112, 0] 7 = ''app (PID 7)''" by code_simp
  ultimately show ?thesis by (simp only: Let_def)
qed

end
