(* ===== verification/Iflat_Uprobe_User.thy ===== *)
theory Iflat_Uprobe_User
  imports Iflat_Uprobe_Ebpf Iflat_User Uprobe_User
begin

text \<open>
  The userspace side of \<open>iflat_uprobe\<close> (\<open>src/bpfagent/src/programs/iflat_uprobe/mod.rs\<close>). It shares
  \<open>latency_deltas\<close> and \<open>avg_latency_us\<close> with \<open>iflat\<close> and \<open>pid_scope\<close> with \<open>uprobe\<close>, and has its own
  copies of the setting parsers.

  Shown: the tag location the kernel side uses is the configured one, is written before anything
  is attached and always names an argument register; the displays of both legs.
\<close>

definition ACCUM_KEY :: u32 where "ACCUM_KEY = 0"
definition MAX_IFACE_LEN :: nat where "MAX_IFACE_LEN = 15"
definition DEFAULT_ARG_INDEX :: u32 where "DEFAULT_ARG_INDEX = 3"


section \<open>Settings\<close>

definition parse_iface_setting :: "EbpfProgramConfig \<Rightarrow> string \<Rightarrow> string option result" where
  "parse_iface_setting config key =
     (case setting config key of
        None \<Rightarrow> Inr None
      | Some value \<Rightarrow>
          (case as_str value of
             None \<Rightarrow> Inl [''invalid iflat_uprobe '' @ key @ '' setting '' @ quoted (debug_fmt value)
                           @ '': not a string'']
           | Some name \<Rightarrow>
               if name = [] \<or> length name > MAX_IFACE_LEN
               then Inl [''invalid iflat_uprobe '' @ key @ '' setting '' @ quoted name
                           @ '': not a valid interface name'']
               else Inr (Some name)))"

definition parse_string_setting :: "EbpfProgramConfig \<Rightarrow> string \<Rightarrow> string option" where
  "parse_string_setting config key = Option.bind (setting config key) as_str"

definition parse_int_setting :: "EbpfProgramConfig \<Rightarrow> string \<Rightarrow> 'a \<Rightarrow> (i64 \<Rightarrow> 'a option) \<Rightarrow> 'a" where
  "parse_int_setting config key dflt convert =
     (case Option.bind (setting config key) as_integer of
        None \<Rightarrow> dflt
      | Some value \<Rightarrow> (case convert value of Some parsed \<Rightarrow> parsed | None \<Rightarrow> dflt))"

definition parse_offset :: "EbpfProgramConfig \<Rightarrow> u64" where
  "parse_offset config = parse_int_setting config ''offset'' 0 (try_from_i64 0 (2 ^ 64 - 1))"

definition parse_pid :: "EbpfProgramConfig \<Rightarrow> i32" where
  "parse_pid config = parse_int_setting config ''pid'' (- 1) (try_from_i64 (- (2 ^ 31)) (2 ^ 31 - 1))"

definition parse_arg_index :: "EbpfProgramConfig \<Rightarrow> u32" where
  "parse_arg_index config =
     parse_int_setting config ''arg_index'' DEFAULT_ARG_INDEX
       (\<lambda>v. case try_from_i64 0 (2 ^ 32 - 1) v of
              None \<Rightarrow> None
            | Some n \<Rightarrow> if 1 \<le> n \<and> n \<le> of_nat Iflat_Uprobe_Ebpf.MAX_ARGS then Some n else None)"

definition parse_payload_ptr_offset :: "EbpfProgramConfig \<Rightarrow> u32" where
  "parse_payload_ptr_offset config =
     parse_int_setting config ''payload_ptr_offset'' PAYLOAD_PTR_DIRECT
       (\<lambda>v. if sint v = - 1 then Some PAYLOAD_PTR_DIRECT
            else case try_from_i64 0 (2 ^ 32 - 1) v of
                   None \<Rightarrow> None
                 | Some n \<Rightarrow> if n \<noteq> PAYLOAD_PTR_DIRECT then Some n else None)"

definition parse_tag_offset :: "EbpfProgramConfig \<Rightarrow> u32" where
  "parse_tag_offset config = parse_int_setting config ''tag_offset'' 0 (try_from_i64 0 (2 ^ 32 - 1))"


section \<open>The program\<close>

record IflatUprobeProgram =
  ifu_name :: string
  ifu_ebpf :: bool
  ifu_metrics :: "(f64 \<times> f64) option"
  ifu_enabled :: bool
  rx1_iface :: string
  rx2_iface :: string
  ifu_target :: string
  ifu_symbol :: string
  ifu_offset :: u64
  ifu_pid :: i32
  ifu_arg_index :: u32
  ifu_payload_ptr_offset :: u32
  ifu_tag_offset :: u32
  last_sum1 :: u64
  last_count1 :: u64
  last_sum2 :: u64
  last_count2 :: u64

definition ifu_new :: IflatUprobeProgram where
  "ifu_new = \<lparr>ifu_name = ''iflat_uprobe'', ifu_ebpf = False, ifu_metrics = None, ifu_enabled = False,
     rx1_iface = [], rx2_iface = [], ifu_target = [], ifu_symbol = [], ifu_offset = 0, ifu_pid = - 1,
     ifu_arg_index = DEFAULT_ARG_INDEX, ifu_payload_ptr_offset = PAYLOAD_PTR_DIRECT, ifu_tag_offset = 0,
     last_sum1 = 0, last_count1 = 0, last_sum2 = 0, last_count2 = 0\<rparr>"

definition ifu_metrics_new :: "prom \<Rightarrow> (f64 \<times> f64) result" where
  "ifu_metrics_new prom =
     (case prom (CreateMetric ''iflat_uprobe_avg_latency1_us'') of
        Some e \<Rightarrow> Inl [''failed to create avg_latency1_us gauge: '' @ e]
      | None \<Rightarrow>
          (case prom (RegisterMetric ''iflat_uprobe_avg_latency1_us'') of
             Some e \<Rightarrow> Inl [''failed to register avg_latency1_us gauge: '' @ e]
           | None \<Rightarrow>
               (case prom (CreateMetric ''iflat_uprobe_avg_latency2_us'') of
                  Some e \<Rightarrow> Inl [''failed to create avg_latency2_us gauge: '' @ e]
                | None \<Rightarrow>
                    (case prom (RegisterMetric ''iflat_uprobe_avg_latency2_us'') of
                       Some e \<Rightarrow> Inl [''failed to register avg_latency2_us gauge: '' @ e]
                     | None \<Rightarrow> Inr (0, 0)))))"

definition ifu_set_metrics_registry :: "prom \<Rightarrow> IflatUprobeProgram \<Rightarrow> unit result \<times> IflatUprobeProgram" where
  "ifu_set_metrics_registry prom p =
     (case ifu_metrics_new prom of
        Inl e \<Rightarrow> (Inl e, p)
      | Inr g \<Rightarrow> (Inr (), p\<lparr>ifu_metrics := Some g\<rparr>))"

definition ifu_configure ::
  "EbpfProgramConfig \<Rightarrow> IflatUprobeProgram \<Rightarrow> unit result \<times> IflatUprobeProgram" where
  "ifu_configure config p =
     (case parse_iface_setting config ''rx1_iface'' of
        Inl e \<Rightarrow> (Inl e, p)
      | Inr rx1 \<Rightarrow>
          (case parse_iface_setting config ''rx2_iface'' of
             Inl e \<Rightarrow> (Inl e, p)
           | Inr rx2 \<Rightarrow>
               (let target = unwrap_or (parse_string_setting config ''target'') [];
                    symbol = unwrap_or (parse_string_setting config ''symbol'') [];
                    p = p\<lparr>ifu_target := target, ifu_symbol := symbol,
                          ifu_offset := parse_offset config, ifu_pid := parse_pid config,
                          ifu_arg_index := parse_arg_index config,
                          ifu_payload_ptr_offset := parse_payload_ptr_offset config,
                          ifu_tag_offset := parse_tag_offset config\<rparr>
                in case (rx1, rx2) of
                     (Some i1, Some i2) \<Rightarrow>
                       if target \<noteq> [] \<and> symbol \<noteq> []
                       then (Inr (), p\<lparr>rx1_iface := i1, rx2_iface := i2, ifu_enabled := True\<rparr>)
                       else (Inr (), p\<lparr>ifu_enabled := False\<rparr>)
                   | _ \<Rightarrow> (Inr (), p\<lparr>ifu_enabled := False\<rparr>))))"

definition ifu_config_steps :: "IflatUprobeProgram \<Rightarrow> step list" where
  "ifu_config_steps p =
     load_object ''iflat_uprobe''
     @ configure_map ''UPROBE_CONFIG_MAP''
         (WriteUprobeConfig UPROBE_CONFIG_KEY (ifu_arg_index p) (ifu_payload_ptr_offset p) (ifu_tag_offset p))"

definition ifu_attach_steps :: "IflatUprobeProgram \<Rightarrow> step list" where
  "ifu_attach_steps p =
     take_program ''iflat_uprobe_xdp_rx1'' @ attach_xdp ''iflat_uprobe_xdp_rx1'' (rx1_iface p)
     @ take_program ''iflat_uprobe_xdp_rx2'' @ attach_xdp ''iflat_uprobe_xdp_rx2'' (rx2_iface p)
     @ take_program ''iflat_uprobe_fn_call''
     @ attach ''iflat_uprobe_fn_call''
         (Uprobe (ifu_symbol p) (ifu_offset p) (ifu_target p) (pid_scope (ifu_pid p)))"

definition ifu_load ::
  "aya \<Rightarrow> IflatUprobeProgram \<Rightarrow> (unit result \<times> IflatUprobeProgram) \<times> aya_call list" where
  "ifu_load aya p =
     (if \<not> ifu_enabled p then ((Inr (), p), [])
      else
        (case run_steps aya (ifu_config_steps p @ ifu_attach_steps p) of
           (cs, Some e) \<Rightarrow> ((Inl e, p), cs)
         | (cs, None) \<Rightarrow> ((Inr (), p\<lparr>ifu_ebpf := True\<rparr>), cs)))"

definition gauge_us :: "u64 \<Rightarrow> u64 \<Rightarrow> f64" where
  "gauge_us sum_delta count_delta =
     (case avg_latency_us sum_delta count_delta of Some avg_us \<Rightarrow> u64_as_f64 avg_us | None \<Rightarrow> 0)"

fun open_maps :: "aya \<Rightarrow> string list \<Rightarrow> unit result" where
  "open_maps aya [] = Inr ()"
| "open_maps aya (n # ns) =
     (case open_accumulator_map aya n of Inl e \<Rightarrow> Inl e | Inr _ \<Rightarrow> open_maps aya ns)"

definition ifu_display_metrics ::
  "aya \<Rightarrow> lookup \<Rightarrow> IflatUprobeProgram \<Rightarrow> unit result \<times> IflatUprobeProgram" where
  "ifu_display_metrics aya lookup p =
     (if \<not> ifu_enabled p then (Inr (), p)
      else if ifu_metrics p = None then (Inl [''metrics not set for iflat_uprobe program''], p)
      else if \<not> ifu_ebpf p then (Inl [''BPF program not loaded''], p)
      else
        (case open_maps aya [''LATENCY1_SUM'', ''LATENCY1_COUNT'', ''LATENCY2_SUM'', ''LATENCY2_COUNT''] of
           Inl e \<Rightarrow> (Inl e, p)
         | Inr _ \<Rightarrow>
             (let sum1 = unwrap_or (lookup ''LATENCY1_SUM'' ACCUM_KEY) 0;
                  count1 = unwrap_or (lookup ''LATENCY1_COUNT'' ACCUM_KEY) 0;
                  sum2 = unwrap_or (lookup ''LATENCY2_SUM'' ACCUM_KEY) 0;
                  count2 = unwrap_or (lookup ''LATENCY2_COUNT'' ACCUM_KEY) 0;
                  ((sum1_delta, count1_delta), (ls1, lc1)) =
                    latency_deltas (last_sum1 p) (last_count1 p) sum1 count1;
                  ((sum2_delta, count2_delta), (ls2, lc2)) =
                    latency_deltas (last_sum2 p) (last_count2 p) sum2 count2
              in (Inr (), p\<lparr>last_sum1 := ls1, last_count1 := lc1, last_sum2 := ls2, last_count2 := lc2,
                     ifu_metrics := Some (gauge_us sum1_delta count1_delta, gauge_us sum2_delta count2_delta)\<rparr>))))"


section \<open>Properties\<close>

lemma parse_int_setting_cases:
  assumes "P dflt" and "\<And>v x. convert v = Some x \<Longrightarrow> P x"
  shows "P (parse_int_setting config key dflt convert)"
  using assms by (auto simp: parse_int_setting_def split: option.split)

lemma parse_arg_index_range: "1 \<le> parse_arg_index config \<and> parse_arg_index config \<le> 6"
  unfolding parse_arg_index_def
  by (rule parse_int_setting_cases)
    (auto simp: DEFAULT_ARG_INDEX_def Iflat_Uprobe_Ebpf.MAX_ARGS_def split: option.splits if_splits)

lemma ifu_config_no_attach: "\<forall>x\<in>set (ifu_config_steps p). \<forall>c\<in>set (step_calls x). \<not> is_attach c"
  by (simp add: ifu_config_steps_def load_idioms)

text \<open>
  Nothing is attached before the uprobe knows where the tag is: whatever the settings contain,
  every attach call of a load comes after the successful write of the tag location, and the
  location written names one of the six argument registers, so the probe never looks for an
  argument that does not exist.
\<close>

lemma ifu_configured_before_attach:
  assumes "ifu_configure config p = (Inr (), p')" and "ifu_load aya p' = ((r, p''), cs)"
    and "cs = as @ a # bs" and "is_attach a"
  shows "\<exists>c. c = InsertMap ''UPROBE_CONFIG_MAP'' (WriteUprobeConfig UPROBE_CONFIG_KEY
                (ifu_arg_index p') (ifu_payload_ptr_offset p') (ifu_tag_offset p'))
           \<and> c \<in> set as \<and> aya c = None \<and> 1 \<le> ifu_arg_index p' \<and> ifu_arg_index p' \<le> 6"
proof -
  let ?c = "InsertMap ''UPROBE_CONFIG_MAP'' (WriteUprobeConfig UPROBE_CONFIG_KEY
      (ifu_arg_index p') (ifu_payload_ptr_offset p') (ifu_tag_offset p'))"
  have "cs \<noteq> []" using assms(3) by simp
  then obtain r' where run: "run_steps aya (ifu_config_steps p' @ ifu_attach_steps p') = (cs, r')"
    using assms(2) by (auto simp: ifu_load_def split: if_splits prod.splits option.splits)
  have "Must ?c (\<lambda>e. [''failed to configure '' @ ''UPROBE_CONFIG_MAP'' @ '': '' @ e]) \<in> set (ifu_config_steps p')"
    by (simp add: ifu_config_steps_def configure_map_def)
  then have "?c \<in> set as \<and> aya ?c = None"
    by (rule attach_after [OF run ifu_config_no_attach assms(3,4)])
  moreover have "ifu_arg_index p' = parse_arg_index config"
    using assms(1) by (auto simp: ifu_configure_def Let_def split: sum.splits option.splits if_splits)
  ultimately show ?thesis using parse_arg_index_range by simp
qed

definition str_value :: "string \<Rightarrow> toml_value" where
  "str_value s = \<lparr>as_str = Some s, as_integer = None, debug_fmt = s\<rparr>"

definition int_value :: "i64 \<Rightarrow> toml_value" where
  "int_value i = \<lparr>as_str = None, as_integer = Some i, debug_fmt = []\<rparr>"

definition ifu_demo_config :: EbpfProgramConfig where
  "ifu_demo_config = \<lparr>cfg_name = ''iflat_uprobe'', cfg_enabled = True, cfg_settings = Some (map_of
     [(''rx1_iface'', str_value ''eno1''), (''rx2_iface'', str_value ''tun0''),
      (''target'', str_value ''/usr/bin/phy''), (''symbol'', str_value ''submit''),
      (''arg_index'', int_value 9)])\<rparr>"

definition ifu_demo_program :: IflatUprobeProgram where
  "ifu_demo_program = snd (ifu_configure ifu_demo_config ifu_new)"

lemma ifu_demo_program_eq:
  "ifu_configure ifu_demo_config ifu_new = (Inr (), ifu_demo_program)"
  "ifu_demo_program = ifu_new\<lparr>rx1_iface := ''eno1'', rx2_iface := ''tun0'', ifu_target := ''/usr/bin/phy'',
     ifu_symbol := ''submit'', ifu_enabled := True\<rparr>"
  by (simp_all add: ifu_demo_program_def ifu_configure_def ifu_demo_config_def parse_iface_setting_def setting_def
      parse_string_setting_def parse_int_setting_def parse_offset_def parse_pid_def parse_arg_index_def
      parse_payload_ptr_offset_def parse_tag_offset_def str_value_def int_value_def MAX_IFACE_LEN_def
      try_from_i64_def Iflat_Uprobe_Ebpf.MAX_ARGS_def ifu_new_def DEFAULT_ARG_INDEX_def)

lemma ifu_configured_before_attach_witness:
  "\<exists>as bs. snd (ifu_load (\<lambda>_. None) ifu_demo_program) =
       as @ Attach ''iflat_uprobe_xdp_rx1'' (XdpDefault ''eno1'') # bs
     \<and> InsertMap ''UPROBE_CONFIG_MAP'' (WriteUprobeConfig UPROBE_CONFIG_KEY 3 PAYLOAD_PTR_DIRECT 0) \<in> set as"
proof -
  let ?a = "Attach ''iflat_uprobe_xdp_rx1'' (XdpDefault ''eno1'')"
  obtain r p cs where l: "ifu_load (\<lambda>_. None) ifu_demo_program = ((r, p), cs)"
    by (metis prod.collapse)
  then have "?a \<in> set cs"
    by (auto simp: ifu_load_def ifu_demo_program_eq ifu_config_steps_def ifu_attach_steps_def load_idioms)
  then obtain as bs where "cs = as @ ?a # bs" by (metis split_list)
  with ifu_configured_before_attach [OF ifu_demo_program_eq(1) l this] l show ?thesis
    by (auto simp: ifu_demo_program_eq(2) ifu_new_def DEFAULT_ARG_INDEX_def)
qed

text \<open>The activity of the three hooks as the second leg sees it.\<close>

fun leg2_view :: "(packet, packet, call_ctx \<times> u64) sighting \<Rightarrow> (packet, call_ctx, packet \<times> u64) sighting" where
  "leg2_view (First p t) = Neutral (p, t)"
| "leg2_view (Second p t) = First p t"
| "leg2_view (Neutral x) = Second (fst x) (snd x)"

lemma leg2_watch: "leg2.watch K s (map leg2_view es) = leg1.watch K s es"
proof (induction es arbitrary: s)
  case (Cons e es)
  then show ?case by (cases e) simp_all
qed simp

definition interval_avg_us :: "u64 list \<Rightarrow> f64" where
  "interval_avg_us L = (if L = [] then 0 else round_f64 (of_nat (sum_list (map unat L) div length L div 1000)))"

lemma gauge_us_interval:
  assumes "unat ls + sum_list (map unat L) < 2 ^ 64" and "unat lc + length L < 2 ^ 64"
  shows "gauge_us (saturating_sub (ls + sum_list L) ls) (saturating_sub (lc + of_nat (length L)) lc)
           = interval_avg_us L"
proof -
  have "map_option unat (avg_latency_us (saturating_sub (ls + sum_list L) ls)
      (saturating_sub (lc + of_nat (length L)) lc))
      = (if L = [] then None else Some (sum_list (map unat L) div length L div 1000))"
    by (rule iflat_avg.interval_reports [OF assms]) (simp add: latency_deltas_def)
  from f64_of_average [OF this] show ?thesis unfolding gauge_us_def interval_avg_us_def .
qed

text \<open>
  The two gauges show the two legs of the interval: the average, in whole microseconds, of the
  latencies matched between the interfaces and of those matched between the second interface and
  the probed function, zero for a leg without a match, whatever the interleaving of the hooks.
\<close>

lemma ifu_reports_both_legs:
  assumes "ifu_inv K s" and "s' = leg1.watch K s es"
    and "L1 = leg1.latencies K s es" and "L2 = leg2.latencies K s (map leg2_view es)"
    and "last_sum1 p = ifu_total1 s \<and> last_count1 p = ifu_samples1 s"
    and "last_sum2 p = ifu_total2 s \<and> last_count2 p = ifu_samples2 s"
    and "unat (ifu_total1 s) + sum_list (map unat L1) < 2 ^ 64" and "unat (ifu_samples1 s) + length L1 < 2 ^ 64"
    and "unat (ifu_total2 s) + sum_list (map unat L2) < 2 ^ 64" and "unat (ifu_samples2 s) + length L2 < 2 ^ 64"
    and "ifu_enabled p" and "ifu_metrics p \<noteq> None" and "ifu_ebpf p" and "\<And>c. aya c = None"
    and "lookup ''LATENCY1_SUM'' = map_get (LATENCY1_SUM s')" and "lookup ''LATENCY1_COUNT'' = map_get (LATENCY1_COUNT s')"
    and "lookup ''LATENCY2_SUM'' = map_get (LATENCY2_SUM s')" and "lookup ''LATENCY2_COUNT'' = map_get (LATENCY2_COUNT s')"
  shows "\<exists>p'. ifu_display_metrics aya lookup p = (Inr (), p')
       \<and> ifu_metrics p' = Some (interval_avg_us L1, interval_avg_us L2)
       \<and> last_sum1 p' = ifu_total1 s' \<and> last_count1 p' = ifu_samples1 s'
       \<and> last_sum2 p' = ifu_total2 s' \<and> last_count2 p' = ifu_samples2 s'"
proof -
  have key: "ACCUM_KEY = Iflat_Uprobe_Ebpf.ACCUM_KEY" by (simp add: ACCUM_KEY_def Iflat_Uprobe_Ebpf.ACCUM_KEY_def)
  have tot: "ifu_total1 s' = ifu_total1 s + sum_list L1" "ifu_samples1 s' = ifu_samples1 s + of_nat (length L1)"
    using leg1.watch_totals [OF assms(1)] by (simp_all add: assms(2,3))
  have "ifu_total2 s' = ifu_total2 s + sum_list L2" "ifu_samples2 s' = ifu_samples2 s + of_nat (length L2)"
    using leg2.watch_totals [OF assms(1), of "map leg2_view es"] by (simp_all add: assms(2,4) leg2_watch)
  note tot = tot this
  have "ifu_display_metrics aya lookup p = (Inr (), p\<lparr>last_sum1 := ifu_total1 s', last_count1 := ifu_samples1 s',
      last_sum2 := ifu_total2 s', last_count2 := ifu_samples2 s',
      ifu_metrics := Some (gauge_us (saturating_sub (ifu_total1 s') (ifu_total1 s))
          (saturating_sub (ifu_samples1 s') (ifu_samples1 s)),
        gauge_us (saturating_sub (ifu_total2 s') (ifu_total2 s))
          (saturating_sub (ifu_samples2 s') (ifu_samples2 s)))\<rparr>)"
    using assms(5,6,11-18)
    by (simp add: ifu_display_metrics_def open_accumulator_map_def ifu_accum_defs key latency_deltas_def Let_def)
  then show ?thesis
    using gauge_us_interval [OF assms(7,8)] gauge_us_interval [OF assms(9,10)] by (simp add: tot)
qed

definition ifu_demo_journey :: "(packet, packet, call_ctx \<times> u64) sighting list" where
  "ifu_demo_journey =
     [First (demo_eth @ datagram demo_ip demo_udp demo_payload) 1000,
      Second (datagram demo_ip_nat demo_udp_nat demo_payload) 43000,
      Neutral (ifu_demo_call, 60000)]"

lemma ifu_demo_journey_latencies:
  "leg1.latencies ref_kernel ifu_demo ifu_demo_journey = [42000]"
  "leg2.latencies ref_kernel ifu_demo (map leg2_view ifu_demo_journey) = [17000]"
proof -
  let ?s1 = "ifu_rx1 ref_kernel ifu_demo (demo_eth @ datagram demo_ip demo_udp demo_payload) 1000"
  let ?p = "datagram demo_ip_nat demo_udp_nat demo_payload"
  show "leg1.latencies ref_kernel ifu_demo ifu_demo_journey = [42000]"
    using leg1.first_exact [OF ifu_demo_ok(1,3,2), of 1000]
    by (simp add: ifu_demo_journey_def ifu_demo_ok saturating_sub_def)
  have inv: "ifu_inv ref_kernel ?s1" by (intro ifu_inv_rx1 ifu_demo_ok)
  have conf: "UPROBE_CONFIG_MAP ?s1 = UPROBE_CONFIG_MAP ifu_demo" and T2: "TIMESTAMP2_MAP ?s1 = []"
    by (simp_all add: ifu_rx1_eq ifu_demo_ok(3) ifu_demo_def ifu_maps_init_def)
  have "ifu_room2 ref_kernel ?s1 ?p" by (simp add: ifu_room2_def T2)
  from leg2.first_exact [OF inv ifu_demo_ok(4) this, of 43000]
  have "map_get (TIMESTAMP2_MAP (ifu_rx2 ref_kernel ?s1 ?p 43000)) 0xdeadbeef = Some 43000" by simp
  moreover have "UPROBE_CONFIG_MAP (ifu_rx2 ref_kernel ?s1 ?p 43000) = UPROBE_CONFIG_MAP ifu_demo"
    using conf inv by (simp add: ifu_rx2_eq split: option.split)
  ultimately show "leg2.latencies ref_kernel ifu_demo (map leg2_view ifu_demo_journey) = [17000]"
    using ifu_demo_call_tag by (simp add: ifu_demo_journey_def saturating_sub_def)
qed

definition ifu_lookup :: "ifu_maps \<Rightarrow> lookup" where
  "ifu_lookup s n =
     (if n = ''LATENCY1_SUM'' then map_get (LATENCY1_SUM s)
      else if n = ''LATENCY1_COUNT'' then map_get (LATENCY1_COUNT s)
      else if n = ''LATENCY2_SUM'' then map_get (LATENCY2_SUM s)
      else map_get (LATENCY2_COUNT s))"

lemma ifu_reports_both_legs_witness:
  "\<exists>p'. ifu_display_metrics (\<lambda>_. None) (ifu_lookup (leg1.watch ref_kernel ifu_demo ifu_demo_journey))
       (ifu_demo_program\<lparr>ifu_ebpf := True, ifu_metrics := Some (7, 7)\<rparr>) = (Inr (), p')
     \<and> ifu_metrics p' = Some (42, 17)"
proof -
  have "round_f64 (of_nat 42) = of_nat 42" "round_f64 (of_nat 17) = of_nat 17"
    by (rule round_f64_nat; simp)+
  then have avg: "interval_avg_us [42000] = 42" "interval_avg_us [17000] = 17"
    by (simp_all add: interval_avg_us_def)
  have zero: "ifu_total1 ifu_demo = 0" "ifu_samples1 ifu_demo = 0" "ifu_total2 ifu_demo = 0" "ifu_samples2 ifu_demo = 0"
    by (simp_all add: ifu_demo_def ifu_maps_init_def ifu_accum_defs)
  show ?thesis
    using ifu_reports_both_legs [OF ifu_demo_ok(1) refl refl refl, where es = ifu_demo_journey
        and p = "ifu_demo_program\<lparr>ifu_ebpf := True, ifu_metrics := Some (7, 7)\<rparr>" and aya = "\<lambda>_. None"
        and lookup = "ifu_lookup (leg1.watch ref_kernel ifu_demo ifu_demo_journey)"]
    by (auto simp: ifu_demo_journey_latencies zero avg ifu_demo_program_eq(2) ifu_new_def ifu_lookup_def)
qed

end
