(* ===== verification/Kfree_Reason.thy ===== *)
theory Kfree_Reason
  imports Prelude
begin

text \<open>
  The drop reasons of \<open>kfree_skb\<close> (\<open>src/common/kfree_skb/src/lib.rs\<close>). The enumeration is
  \<open>#[repr(u32)]\<close> with the discriminants \<open>0 .. 127\<close> in order, so a value of it is its discriminant
  and \<open>variants\<close> lists the identifiers at their discriminants. The arms of \<open>reason_name\<close> are the
  association list \<open>reason_arms\<close>, looked up by identifier.

  Shown: the conversion from a raw number inverts the discriminant and clamps everything above
  the enumeration to \<open>Max\<close>; the names are distinct except for one pair.
\<close>

definition variants :: "string list" where
  "variants =
     [''NotSpecified'', ''Consumed'', ''NotSpecifiedReason'', ''NoSocket'', ''SocketClose'',
      ''SocketFilter'', ''SocketRcvbuff'', ''UnixDisconnect'', ''UnixSkipOob'', ''PktTooSmall'',
      ''TcpCsum'', ''UdpCsum'', ''NetfilterDrop'', ''OtherHost'', ''IpCsum'', ''IpInhdr'',
      ''IpRpfilter'', ''UnicastInL2Multicast'', ''XfrmPolicy'', ''IpNoProto'', ''ProtoMem'',
      ''TcpAuthHdr'', ''TcpMd5NotFound'', ''TcpMd5Unexpected'', ''TcpMd5Failure'',
      ''TcpAoNotFound'', ''TcpAoUnexpected'', ''TcpAoKeyNotFound'', ''TcpAoFailure'',
      ''SocketBacklog'', ''TcpFlags'', ''TcpAbortOnData'', ''TcpZeroWindow'', ''TcpOldData'',
      ''TcpOverWindow'', ''TcpOfoMerge'', ''TcpRfc7323Paws'', ''TcpRfc7323PawsAck'',
      ''TcpRfc7323TwPaws'', ''TcpRfc7323Tsecr'', ''TcpListenOverflow'', ''TcpOldSequence'',
      ''TcpInvalidSequence'', ''TcpInvalidEndSequence'', ''TcpInvalidAckSequence'', ''TcpReset'',
      ''TcpInvalidSyn'', ''TcpClose'', ''TcpFastOpen'', ''TcpOldAck'', ''TcpTooOldAck'',
      ''TcpAckUnsentData'', ''TcpOfoQueuePrune'', ''TcpOfoDrop'', ''IpOutNoRoutes'',
      ''BpfCgroupEgress'', ''Ipv6Disabled'', ''NeighCreateFail'', ''NeighFailed'',
      ''NeighQueueFull'', ''NeighDead'', ''NeighHhFillFail'', ''TcEgress'', ''SecurityHook'',
      ''QdiscDrop'', ''QdiscBurstDrop'', ''QdiscOverlimit'', ''QdiscCongested'',
      ''MacvlanBroadcastBacklog'', ''IpvlanMulticastBacklog'', ''Xdp'', ''TcIngress'',
      ''UnhandledProto'', ''SkbCsum'', ''SkbGsoSeg'', ''SkbBadGso'', ''SkbUcopyFault'',
      ''DevHdr'', ''DevReady'', ''FullRing'', ''NoMem'', ''HdrTrunc'', ''TapFilter'',
      ''TapTxFilter'', ''IcmpCsum'', ''InvalidProto'', ''IpInaddrErrors'', ''IpInNoRoutes'',
      ''IpLocalSource'', ''IpInvalidSource'', ''IpLocalnet'', ''IpInvalidDest'', ''PktTooBig'',
      ''DupFrag'', ''FragReasmTimeout'', ''FragTooFar'', ''TcpMinTtl'', ''Ipv6BadExthdr'',
      ''Ipv6TooManyExthdrs'', ''Ipv6NdiscFrag'', ''Ipv6NdiscHopLimit'', ''Ipv6NdiscBadCode'',
      ''Ipv6NdiscBadOptions'', ''Ipv6NdiscNsOtherhost'', ''QueuePurge'', ''TcCookieError'',
      ''PacketSocketError'', ''TcChainNotFound'', ''TcReclassifyLoop'', ''VxlanInvalidHdr'',
      ''VxlanVniNotFound'', ''MacInvalidSource'', ''VxlanEntryExists'', ''NoTxTarget'',
      ''IpTunnelEcn'', ''TunnelTxinfo'', ''LocalMac'', ''ArpPvlanDisable'',
      ''MacIeeeMacControl'', ''BridgeIngressStpState'', ''CanRxInvalidFrame'',
      ''CanfdRxInvalidFrame'', ''CanxlRxInvalidFrame'', ''PmemAlloc'', ''PspInput'',
      ''PspOutput'', ''RecursionLimit'', ''Max'']"

definition reason_arms :: "(string \<times> string) list" where
  "reason_arms =
     [(''NotSpecified'', ''NOT_SPECIFIED''), (''Consumed'', ''CONSUMED''),
      (''NotSpecifiedReason'', ''NOT_SPECIFIED''), (''NoSocket'', ''NO_SOCKET''),
      (''SocketClose'', ''SOCKET_CLOSE''), (''SocketFilter'', ''SOCKET_FILTER''),
      (''SocketRcvbuff'', ''SOCKET_RCVBUFF''), (''UnixDisconnect'', ''UNIX_DISCONNECT''),
      (''UnixSkipOob'', ''UNIX_SKIP_OOB''), (''PktTooSmall'', ''PKT_TOO_SMALL''),
      (''TcpCsum'', ''TCP_CSUM''), (''UdpCsum'', ''UDP_CSUM''),
      (''NetfilterDrop'', ''NETFILTER_DROP''), (''OtherHost'', ''OTHERHOST''),
      (''IpCsum'', ''IP_CSUM''), (''IpInhdr'', ''IP_INHDR''), (''IpRpfilter'', ''IP_RPFILTER''),
      (''UnicastInL2Multicast'', ''UNICAST_IN_L2_MULTICAST''), (''XfrmPolicy'', ''XFRM_POLICY''),
      (''IpNoProto'', ''IP_NOPROTO''), (''ProtoMem'', ''PROTO_MEM''),
      (''TcpAuthHdr'', ''TCP_AUTH_HDR''), (''TcpMd5NotFound'', ''TCP_MD5NOTFOUND''),
      (''TcpMd5Unexpected'', ''TCP_MD5UNEXPECTED''), (''TcpMd5Failure'', ''TCP_MD5FAILURE''),
      (''TcpAoNotFound'', ''TCP_AONOTFOUND''), (''TcpAoUnexpected'', ''TCP_AOUNEXPECTED''),
      (''TcpAoKeyNotFound'', ''TCP_AOKEYNOTFOUND''), (''TcpAoFailure'', ''TCP_AOFAILURE''),
      (''SocketBacklog'', ''SOCKET_BACKLOG''), (''TcpFlags'', ''TCP_FLAGS''),
      (''TcpAbortOnData'', ''TCP_ABORT_ON_DATA''), (''TcpZeroWindow'', ''TCP_ZEROWINDOW''),
      (''TcpOldData'', ''TCP_OLD_DATA''), (''TcpOverWindow'', ''TCP_OVERWINDOW''),
      (''TcpOfoMerge'', ''TCP_OFOMERGE''), (''TcpRfc7323Paws'', ''TCP_RFC7323_PAWS''),
      (''TcpRfc7323PawsAck'', ''TCP_RFC7323_PAWS_ACK''),
      (''TcpRfc7323TwPaws'', ''TCP_RFC7323_TW_PAWS''),
      (''TcpRfc7323Tsecr'', ''TCP_RFC7323_TSECR''),
      (''TcpListenOverflow'', ''TCP_LISTEN_OVERFLOW''),
      (''TcpOldSequence'', ''TCP_OLD_SEQUENCE''),
      (''TcpInvalidSequence'', ''TCP_INVALID_SEQUENCE''),
      (''TcpInvalidEndSequence'', ''TCP_INVALID_END_SEQUENCE''),
      (''TcpInvalidAckSequence'', ''TCP_INVALID_ACK_SEQUENCE''), (''TcpReset'', ''TCP_RESET''),
      (''TcpInvalidSyn'', ''TCP_INVALID_SYN''), (''TcpClose'', ''TCP_CLOSE''),
      (''TcpFastOpen'', ''TCP_FASTOPEN''), (''TcpOldAck'', ''TCP_OLD_ACK''),
      (''TcpTooOldAck'', ''TCP_TOO_OLD_ACK''), (''TcpAckUnsentData'', ''TCP_ACK_UNSENT_DATA''),
      (''TcpOfoQueuePrune'', ''TCP_OFO_QUEUE_PRUNE''), (''TcpOfoDrop'', ''TCP_OFO_DROP''),
      (''IpOutNoRoutes'', ''IP_OUTNOROUTES''), (''BpfCgroupEgress'', ''BPF_CGROUP_EGRESS''),
      (''Ipv6Disabled'', ''IPV6DISABLED''), (''NeighCreateFail'', ''NEIGH_CREATEFAIL''),
      (''NeighFailed'', ''NEIGH_FAILED''), (''NeighQueueFull'', ''NEIGH_QUEUEFULL''),
      (''NeighDead'', ''NEIGH_DEAD''), (''NeighHhFillFail'', ''NEIGH_HH_FILLFAIL''),
      (''TcEgress'', ''TC_EGRESS''), (''SecurityHook'', ''SECURITY_HOOK''),
      (''QdiscDrop'', ''QDISC_DROP''), (''QdiscBurstDrop'', ''QDISC_BURST_DROP''),
      (''QdiscOverlimit'', ''QDISC_OVERLIMIT''), (''QdiscCongested'', ''QDISC_CONGESTED''),
      (''MacvlanBroadcastBacklog'', ''MACVLAN_BROADCAST_BACKLOG''),
      (''IpvlanMulticastBacklog'', ''IPVLAN_MULTICAST_BACKLOG''), (''Xdp'', ''XDP''),
      (''TcIngress'', ''TC_INGRESS''), (''UnhandledProto'', ''UNHANDLED_PROTO''),
      (''SkbCsum'', ''SKB_CSUM''), (''SkbGsoSeg'', ''SKB_GSO_SEG''),
      (''SkbBadGso'', ''SKB_BAD_GSO''), (''SkbUcopyFault'', ''SKB_UCOPY_FAULT''),
      (''DevHdr'', ''DEV_HDR''), (''DevReady'', ''DEV_READY''), (''FullRing'', ''FULL_RING''),
      (''NoMem'', ''NOMEM''), (''HdrTrunc'', ''HDR_TRUNC''), (''TapFilter'', ''TAP_FILTER''),
      (''TapTxFilter'', ''TAP_TXFILTER''), (''IcmpCsum'', ''ICMP_CSUM''),
      (''InvalidProto'', ''INVALID_PROTO''), (''IpInaddrErrors'', ''IP_INADDRERRORS''),
      (''IpInNoRoutes'', ''IP_INNOROUTES''), (''IpLocalSource'', ''IP_LOCAL_SOURCE''),
      (''IpInvalidSource'', ''IP_INVALID_SOURCE''), (''IpLocalnet'', ''IP_LOCALNET''),
      (''IpInvalidDest'', ''IP_INVALID_DEST''), (''PktTooBig'', ''PKT_TOO_BIG''),
      (''DupFrag'', ''DUP_FRAG''), (''FragReasmTimeout'', ''FRAG_REASM_TIMEOUT''),
      (''FragTooFar'', ''FRAG_TOO_FAR''), (''TcpMinTtl'', ''TCP_MINTTL''),
      (''Ipv6BadExthdr'', ''IPV6_BAD_EXTHDR''),
      (''Ipv6TooManyExthdrs'', ''IPV6_TOO_MANY_EXTHDRS''),
      (''Ipv6NdiscFrag'', ''IPV6_NDISC_FRAG''),
      (''Ipv6NdiscHopLimit'', ''IPV6_NDISC_HOP_LIMIT''),
      (''Ipv6NdiscBadCode'', ''IPV6_NDISC_BAD_CODE''),
      (''Ipv6NdiscBadOptions'', ''IPV6_NDISC_BAD_OPTIONS''),
      (''Ipv6NdiscNsOtherhost'', ''IPV6_NDISC_NS_OTHERHOST''), (''QueuePurge'', ''QUEUE_PURGE''),
      (''TcCookieError'', ''TC_COOKIE_ERROR''), (''PacketSocketError'', ''PACKET_SOCK_ERROR''),
      (''TcChainNotFound'', ''TC_CHAIN_NOTFOUND''),
      (''TcReclassifyLoop'', ''TC_RECLASSIFY_LOOP''),
      (''VxlanInvalidHdr'', ''VXLAN_INVALID_HDR''),
      (''VxlanVniNotFound'', ''VXLAN_VNI_NOT_FOUND''),
      (''MacInvalidSource'', ''MAC_INVALID_SOURCE''),
      (''VxlanEntryExists'', ''VXLAN_ENTRY_EXISTS''), (''NoTxTarget'', ''NO_TX_TARGET''),
      (''IpTunnelEcn'', ''IP_TUNNEL_ECN''), (''TunnelTxinfo'', ''TUNNEL_TXINFO''),
      (''LocalMac'', ''LOCAL_MAC''), (''ArpPvlanDisable'', ''ARP_PVLAN_DISABLE''),
      (''MacIeeeMacControl'', ''MAC_IEEE_MAC_CONTROL''),
      (''BridgeIngressStpState'', ''BRIDGE_INGRESS_STP_STATE''),
      (''CanRxInvalidFrame'', ''CAN_RX_INVALID_FRAME''),
      (''CanfdRxInvalidFrame'', ''CANFD_RX_INVALID_FRAME''),
      (''CanxlRxInvalidFrame'', ''CANXL_RX_INVALID_FRAME''), (''PmemAlloc'', ''PFMEMALLOC''),
      (''PspInput'', ''PSP_INPUT''), (''PspOutput'', ''PSP_OUTPUT''),
      (''RecursionLimit'', ''RECURSION_LIMIT''), (''Max'', ''MAX'')]"

lemma length_variants [simp]: "length variants = 128"
  by (simp add: variants_def)

typedef SkbDropReason = "{n. n < length variants}"
  morphisms discriminant Variant
  by (rule exI [of _ 0]) simp

setup_lifting type_definition_SkbDropReason

lift_definition from_u32 :: "u32 \<Rightarrow> SkbDropReason" is
  "\<lambda>val. if unat val < length variants then unat val else 127"
  by simp

text \<open>The derived \<open>PartialEq\<close>: variants are equal when their discriminants are.\<close>

instantiation SkbDropReason :: equal
begin

definition equal_SkbDropReason :: "SkbDropReason \<Rightarrow> SkbDropReason \<Rightarrow> bool" where
  "equal_SkbDropReason r r' \<longleftrightarrow> discriminant r = discriminant r'"

instance
  by standard (simp add: equal_SkbDropReason_def discriminant_inject)

end

definition reason_name :: "SkbDropReason \<Rightarrow> string" where
  "reason_name r = snd (reason_arms ! discriminant r)"

text \<open>The arm at a discriminant is the arm of the variant with that discriminant.\<close>

lemma reason_arms_complete: "map fst reason_arms = variants"
  by (simp add: reason_arms_def variants_def)

lemma length_reason_arms [simp]: "length reason_arms = 128"
  using arg_cong [OF reason_arms_complete, of length] by simp

lemma discriminant_less [simp]: "discriminant r < 128"
  using discriminant [of r] by simp

lemma discriminant_from_u32: "discriminant (from_u32 v) = min (unat v) 127"
  by transfer simp

lemma from_u32_discriminant [simp]: "from_u32 (of_nat (discriminant r)) = r"
proof -
  have "unat (of_nat (discriminant r) :: u32) = discriminant r"
    using less_trans [OF discriminant_less [of r], of "2 ^ 32"] by (simp add: unat_of_nat)
  moreover have "min (discriminant r) 127 = discriminant r"
    using discriminant_less [of r] by linarith
  ultimately show ?thesis by (simp add: discriminant_from_u32 flip: discriminant_inject)
qed

definition names :: "string list" where
  "names = map snd reason_arms"

lemma length_names [simp]: "length names = 128"
  by (simp add: names_def)

text \<open>A hash under which the names differ, so that distinctness is a fact about numbers.\<close>

definition name_hash :: "string \<Rightarrow> int" where
  "name_hash s = foldl (\<lambda>h c. (h * 7 + of_char c) mod 1144) 0 s"

lemma name_hashes:
  "map name_hash (tl names) =
     [840, 428, 1081, 140, 972, 164, 131, 9, 1014, 174, 998, 673, 640, 288, 361, 278, 657, 1040,
      911, 726, 1117, 399, 857, 178, 723, 717, 602, 878, 929, 505, 245, 230, 728, 658, 430, 142,
      880, 488, 988, 468, 999, 607, 171, 45, 329, 378, 922, 708, 443, 672, 364, 551, 1044, 25,
      89, 747, 326, 1113, 828, 368, 340, 237, 714, 952, 15, 846, 183, 466, 81, 292, 1069, 420,
      357, 276, 100, 536, 436, 833, 192, 204, 147, 356, 704, 450, 344, 865, 584, 151, 867, 2,
      570, 951, 1050, 397, 143, 184, 559, 73, 446, 537, 739, 64, 946, 93, 813, 1116, 773, 460,
      398, 416, 771, 1, 550, 353, 521, 915, 180, 802, 217, 667, 933, 1055, 990, 576, 491, 54, 884]"
  by code_simp

lemma distinct_names: "distinct (tl names)"
proof -
  have "distinct (map name_hash (tl names))"
    unfolding name_hashes by simp
  then show ?thesis by (simp add: distinct_map)
qed

lemma names_0_2: "names ! 0 = names ! 2"
  by (simp add: names_def reason_arms_def)

lemma reason_name_eq: "reason_name r = names ! discriminant r"
  by (simp add: reason_name_def names_def)

lemma names_inject:
  assumes "0 < i" and "i < 128" and "0 < j" and "j < 128"
  shows "names ! i = names ! j \<longleftrightarrow> i = j"
proof -
  have "names ! i = tl names ! (i - 1)" and "names ! j = tl names ! (j - 1)"
    using assms by (simp_all add: nth_tl)
  then show ?thesis
    using nth_eq_iff_index_eq [OF distinct_names, of "i - 1" "j - 1"] assms by auto
qed

lemma reason_name_inject:
  "reason_name r = reason_name r' \<longleftrightarrow>
     discriminant r = discriminant r' \<or> {discriminant r, discriminant r'} = {0, 2}"
proof -
  have zero: "names ! 0 = names ! j \<longleftrightarrow> j = 0 \<or> j = 2" if "j < 128" for j
    using names_inject [of 2 j] that by (cases "j = 0") (auto simp: names_0_2)
  have main: "names ! i = names ! j \<longleftrightarrow> i = j \<or> {i, j} = {0, 2}" if "i < 128" "j < 128" for i j
  proof (cases "i = 0 \<or> j = 0")
    case True
    then show ?thesis using zero [OF that(1)] zero [OF that(2)] by (auto simp: doubleton_eq_iff)
  next
    case False
    then show ?thesis using names_inject [of i j] that by (auto simp: doubleton_eq_iff)
  qed
  show ?thesis unfolding reason_name_eq by (rule main) simp_all
qed

text \<open>
  The conversion of a raw drop reason is a left inverse of the discriminant and total: it
  clamps every number above the enumeration to the last variant.
\<close>

lemma kfree_reason_roundtrip:
  "from_u32 (of_nat (discriminant r)) = r \<and> discriminant (from_u32 v) = min (unat v) 127"
  by (simp add: discriminant_from_u32)

text \<open>
  The label of a drop reason identifies it, except that the variants 0 and 2 share the name
  \<open>NOT_SPECIFIED\<close>.
\<close>

lemma kfree_reason_names:
  "reason_name r = reason_name r' \<longleftrightarrow>
     r = r' \<or> {discriminant r, discriminant r'} = {0, 2}"
  by (simp add: reason_name_inject discriminant_inject)

end
