(* ===== verification/Kfree_User.thy ===== *)
theory Kfree_User
  imports Kfree_Reason Aya
begin

text \<open>
  The userspace side of \<open>kfree_skb\<close> (\<open>src/bpfagent/src/programs/kfree_skb/mod.rs\<close>): the cumulative
  drop counts of the kernel become, per drop reason, a rate over the last ten seconds. An
  \<open>Instant\<close> is its distance from the start of the clock in nanoseconds, a \<open>VecDeque\<close> the list of
  its elements from front to back.

  Shown: over any sequence of displays the rate of a reason is what its counter gained since the
  last display older than the window, divided by ten seconds; and what happens to the total when
  the drops cease.
\<close>

definition RATE_WINDOW :: nat where "RATE_WINDOW = 10 * 10 ^ 9"

type_synonym window = "(nat \<times> u64) list"

record KfreeSkbMetrics =
  total_drops_per_sec :: "f64 family"
  drops_per_sec :: "((string \<times> string) \<times> f64) list"

record KfreeSkbProgram =
  kf_name :: string
  kf_ebpf :: bool
  kf_metrics :: "KfreeSkbMetrics option"
  kf_last_counts :: "(u32 \<times> u64) list"
  delta_windows :: "(u32 \<times> window) list"

definition kfree_new :: KfreeSkbProgram where
  "kfree_new = \<lparr>kf_name = ''kfree_skb'', kf_ebpf = False, kf_metrics = None, kf_last_counts = [], delta_windows = []\<rparr>"

definition kfree_metrics_new :: "prom \<Rightarrow> KfreeSkbMetrics result" where
  "kfree_metrics_new prom =
     (case prom (CreateMetric ''kfree_skb_total_drops_per_sec'') of
        Some e \<Rightarrow> Inl [''failed to create total_drops_per_sec gauge'', e]
      | None \<Rightarrow>
          (case prom (RegisterMetric ''kfree_skb_total_drops_per_sec'') of
             Some e \<Rightarrow> Inl [''failed to register total_drops_per_sec gauge'', e]
           | None \<Rightarrow>
               (case prom (CreateMetric ''kfree_skb_drops_per_sec'') of
                  Some e \<Rightarrow> Inl [''failed to create drops_per_sec gauge'', e]
                | None \<Rightarrow>
                    (case prom (RegisterMetric ''kfree_skb_drops_per_sec'') of
                       Some e \<Rightarrow> Inl [''failed to register drops_per_sec gauge'', e]
                     | None \<Rightarrow> Inr \<lparr>total_drops_per_sec = [], drops_per_sec = []\<rparr>))))"

definition kfree_set_metrics_registry :: "prom \<Rightarrow> KfreeSkbProgram \<Rightarrow> unit result \<times> KfreeSkbProgram" where
  "kfree_set_metrics_registry prom p =
     (case kfree_metrics_new prom of
        Inl e \<Rightarrow> (Inl e, p)
      | Inr m \<Rightarrow> (Inr (), p\<lparr>kf_metrics := Some m\<rparr>))"

definition kfree_load :: "aya \<Rightarrow> KfreeSkbProgram \<Rightarrow> (unit result \<times> KfreeSkbProgram) \<times> aya_call list" where
  "kfree_load aya p =
     (case run_steps aya
             (load_object ''kfree_skb''
              @ [Must (FindProgram ''kfree_skb'') (\<lambda>_. [''program '' @ [CHR 0x27] @ ''kfree_skb'' @ [CHR 0x27] @ '' not found'']),
                 Must (CastProgram ''kfree_skb'') (\<lambda>e. [''failed to convert to TracePoint: '' @ e]),
                 Must (LoadProgram ''kfree_skb'') (\<lambda>e. [e])]
              @ attach ''kfree_skb'' (Tracepoint ''skb'' ''kfree_skb'')) of
        (cs, Some e) \<Rightarrow> ((Inl e, p), cs)
      | (cs, None) \<Rightarrow> ((Inr (), p\<lparr>kf_ebpf := True\<rparr>), cs))"

definition counter_delta :: "(u32 \<times> u64) list \<Rightarrow> u32 \<Rightarrow> u64 \<Rightarrow> u64 \<times> (u32 \<times> u64) list" where
  "counter_delta last_counts reason count =
     (let prev = unwrap_or (map_of last_counts reason) 0
      in (saturating_sub count prev, AList.update reason count last_counts))"

text \<open>\<open>duration_since\<close> saturates at zero, as the subtraction of natural numbers does.\<close>

fun evict :: "nat \<Rightarrow> window \<Rightarrow> window" where
  "evict now [] = []"
| "evict now ((t, d) # window) = (if now - t > RATE_WINDOW then evict now window else (t, d) # window)"

definition update_window :: "window \<Rightarrow> nat \<Rightarrow> u64 \<Rightarrow> u64 \<times> window" where
  "update_window window now delta =
     (let window = (if delta > 0 then window @ [(now, delta)] else window);
          window = evict now window
      in (sum_list (map snd window), window))"

definition rate_of :: "u64 \<Rightarrow> f64" where
  "rate_of s = round_f64 (u64_as_f64 s / 10)"

text \<open>Reading the map: an error anywhere ends the display before anything has changed.\<close>

fun collect_counts :: "(u32, u64) entries \<Rightarrow> (u32 \<times> string \<times> u64) list result" where
  "collect_counts [] = Inr []"
| "collect_counts (Inl e # es) = Inl [e]"
| "collect_counts (Inr (reason, count) # es) =
     (case collect_counts es of
        Inl e \<Rightarrow> Inl e
      | Inr all_counts \<Rightarrow> Inr ((reason, reason_name (from_u32 reason), count) # all_counts))"

type_synonym row = "u32 \<times> string \<times> f64"

fun report_counts ::
  "nat \<Rightarrow> (u32 \<times> string \<times> u64) list \<Rightarrow> KfreeSkbMetrics \<times> (u32 \<times> u64) list \<times> (u32 \<times> window) list
     \<Rightarrow> row list \<times> KfreeSkbMetrics \<times> (u32 \<times> u64) list \<times> (u32 \<times> window) list" where
  "report_counts now [] (metrics, last_counts, windows) = ([], metrics, last_counts, windows)"
| "report_counts now ((reason, name, count) # rest) (metrics, last_counts, windows) =
     (let (delta, last_counts) = counter_delta last_counts reason count;
          (s, window) = update_window (unwrap_or (map_of windows reason) []) now delta
      in if s = 0
         then report_counts now rest
                (metrics\<lparr>drops_per_sec := AList.delete (to_string reason, name) (drops_per_sec metrics)\<rparr>,
                 last_counts, AList.delete reason windows)
         else
           (let rate = rate_of s;
                metrics = metrics\<lparr>drops_per_sec := AList.update (to_string reason, name) rate (drops_per_sec metrics)\<rparr>;
                (rows, st) = report_counts now rest (metrics, last_counts, AList.update reason window windows)
            in ((reason, name, rate) # rows, st)))"

definition total_rate :: "row list \<Rightarrow> f64" where
  "total_rate rows = foldl (\<lambda>acc (_, _, r). round_f64 (acc + r)) 0 rows"

definition kfree_display_metrics ::
  "aya \<Rightarrow> nat \<Rightarrow> (u32, u64) entries \<Rightarrow> KfreeSkbProgram \<Rightarrow> unit result \<times> KfreeSkbProgram" where
  "kfree_display_metrics aya now entries p =
     (case kf_metrics p of
        None \<Rightarrow> (Inl [''metrics not set for kfree_skb program''], p)
      | Some metrics \<Rightarrow>
          if \<not> kf_ebpf p then (Inl [''BPF program not loaded''], p)
          else
            (case aya (FindMap ''DROP_COUNTS'') of
               Some _ \<Rightarrow> (Inl [''DROP_COUNTS map not found''], p)
             | None \<Rightarrow>
                 (case aya (OpenMap ''DROP_COUNTS'') of
                    Some e \<Rightarrow> (Inl [''failed to get DROP_COUNTS map'', e], p)
                  | None \<Rightarrow>
                      (case collect_counts entries of
                         Inl e \<Rightarrow> (Inl e, p)
                       | Inr all_counts \<Rightarrow>
                           (let (rows, metrics, last_counts, windows) =
                                  report_counts now all_counts (metrics, kf_last_counts p, delta_windows p);
                                rows = sort_key (\<lambda>(_, _, r). - r) rows;
                                metrics = (if rows = [] then metrics
                                           else metrics\<lparr>total_drops_per_sec :=
                                             AList.update ''all'' (total_rate rows) (total_drops_per_sec metrics)\<rparr>)
                            in (Inr (), p\<lparr>kf_metrics := Some metrics, kf_last_counts := last_counts,
                                  delta_windows := windows\<rparr>))))))"


section \<open>One reason\<close>

text \<open>
  What the display does to one reason: its last count, its window (an absent one counts as empty)
  and its exported series. The entries of other reasons do not touch it.
\<close>

type_synonym kf_state = "KfreeSkbMetrics \<times> (u32 \<times> u64) list \<times> (u32 \<times> window) list"
type_synonym kf_view = "u64 \<times> window \<times> f64 option"

definition series :: "u32 \<Rightarrow> string \<times> string" where
  "series r = (to_string r, reason_name (from_u32 r))"

definition kf_view :: "u32 \<Rightarrow> kf_state \<Rightarrow> kf_view" where
  "kf_view r st = (case st of (m, lc, ws) \<Rightarrow>
     (unwrap_or (map_of lc r) 0, unwrap_or (map_of ws r) [], map_of (drops_per_sec m) (series r)))"

definition kf_step :: "nat \<Rightarrow> u64 \<Rightarrow> kf_view \<Rightarrow> kf_view" where
  "kf_step now c v = (case v of (l, w, _) \<Rightarrow>
     let (s, w') = update_window w now (saturating_sub c l)
     in if s = 0 then (c, [], None) else (c, w', Some (rate_of s)))"

lemma series_inject [simp]: "series r = series q \<longleftrightarrow> r = q"
  by (auto simp: series_def)

definition named :: "(u32 \<times> u64) list \<Rightarrow> (u32 \<times> string \<times> u64) list" where
  "named es = map (\<lambda>(r, c). (r, reason_name (from_u32 r), c)) es"

lemma collect_counts_Inr: "collect_counts (map Inr es) = Inr (named es)"
  by (induction es) (auto simp: named_def)

definition kf_entry :: "nat \<Rightarrow> u32 \<times> u64 \<Rightarrow> kf_state \<Rightarrow> kf_state" where
  "kf_entry now e st = snd (report_counts now (named [e]) st)"

lemma report_counts_Cons: "snd (report_counts now (named (e # es)) st) = snd (report_counts now (named es) (kf_entry now e st))"
  by (cases e; cases st) (simp add: named_def kf_entry_def Let_def split: prod.split)

lemma kf_view_entry:
  "kf_view r (kf_entry now (q, c) st) = (if r = q then kf_step now c (kf_view r st) else kf_view r st)"
proof -
  obtain m lc ws where [simp]: "st = (m, lc, ws)" by (cases st)
  obtain s w where u: "update_window (unwrap_or (map_of ws q) []) now (saturating_sub c (unwrap_or (map_of lc q) 0)) = (s, w)"
    by (cases "update_window (unwrap_or (map_of ws q) []) now (saturating_sub c (unwrap_or (map_of lc q) 0))")
  have [simp]: "(to_string q, reason_name (from_u32 q)) = series q" by (simp add: series_def)
  show ?thesis
    by (simp add: kf_entry_def named_def kf_view_def kf_step_def counter_delta_def u map_ops Let_def)
qed

lemma report_counts_view:
  assumes "distinct (keys es)"
  shows "kf_view r (snd (report_counts now (named es) st)) =
     (case map_of es r of None \<Rightarrow> kf_view r st | Some c \<Rightarrow> kf_step now c (kf_view r st))"
  using assms
proof (induction es arbitrary: st)
  case Nil
  then show ?case by (cases st) (simp add: named_def)
next
  case (Cons e es)
  obtain q c where [simp]: "e = (q, c)" by (cases e)
  have d: "distinct (keys es)" "q = r \<Longrightarrow> map_of es r = None"
    using Cons.prems by (auto simp: keys_def map_of_eq_None_iff)
  show ?case using Cons.IH [OF d(1)] d(2) by (auto simp: report_counts_Cons kf_view_entry split: option.split)
qed


section \<open>The window as a difference of counts\<close>

fun deltas :: "u64 \<Rightarrow> (nat \<times> u64) list \<Rightarrow> window" where
  "deltas prev [] = []"
| "deltas prev ((t, c) # h) = (t, saturating_sub c prev) # deltas c h"

fun baseline :: "nat \<Rightarrow> u64 \<Rightarrow> (nat \<times> u64) list \<Rightarrow> u64" where
  "baseline now prev [] = prev"
| "baseline now prev ((t, c) # h) = (if now - t > RATE_WINDOW then baseline now c h else prev)"

definition recent :: "nat \<Rightarrow> window \<Rightarrow> window" where
  "recent now w = filter (\<lambda>(t, d). 0 < d \<and> now - t \<le> RATE_WINDOW) w"

lemma evict_filter: "sorted (map fst w) \<Longrightarrow> evict now w = filter (\<lambda>(t, d). now - t \<le> RATE_WINDOW) w"
proof (induction w)
  case (Cons x w)
  obtain t d where [simp]: "x = (t, d)" by (cases x)
  show ?case
  proof (cases "now - t > RATE_WINDOW")
    case False
    then have "\<forall>(t', d)\<in>set w. now - t' \<le> RATE_WINDOW"
      using Cons.prems by (fastforce simp: not_less)
    then have "filter (\<lambda>(t, d). now - t \<le> RATE_WINDOW) w = w" by (simp add: filter_id_conv)
    then show ?thesis using False by simp
  qed (use Cons in simp)
qed simp

lemma deltas_snoc: "deltas prev (h @ [(t, c)]) = deltas prev h @ [(t, saturating_sub c (last (prev # map snd h)))]"
  by (induction prev h rule: deltas.induct) auto

lemma map_fst_deltas: "map fst (deltas prev h) = map fst h"
  by (induction prev h rule: deltas.induct) auto

lemma sorted_le_last: "sorted (x # xs) \<Longrightarrow> x \<le> last (x # xs)"
  by (cases xs rule: rev_cases) auto

lemma all_recent:
  assumes "sorted (prev # map snd h)" and "\<forall>(t, c)\<in>set h. now - t \<le> RATE_WINDOW"
  shows "sum_list (map snd (recent now (deltas prev h))) = last (prev # map snd h) - prev"
    and "last (prev # map snd h) = prev \<Longrightarrow> recent now (deltas prev h) = []"
  using assms
proof (atomize (full), induction prev h rule: deltas.induct)
  case (2 prev t c h)
  then have "prev \<le> c" and "c \<le> last (c # map snd h)" and "0 < saturating_sub c prev \<longleftrightarrow> prev \<noteq> c"
    using sorted_le_last [of c "map snd h"] by (auto simp: saturating_sub_def word_neq_0_conv [symmetric])
  then show ?case using 2
    by (auto simp: recent_def saturating_sub_def split: if_splits)
qed (simp add: recent_def)

lemma recent_sum:
  assumes "sorted (prev # map snd h)" and "sorted (map fst h)"
  shows "sum_list (map snd (recent now (deltas prev h))) = last (prev # map snd h) - baseline now prev h"
    and "last (prev # map snd h) = baseline now prev h \<Longrightarrow> recent now (deltas prev h) = []"
  using assms
proof (atomize (full), induction now prev h rule: baseline.induct)
  case (2 now prev t c h)
  show ?case
  proof (cases "now - t > RATE_WINDOW")
    case True
    then show ?thesis using 2 by (simp add: recent_def)
  next
    case False
    then have "\<forall>(t, c)\<in>set ((t, c) # h). now - t \<le> RATE_WINDOW"
      using 2(3) by (fastforce simp: not_less)
    from all_recent [OF _ this] False 2 show ?thesis by simp
  qed
qed (simp add: recent_def)


section \<open>Rows and total\<close>

lemma sort_key_Nil [simp]: "sort_key f xs = [] \<longleftrightarrow> xs = []"
  by (metis length_0_conv length_sort)

lemma report_counts_total: "total_drops_per_sec (fst (snd (report_counts now cs st))) = total_drops_per_sec (fst st)"
  by (induction now cs st rule: report_counts.induct) (auto simp: Let_def split: prod.split)

lemma report_counts_rows:
  assumes "distinct (keys es)" and "fst (report_counts now (named es) st) \<noteq> []"
  shows "\<exists>q\<in>set (keys es). snd (snd (kf_view q (snd (report_counts now (named es) st)))) \<noteq> None"
  using assms
proof (induction es arbitrary: st)
  case Nil
  then show ?case by (cases st) (simp add: named_def)
next
  case (Cons e es)
  obtain q c m lc ws where [simp]: "e = (q, c)" "st = (m, lc, ws)" by (cases e; cases st)
  have d: "distinct (keys es)" "map_of es q = None" using Cons.prems(1) by (auto simp: keys_def map_of_eq_None_iff)
  have q: "snd (snd (kf_view q (snd (report_counts now (named (e # es)) st)))) = snd (snd (kf_step now c (kf_view q st)))"
    by (simp add: report_counts_Cons report_counts_view [OF d(1)] kf_view_entry d(2))
  show ?case
  proof (cases "snd (snd (kf_step now c (kf_view q st))) = None")
    case True
    then have "fst (report_counts now (named (e # es)) st) = fst (report_counts now (named es) (kf_entry now e st))"
      by (auto simp: kf_step_def kf_view_def kf_entry_def named_def counter_delta_def Let_def split: prod.splits if_splits)
    then show ?thesis using Cons.IH [OF d(1)] Cons.prems(2) by (auto simp: report_counts_Cons keys_def)
  next
    case False
    then show ?thesis using q by (simp add: keys_def)
  qed
qed


section \<open>Sequences of displays\<close>

definition kf_history :: "(nat \<times> u64) list \<Rightarrow> kf_view" where
  "kf_history h = foldl (\<lambda>v (t, c). kf_step t c v) (0, [], None) h"

lemma kf_history_spec:
  assumes "sorted (map fst h)" and "sorted (map snd h)" and "h \<noteq> []" and "(now, c) = last h"
  shows "kf_history h = (c, recent now (deltas 0 h),
           if c = baseline now 0 h then None else Some (rate_of (c - baseline now 0 h)))"
  using assms
proof (induction h arbitrary: now c rule: rev_induct)
  case (snoc x h)
  have [simp]: "x = (now, c)" using snoc.prems(4) by simp
  have times: "sorted (map fst h)" "\<forall>t\<in>fst ` set h. t \<le> now" and counts: "sorted (map snd h)" "\<forall>c'\<in>snd ` set h. c' \<le> c"
    using snoc.prems(1,2) by (auto simp: sorted_append)
  define l where "l = last (0 # map snd h)"
  obtain s0 w0 where h: "kf_history h = (l, w0, s0)"
    "recent now w0 = recent now (deltas 0 h)" "sorted (map fst w0)" "\<forall>t\<in>set (map fst w0). t \<le> now"
      "\<forall>d\<in>set (map snd w0). 0 < d"
  proof (cases "h = []")
    case True
    then show ?thesis using that by (simp add: kf_history_def l_def)
  next
    case False
    then obtain t0 c0 where last: "(t0, c0) = last h" by (cases "last h") auto
    then have t0: "t0 \<le> now" using False times(2) by (metis fst_conv imageI last_in_set)
    let ?w = "recent t0 (deltas 0 h)"
    have "recent now ?w = recent now (deltas 0 h)"
      using t0 by (auto simp: recent_def intro!: filter_cong)
    moreover have "sorted (map fst ?w)"
      using times(1) by (simp add: recent_def sorted_filter map_fst_deltas)
    moreover have "fst ` set (deltas 0 h) = fst ` set h" using map_fst_deltas [of 0 h] by (metis set_map)
    then have "\<forall>t\<in>set (map fst ?w). t \<le> now" using times(2) by (fastforce simp: recent_def)
    moreover have "\<forall>d\<in>set (map snd ?w). 0 < d" by (auto simp: recent_def)
    moreover have "c0 = l" using False last unfolding l_def by (simp add: last_map) (metis snd_conv)
    ultimately show ?thesis
      using that snoc.IH [OF times(1) counts(1) False last] by metis
  qed
  let ?d = "saturating_sub c l"
  let ?w = "if ?d > 0 then w0 @ [(now, ?d)] else w0"
  have "evict now ?w = recent now ?w"
    using h(3,4,5) by (subst evict_filter) (auto simp: sorted_append recent_def intro!: filter_cong)
  also have "\<dots> = recent now (deltas 0 (h @ [x]))"
    using h(2) by (simp add: deltas_snoc recent_def l_def)
  finally have ev: "update_window w0 now ?d =
      (sum_list (map snd (recent now (deltas 0 (h @ [x])))), recent now (deltas 0 (h @ [x])))"
    by (simp only: update_window_def Let_def)
  have "sorted (0 # map snd (h @ [x]))" and "last (0 # map snd (h @ [x])) = c"
    using snoc.prems(2) by simp_all
  from recent_sum [OF this(1) snoc.prems(1), of now] this(2)
  have "sum_list (map snd (recent now (deltas 0 (h @ [x])))) = c - baseline now 0 (h @ [x])"
    "c = baseline now 0 (h @ [x]) \<Longrightarrow> recent now (deltas 0 (h @ [x])) = []" by simp_all
  moreover have "kf_history (h @ [x]) = kf_step now c (kf_history h)" by (simp add: kf_history_def)
  ultimately show ?case by (simp add: h(1) kf_step_def ev)
qed simp

definition kf_state :: "KfreeSkbProgram \<Rightarrow> kf_state" where
  "kf_state p = (the (kf_metrics p), kf_last_counts p, delta_windows p)"

definition kf_live :: "KfreeSkbProgram \<Rightarrow> bool" where
  "kf_live p \<longleftrightarrow> kf_metrics p \<noteq> None \<and> kf_ebpf p"

text \<open>A sequence of displays, each at its time on the counts it reads.\<close>

definition kfree_displays :: "aya \<Rightarrow> (nat \<times> (u32 \<times> u64) list) list \<Rightarrow> KfreeSkbProgram \<Rightarrow> KfreeSkbProgram" where
  "kfree_displays aya ticks p =
     foldl (\<lambda>p (now, es). snd (kfree_display_metrics aya now (map Inr es) p)) p ticks"

definition readings :: "u32 \<Rightarrow> (nat \<times> (u32 \<times> u64) list) list \<Rightarrow> (nat \<times> u64) list" where
  "readings r ticks =
     concat (map (\<lambda>(now, es). case map_of es r of None \<Rightarrow> [] | Some c \<Rightarrow> [(now, c)]) ticks)"

lemma kf_view_total [simp]: "kf_view r (m\<lparr>total_drops_per_sec := x\<rparr>, st) = kf_view r (m, st)"
  by (simp add: kf_view_def)

lemma kfree_display_view:
  assumes "kf_live p" and "\<And>c. aya c = None" and "distinct (keys es)"
    and "kfree_display_metrics aya now (map Inr es) p = (r, p')"
  shows "r = Inr () \<and> kf_live p'
    \<and> kf_view q (kf_state p') =
        (case map_of es q of None \<Rightarrow> kf_view q (kf_state p) | Some c \<Rightarrow> kf_step now c (kf_view q (kf_state p)))"
proof -
  obtain m where [simp]: "kf_metrics p = Some m" "kf_ebpf p" using assms(1) by (auto simp: kf_live_def)
  obtain rows m' lc ws where rc: "report_counts now (named es) (kf_state p) = (rows, m', lc, ws)"
    by (cases "report_counts now (named es) (kf_state p)") auto
  have "kf_view q (m', lc, ws) =
      (case map_of es q of None \<Rightarrow> kf_view q (kf_state p) | Some c \<Rightarrow> kf_step now c (kf_view q (kf_state p)))"
    using report_counts_view [OF assms(3), of q now "kf_state p"] by (simp add: rc)
  then show ?thesis
    using assms(4) rc by (auto simp: kfree_display_metrics_def assms(2) collect_counts_Inr kf_state_def kf_live_def Let_def)
qed

lemma kfree_displays_view:
  assumes "kf_live p" and "\<And>c. aya c = None" and "\<forall>(now, es)\<in>set ticks. distinct (keys es)"
  shows "kf_live (kfree_displays aya ticks p)
    \<and> kf_view r (kf_state (kfree_displays aya ticks p)) =
        foldl (\<lambda>v (t, c). kf_step t c v) (kf_view r (kf_state p)) (readings r ticks)"
  using assms(1,3)
proof (induction ticks arbitrary: p)
  case (Cons x ticks)
  obtain now es where [simp]: "x = (now, es)" by (cases x)
  obtain res p' where d: "kfree_display_metrics aya now (map Inr es) p = (res, p')"
    by (cases "kfree_display_metrics aya now (map Inr es) p")
  note v = kfree_display_view [OF Cons.prems(1) assms(2) _ d, of r]
  have "kfree_displays aya (x # ticks) p = kfree_displays aya ticks p'"
    by (simp add: kfree_displays_def d)
  then show ?case
    using Cons.IH [of p'] Cons.prems v by (cases "map_of es r") (simp_all add: readings_def)
qed (simp add: kfree_displays_def readings_def)


section \<open>Properties\<close>

text \<open>
  C10. The exported drop rate is a true ten-second rate. Over any sequence of displays that read
  increasing counts at increasing times, the series of a reason after the last display that read
  it is the growth of its counter since the last display more than ten seconds ago (since the
  start if there is none), divided by ten; the series is absent exactly when nothing was dropped
  for that reason in that time.
\<close>

theorem kfree_rate_is_windowed:
  assumes "kf_live p" and "kf_last_counts p = []" and "delta_windows p = []"
    and "drops_per_sec (the (kf_metrics p)) = []" and "\<And>c. aya c = None"
    and "\<forall>(now, es)\<in>set ticks. distinct (keys es)"
    and "h = readings r ticks" and "sorted (map fst h)" and "sorted (map snd h)"
    and "h \<noteq> []" and "(now, c) = last h"
  shows "\<exists>m. kf_metrics (kfree_displays aya ticks p) = Some m
       \<and> map_of (drops_per_sec m) (series r) =
           (if c = baseline now 0 h then None else Some (rate_of (c - baseline now 0 h)))"
proof -
  have "kf_view r (kf_state p) = (0, [], None)"
    using assms(2-4) by (simp add: kf_view_def kf_state_def)
  then have "kf_view r (kf_state (kfree_displays aya ticks p)) = kf_history h"
    using kfree_displays_view [where r = r, OF assms(1,5,6)] by (simp add: kf_history_def assms(7))
  moreover have "kf_live (kfree_displays aya ticks p)"
    using kfree_displays_view [where aya = aya, OF assms(1,5,6)] by blast
  ultimately show ?thesis
    using kf_history_spec [OF assms(8-11)] by (auto simp: kf_view_def kf_state_def kf_live_def)
qed

definition kf_demo :: KfreeSkbProgram where
  "kf_demo = kfree_new\<lparr>kf_ebpf := True, kf_metrics := Some \<lparr>total_drops_per_sec = [], drops_per_sec = []\<rparr>\<rparr>"

theorem kfree_rate_is_windowed_witness:
  "let h = [(0, 10), (6 * 10 ^ 9, 40), (12 * 10 ^ 9, 90)]
   in \<exists>m. kf_metrics (kfree_displays (\<lambda>_. None) (map (\<lambda>(t, c). (t, [(3, c), (7, 5)])) h) kf_demo) = Some m
        \<and> map_of (drops_per_sec m) (series 3) = Some (rate_of 80)"
proof -
  let ?h = "[(0, 10), (6 * 10 ^ 9, 40), (12 * 10 ^ 9, 90)] :: (nat \<times> u64) list"
  let ?ticks = "map (\<lambda>(t, c). (t, [(3, c), (7, 5)])) ?h :: (nat \<times> (u32 \<times> u64) list) list"
  have "kf_live kf_demo" "kf_last_counts kf_demo = []" "delta_windows kf_demo = []" "drops_per_sec (the (kf_metrics kf_demo)) = []"
    by (simp_all add: kf_demo_def kf_live_def kfree_new_def)
  from kfree_rate_is_windowed [OF this refl, of ?ticks ?h 3 "12 * 10 ^ 9" 90]
  show ?thesis by (simp add: readings_def keys_def RATE_WINDOW_def Let_def)
qed

text \<open>
  The total gauge outlives the drops: when a display exports no series for any reason it read,
  it leaves the total as the previous display set it, however old that value is.
\<close>

lemma kfree_total_gauge_stale:
  assumes "kf_live p" and "\<And>c. aya c = None" and "distinct (keys es)"
    and "kfree_display_metrics aya now (map Inr es) p = (r, p')"
    and "\<forall>q\<in>set (keys es). map_of (drops_per_sec (the (kf_metrics p'))) (series q) = None"
  shows "r = Inr () \<and> total_drops_per_sec (the (kf_metrics p')) = total_drops_per_sec (the (kf_metrics p))"
proof -
  obtain rows m lc ws where rc: "report_counts now (named es) (kf_state p) = (rows, m, lc, ws)"
    by (cases "report_counts now (named es) (kf_state p)") auto
  have p': "r = Inr ()" "kf_metrics p' = Some (if rows = [] then m else m\<lparr>total_drops_per_sec :=
      AList.update ''all'' (total_rate (sort_key (\<lambda>(_, _, r). - r) rows)) (total_drops_per_sec m)\<rparr>)"
    using assms(1,4) rc
    by (auto simp: kfree_display_metrics_def assms(2) collect_counts_Inr kf_state_def kf_live_def Let_def)
  have "rows = []"
  proof (rule ccontr)
    assume "rows \<noteq> []"
    then obtain q where "q \<in> set (keys es)" "map_of (drops_per_sec m) (series q) \<noteq> None"
      using report_counts_rows [OF assms(3), of now "kf_state p"] by (auto simp: rc kf_view_def)
    then show False using assms(5) p'(2) \<open>rows \<noteq> []\<close> by auto
  qed
  then show ?thesis
    using p' report_counts_total [of now "named es" "kf_state p"]
    unfolding rc by (simp add: kf_state_def)
qed

text \<open>Ten seconds after the last drop the series is gone and the total still shows 3.5.\<close>

definition kf_quiet :: KfreeSkbProgram where
  "kf_quiet = kfree_new\<lparr>kf_ebpf := True, kf_last_counts := [(3, 35)], delta_windows := [(3, [(0, 35)])],
     kf_metrics := Some \<lparr>total_drops_per_sec = [(''all'', 7 / 2)], drops_per_sec = [(series 3, 7 / 2)]\<rparr>\<rparr>"

lemma kfree_total_gauge_stale_witness:
  "let (r, p) = kfree_display_metrics (\<lambda>_. None) (11 * 10 ^ 9) [Inr (3, 35)] kf_quiet
   in map_of (drops_per_sec (the (kf_metrics p))) (series 3) = None
      \<and> map_of (total_drops_per_sec (the (kf_metrics p))) ''all'' = Some (7 / 2)"
proof -
  obtain r p where d: "kfree_display_metrics (\<lambda>_. None) (11 * 10 ^ 9) (map Inr [(3, 35)]) kf_quiet = (r, p)"
    by (cases "kfree_display_metrics (\<lambda>_. None) (11 * 10 ^ 9) (map Inr [(3, 35)]) kf_quiet")
  have live: "kf_live kf_quiet" by (simp add: kf_live_def kf_quiet_def)
  have k: "distinct (keys [(3 :: u32, 35 :: u64)])" by (simp add: keys_def)
  have "kf_view 3 (kf_state p) = (35, [], None)"
    using kfree_display_view [OF live refl k d, of 3]
    by (simp add: kf_step_def kf_view_def kf_state_def kf_quiet_def update_window_def RATE_WINDOW_def kfree_new_def)
  then have n: "map_of (drops_per_sec (the (kf_metrics p))) (series 3) = None"
    by (simp add: kf_view_def kf_state_def)
  then show ?thesis
    using kfree_total_gauge_stale [OF live refl k d] d by (simp add: keys_def kf_quiet_def)
qed

end
