(* ===== verification/Sca_Ebpf.thy ===== *)
theory Sca_Ebpf
  imports Bpf_Map User_Mem
begin

text \<open>
  The eBPF side of \<open>sca\<close> (\<open>src/ebpf/sca/src\<close>, \<open>src/common/sca/src/lib.rs\<close>): one tracepoint on
  \<open>sendmsg\<close> that recognises the endpoints of the configured Unix-socket hops by (process, file
  descriptor), times every request/reply pair of a hop by the NNG protocol id, and turns the
  accumulated round-trip latency into the contribution of the hop itself.

  Shown: endpoint keys are unambiguous; a header is read the same from one buffer and from
  three; along a lockstep chain of hops the samples that reach the windows are the differences of the
  round trips and add up to the end-to-end latency; the moving-average window.
\<close>

unbundle bit_operations_syntax

definition DATA_FLOW :: "(string \<times> string \<times> string) list" where
  "DATA_FLOW =
     [(''/tmp/DATA_L3_TO_INTERNAL_ROUTER'', ''DATA_SOURCE'', ''INTERNAL_ROUTER''),
      (''/tmp/DATA_L3_TO_WF_L'', ''INTERNAL_ROUTER'', ''RED_WF_COMM_L''),
      (''/tmp/WF_L_TO_FRAG'', ''RED_WF_COMM_L'', ''FRAGMENTER''),
      (''/tmp/FRAG_TO_IRSS_L'', ''FRAGMENTER'', ''RED_IRSS_COMM_L''),
      (''/tmp/IRSS_L_TO_FRAG'', ''RED_IRSS_COMM_L'', ''FRAGMENTER''),
      (''/tmp/FRAG_TO_COMM_WF_L'', ''FRAGMENTER'', ''RED_WF_COMM_L''),
      (''/tmp/DATA_L_TO_SINK'', ''RED_WF_COMM_L'', ''DATA_SINK'')]"

definition SOCKET_HOPS_MAP_MAX_ENTRIES :: nat where
  "SOCKET_HOPS_MAP_MAX_ENTRIES = 2 * length DATA_FLOW"

definition WINDOW_SIZE_NS :: u64 where "WINDOW_SIZE_NS = 2000000000"

definition NNG_SPF_SIZE :: nat where "NNG_SPF_SIZE = 9"
definition NNG_PROTOCOL_SIZE :: nat where "NNG_PROTOCOL_SIZE = 4"
definition NNG_MSG_TYPE_SIZE :: nat where "NNG_MSG_TYPE_SIZE = 2"
definition NNG_HEADER_SIZE :: nat where
  "NNG_HEADER_SIZE = NNG_SPF_SIZE + NNG_PROTOCOL_SIZE + NNG_MSG_TYPE_SIZE"

lemmas nng_sizes = NNG_SPF_SIZE_def NNG_PROTOCOL_SIZE_def NNG_MSG_TYPE_SIZE_def NNG_HEADER_SIZE_def

lemma length_DATA_FLOW [simp]: "length DATA_FLOW = 7"
  by (simp add: DATA_FLOW_def)


section \<open>Structures and helpers\<close>

record UserMsgHdr =
  msg_name :: u64
  msg_namelen :: u32
  msg_iov :: u64
  msg_iovlen :: u64
  msg_control :: u64
  msg_controllen :: u64
  msg_flags :: i32

record IoVec =
  iov_base :: u64
  iov_len :: u64

record HopEndpoint =
  hop_index :: u32
  is_sender :: u32
  path :: "u8 list"

record SysEnterSendmsgArgs =
  send_common :: "u8 list"
  send_syscall_nr :: u32
  send_pad :: u32
  send_fd :: u64
  send_msg :: u64

record SendEvent =
  ev_endpoint :: HopEndpoint
  ev_pid :: u32
  ev_fd :: u32
  ev_proc_name :: "u8 list"
  ev_sock_path :: "u8 list"
  ev_protocol :: u32
  ev_msg_type :: u16

definition pair_key :: "u32 \<Rightarrow> u32 \<Rightarrow> u64" where
  "pair_key high low = push_bit 32 (ucast high) OR ucast low"

definition read_user_msghdr :: "user_mem \<Rightarrow> u64 \<Rightarrow> UserMsgHdr option" where
  "read_user_msghdr mem a =
     do {
       bs \<leftarrow> read_bytes mem a 56;
       Some \<lparr>msg_name = field 0 8 bs, msg_namelen = field 8 4 bs, msg_iov = field 16 8 bs,
         msg_iovlen = field 24 8 bs, msg_control = field 32 8 bs, msg_controllen = field 40 8 bs,
         msg_flags = field 48 4 bs\<rparr>
     }"

definition read_user_iovec :: "user_mem \<Rightarrow> u64 \<Rightarrow> IoVec option" where
  "read_user_iovec mem a =
     do {
       bs \<leftarrow> read_bytes mem a 16;
       Some \<lparr>iov_base = field 0 8 bs, iov_len = field 8 8 bs\<rparr>
     }"

definition read_be_u32 :: "user_mem \<Rightarrow> u64 \<Rightarrow> u32 option" where
  "read_be_u32 mem a = do { bs \<leftarrow> read_bytes mem a 4; Some (from_be (from_le_bytes bs)) }"

definition read_be_u16 :: "user_mem \<Rightarrow> u64 \<Rightarrow> u16 option" where
  "read_be_u16 mem a = do { bs \<leftarrow> read_bytes mem a 2; Some (from_be (from_le_bytes bs)) }"

definition read_iov_at :: "user_mem \<Rightarrow> u64 \<Rightarrow> u64 \<Rightarrow> IoVec option" where
  "read_iov_at mem iov_array index = read_user_iovec mem (iov_array + index * 16)"

definition read_header_from_single_iov :: "user_mem \<Rightarrow> IoVec \<Rightarrow> (u32 \<times> u16) option" where
  "read_header_from_single_iov mem iov =
     do {
       protocol \<leftarrow> read_be_u32 mem (iov_base iov + of_nat NNG_SPF_SIZE);
       msg_type \<leftarrow> read_be_u16 mem (iov_base iov + of_nat (NNG_SPF_SIZE + NNG_PROTOCOL_SIZE));
       Some (protocol, msg_type)
     }"

definition read_header_from_split_iovs :: "user_mem \<Rightarrow> u64 \<Rightarrow> u64 \<Rightarrow> (u32 \<times> u16) option" where
  "read_header_from_split_iovs mem iov_array iov_count =
     (if iov_count < 3 then None
      else do {
        second \<leftarrow> read_iov_at mem iov_array 1;
        if iov_base second = 0 \<or> iov_len second < of_nat NNG_PROTOCOL_SIZE then None
        else do {
          third \<leftarrow> read_iov_at mem iov_array 2;
          if iov_base third = 0 \<or> iov_len third < of_nat NNG_MSG_TYPE_SIZE then None
          else do {
            protocol \<leftarrow> read_be_u32 mem (iov_base second);
            msg_type \<leftarrow> read_be_u16 mem (iov_base third);
            Some (protocol, msg_type)
          }
        }
      })"

definition read_nng_header :: "user_mem \<Rightarrow> u64 \<Rightarrow> (u32 \<times> u16) option" where
  "read_nng_header mem msg_ptr =
     do {
       msghdr \<leftarrow> read_user_msghdr mem msg_ptr;
       if msg_iov msghdr = 0 \<or> msg_iovlen msghdr = 0 then None
       else do {
         first_iov \<leftarrow> read_iov_at mem (msg_iov msghdr) 0;
         if iov_base first_iov = 0 then None
         else if of_nat NNG_HEADER_SIZE \<le> iov_len first_iov
         then read_header_from_single_iov mem first_iov
         else read_header_from_split_iovs mem (msg_iov msghdr) (msg_iovlen msghdr)
       }
     }"

definition buf_to_log_str :: "u8 list \<Rightarrow> u8 list" where
  "buf_to_log_str buf = map (\<lambda>b. if b = 0 \<or> \<not> b < 128 then 32 else b) buf"


section \<open>Handlers\<close>

record sca_maps =
  SOCKET_HOPS_MAP :: "(u64, HopEndpoint) bpf_map"
  TIMESTAMP_MAP :: "(u64, u64) bpf_map"
  LATENCY_HOP_MAP :: "(u64, u64) bpf_map"
  LATENCY_PID_SUM :: "(u32, u64) bpf_map"
  LATENCY_PID_COUNT :: "(u32, u64) bpf_map"
  LATENCY_WINDOW_START :: "(u32, u64) bpf_map"

definition sca_maps_init :: sca_maps where
  "sca_maps_init = \<lparr>SOCKET_HOPS_MAP = [], TIMESTAMP_MAP = [], LATENCY_HOP_MAP = [],
     LATENCY_PID_SUM = [], LATENCY_PID_COUNT = [], LATENCY_WINDOW_START = []\<rparr>"

definition get_endpoint :: "sca_maps \<Rightarrow> u32 \<Rightarrow> u32 \<Rightarrow> HopEndpoint option" where
  "get_endpoint s pid fd = map_get (SOCKET_HOPS_MAP s) (pair_key pid fd)"

definition store_timestamp_with_protocol ::
  "kernel \<Rightarrow> u32 \<Rightarrow> u32 \<Rightarrow> u64 \<Rightarrow> sca_maps \<Rightarrow> sca_maps" where
  "store_timestamp_with_protocol K hop protocol timestamp s =
     s\<lparr>TIMESTAMP_MAP := hash_put K 1024 (TIMESTAMP_MAP s) (pair_key hop protocol) timestamp\<rparr>"

definition lookup_timestamp_with_protocol ::
  "u32 \<Rightarrow> u32 \<Rightarrow> u64 \<Rightarrow> sca_maps \<Rightarrow> u64 \<times> sca_maps" where
  "lookup_timestamp_with_protocol hop protocol now s =
     (let key = pair_key hop protocol in
      case map_get (TIMESTAMP_MAP s) key of
        None \<Rightarrow> (0, s)
      | Some stored_time \<Rightarrow>
          (let latency = now - stored_time
           in (latency, s\<lparr>TIMESTAMP_MAP := map_remove (TIMESTAMP_MAP s) key\<rparr>)))"

definition subtract_downstream_latency ::
  "kernel \<Rightarrow> u32 \<Rightarrow> u32 \<Rightarrow> u64 \<Rightarrow> sca_maps \<Rightarrow> u64 \<times> sca_maps" where
  "subtract_downstream_latency K hop protocol latency s =
     (let s = (if hop > 0
               then s\<lparr>LATENCY_HOP_MAP :=
                 hash_put K 1024 (LATENCY_HOP_MAP s) (pair_key hop protocol) latency\<rparr>
               else s);
          next = hop + 1
      in if next < of_nat (length DATA_FLOW)
         then (let next_key = pair_key next protocol in
               case map_get (LATENCY_HOP_MAP s) next_key of
                 Some downstream \<Rightarrow>
                   (saturating_sub latency downstream,
                    s\<lparr>LATENCY_HOP_MAP := map_remove (LATENCY_HOP_MAP s) next_key\<rparr>)
               | None \<Rightarrow> (latency, s))
         else (latency, s))"

definition update_moving_average ::
  "kernel \<Rightarrow> u32 \<Rightarrow> u64 \<Rightarrow> u64 \<Rightarrow> sca_maps \<Rightarrow> sca_maps" where
  "update_moving_average K pid latency current_time s =
     (let sum = unwrap_or (map_get (LATENCY_PID_SUM s) pid) 0;
          count = unwrap_or (map_get (LATENCY_PID_COUNT s) pid) 0;
          window_start = unwrap_or (map_get (LATENCY_WINDOW_START s) pid) 0;
          expired = current_time - window_start > WINDOW_SIZE_NS;
          sum = (if expired then 0 else sum);
          count = (if expired then 0 else count);
          s = (if count = 0
               then s\<lparr>LATENCY_WINDOW_START := hash_put K 16 (LATENCY_WINDOW_START s) pid current_time\<rparr>
               else s);
          sum = sum + latency;
          count = count + 1
      in s\<lparr>LATENCY_PID_SUM := hash_put K 16 (LATENCY_PID_SUM s) pid sum,
           LATENCY_PID_COUNT := hash_put K 16 (LATENCY_PID_COUNT s) pid count\<rparr>)"

definition handle_request :: "kernel \<Rightarrow> SendEvent \<Rightarrow> u64 \<Rightarrow> sca_maps \<Rightarrow> sca_maps" where
  "handle_request K ev now s =
     store_timestamp_with_protocol K (hop_index (ev_endpoint ev)) (ev_protocol ev) now s"

text \<open>\<open>handle_response\<close> reads the clock twice: for the latency and for the window.\<close>

definition handle_response :: "kernel \<Rightarrow> SendEvent \<Rightarrow> u64 \<Rightarrow> u64 \<Rightarrow> sca_maps \<Rightarrow> sca_maps" where
  "handle_response K ev now current_time s =
     (let hop = hop_index (ev_endpoint ev);
          (latency, s) = lookup_timestamp_with_protocol hop (ev_protocol ev) now s
      in if latency = 0 then s
         else
           (let (individual, s) = subtract_downstream_latency K hop (ev_protocol ev) latency s
            in update_moving_average K (ev_pid ev) individual current_time s))"

definition sys_enter_sendmsg_handler ::
  "kernel \<Rightarrow> SysEnterSendmsgArgs option \<Rightarrow> u64 \<Rightarrow> u8 list option \<Rightarrow> user_mem \<Rightarrow> u64 \<Rightarrow> u64
     \<Rightarrow> sca_maps \<Rightarrow> u32 \<times> sca_maps" where
  "sys_enter_sendmsg_handler K ctx pid_tgid comm mem now current_time s =
     (case ctx of
        None \<Rightarrow> (0, s)
      | Some args \<Rightarrow>
          (let fd = ucast (send_fd args); pid = ucast (drop_bit 32 pid_tgid) in
           case get_endpoint s pid fd of
             None \<Rightarrow> (0, s)
           | Some endpoint \<Rightarrow>
               (case read_nng_header mem (send_msg args) of
                  None \<Rightarrow> (0, s)
                | Some (protocol, msg_type) \<Rightarrow>
                    (let event = \<lparr>ev_endpoint = endpoint, ev_pid = pid, ev_fd = fd,
                           ev_proc_name = buf_to_log_str (unwrap_or comm (replicate 16 0)),
                           ev_sock_path = buf_to_log_str (path endpoint),
                           ev_protocol = protocol, ev_msg_type = msg_type\<rparr>
                     in (0, if is_sender endpoint = 1 then handle_request K event now s
                            else handle_response K event now current_time s)))))"


section \<open>Keys\<close>

lemma bit_pair_key:
  "bit (pair_key h l) n \<longleftrightarrow> (if n < 32 then bit l n else bit h (n - 32))"
  using bit_imp_le_length [of h "n - 32"] bit_imp_le_length [of l n]
  by (auto simp: pair_key_def bit_simps)

lemma pair_key_inject [simp]: "pair_key a b = pair_key c d \<longleftrightarrow> a = c \<and> b = d"
proof
  assume eq: "pair_key a b = pair_key c d"
  have "bit b n = bit d n" if "n < 32" for n
    using arg_cong [OF eq, of "\<lambda>k. bit k n"] that by (simp add: bit_pair_key)
  moreover have "bit a n = bit c n" if "n < 32" for n
    using arg_cong [OF eq, of "\<lambda>k. bit k (n + 32)"] by (simp add: bit_pair_key)
  ultimately show "a = c \<and> b = d" by (auto intro!: bit_word_eqI)
qed simp



section \<open>The NNG header\<close>

text \<open>
  What it means for a message to carry the protocol bytes \<open>P\<close> and the type bytes \<open>T\<close>: behind the
  SPF bytes in one buffer, or as the second and third buffer.
\<close>

definition carries_header :: "user_mem \<Rightarrow> u64 \<Rightarrow> u8 list \<Rightarrow> u8 list \<Rightarrow> bool" where
  "carries_header mem m P T \<longleftrightarrow>
     (\<exists>h v. read_user_msghdr mem m = Some h \<and> msg_iov h \<noteq> 0 \<and> msg_iovlen h \<noteq> 0
        \<and> read_user_iovec mem (msg_iov h) = Some v \<and> iov_base v \<noteq> 0
        \<and> (if 15 \<le> iov_len v
           then read_bytes mem (iov_base v + 9) 4 = Some P \<and> read_bytes mem (iov_base v + 13) 2 = Some T
           else 3 \<le> msg_iovlen h
             \<and> (\<exists>v2 v3. read_user_iovec mem (msg_iov h + 16) = Some v2 \<and> iov_base v2 \<noteq> 0 \<and> 4 \<le> iov_len v2
                  \<and> read_user_iovec mem (msg_iov h + 32) = Some v3 \<and> iov_base v3 \<noteq> 0 \<and> 2 \<le> iov_len v3
                  \<and> read_bytes mem (iov_base v2) 4 = Some P \<and> read_bytes mem (iov_base v3) 2 = Some T)))"

lemma read_be_u32_eq:
  "read_be_u32 mem a = map_option from_be_bytes (read_bytes mem a 4)"
proof (cases "read_bytes mem a 4")
  case (Some bs)
  then show ?thesis
    using length_read_bytes [OF Some] from_be_from_le_bytes [of bs, where 'a = 32]
    by (simp add: read_be_u32_def)
qed (simp add: read_be_u32_def)

lemma sca_read_be_u16_eq:
  "read_be_u16 mem a = map_option from_be_bytes (read_bytes mem a 2)"
proof (cases "read_bytes mem a 2")
  case (Some bs)
  then show ?thesis
    using length_read_bytes [OF Some] from_be_from_le_bytes [of bs, where 'a = 16]
    by (simp add: read_be_u16_def)
qed (simp add: read_be_u16_def)

lemma read_header_single_iff:
  "read_header_from_single_iov mem v = Some (p, t) \<longleftrightarrow>
     (\<exists>P T. read_bytes mem (iov_base v + 9) 4 = Some P \<and> read_bytes mem (iov_base v + 13) 2 = Some T
        \<and> p = from_be_bytes P \<and> t = from_be_bytes T)"
  by (auto simp: read_header_from_single_iov_def read_be_u32_eq sca_read_be_u16_eq nng_sizes
      split: Option.bind_splits)

lemma read_header_split_iff:
  "read_header_from_split_iovs mem a n = Some (p, t) \<longleftrightarrow>
     3 \<le> n \<and> (\<exists>v2 v3 P T. read_user_iovec mem (a + 16) = Some v2 \<and> iov_base v2 \<noteq> 0 \<and> 4 \<le> iov_len v2
        \<and> read_user_iovec mem (a + 32) = Some v3 \<and> iov_base v3 \<noteq> 0 \<and> 2 \<le> iov_len v3
        \<and> read_bytes mem (iov_base v2) 4 = Some P \<and> read_bytes mem (iov_base v3) 2 = Some T
        \<and> p = from_be_bytes P \<and> t = from_be_bytes T)"
  by (auto simp: read_header_from_split_iovs_def read_iov_at_def read_be_u32_eq sca_read_be_u16_eq
      nng_sizes not_less split: Option.bind_splits if_splits)

lemma read_nng_header_iff:
  "read_nng_header mem m = Some (p, t) \<longleftrightarrow>
     (\<exists>P T. carries_header mem m P T \<and> p = from_be_bytes P \<and> t = from_be_bytes T)"
proof (cases "read_user_msghdr mem m")
  case (Some h)
  show ?thesis
  proof (cases "read_user_iovec mem (msg_iov h)")
    case None
    then show ?thesis using Some by (simp add: read_nng_header_def carries_header_def read_iov_at_def)
  next
    case v: (Some v)
    show ?thesis
    proof (cases "15 \<le> iov_len v")
      case True
      then show ?thesis
        using Some v by (auto simp: read_nng_header_def carries_header_def read_iov_at_def
            read_header_single_iff NNG_HEADER_SIZE_def nng_sizes)
    next
      case False
      then show ?thesis
        using Some v by (auto simp: read_nng_header_def carries_header_def read_iov_at_def
            read_header_split_iff nng_sizes)
    qed
  qed
qed (simp add: read_nng_header_def carries_header_def)


section \<open>A chain of hops\<close>

lemma update_moving_average_frame [simp]:
  "TIMESTAMP_MAP (update_moving_average K pid l t s) = TIMESTAMP_MAP s"
  "LATENCY_HOP_MAP (update_moving_average K pid l t s) = LATENCY_HOP_MAP s"
  "SOCKET_HOPS_MAP (update_moving_average K pid l t s) = SOCKET_HOPS_MAP s"
  by (simp_all add: update_moving_average_def Let_def)

lemma handle_response_miss:
  assumes "map_get (TIMESTAMP_MAP s) (pair_key (hop_index (ev_endpoint ev)) (ev_protocol ev)) = None"
  shows "handle_response K ev now t s = s"
  using assms by (simp add: handle_response_def lookup_timestamp_with_protocol_def)

lemma length_map_remove:
  assumes "distinct (keys m)" and "map_get m k \<noteq> None"
  shows "Suc (length (map_remove m k)) = length m"
  using assms
proof (induction m)
  case (Cons p m)
  show ?case
  proof (cases "fst p = k")
    case True
    then have "map_get m k = None"
      using Cons.prems(1) by (auto simp: keys_def map_get_def map_of_eq_None_iff)
    then have "map_remove m k = m" by (rule map_remove_absent)
    then show ?thesis using True by (simp add: map_remove_def)
  next
    case False
    then have "map_get m k \<noteq> None" using Cons.prems(2) by (simp add: map_get_def split: if_splits)
    then show ?thesis using Cons False by (simp add: map_remove_def keys_def)
  qed
qed (simp add: map_get_def)

text \<open>One reply of a hop whose request is recorded.\<close>

definition downstream :: "sca_maps \<Rightarrow> u32 \<Rightarrow> nat \<Rightarrow> u64 option" where
  "downstream s p i = (if i < 7 then map_get (LATENCY_HOP_MAP s) (pair_key (of_nat i) p) else None)"

definition reply_of :: "(nat \<Rightarrow> SendEvent) \<Rightarrow> u32 \<Rightarrow> bool" where
  "reply_of ev p \<longleftrightarrow> (\<forall>i. hop_index (ev_endpoint (ev i)) = of_nat i \<and> ev_protocol (ev i) = p)"

lemma hash_room_free: "length m < n \<Longrightarrow> hash_room n m k"
  by (simp add: hash_room_def)

lemma hash_put_grow:
  assumes "hash_documented K" and "length m < n"
  shows "length (hash_put K n m k v) \<le> Suc (length m)"
  using hash_insert_accepts [OF assms(1), of m k n v] assms(2) by (simp add: ignoring_def length_update)

lemma of_nat_hop:
  assumes "i < 7"
  shows "(of_nat i + 1 :: u32) = of_nat (Suc i)" and "(of_nat i :: u32) > 0 \<longleftrightarrow> 0 < i"
    and "(of_nat i + 1 :: u32) < of_nat (length DATA_FLOW) \<longleftrightarrow> Suc i < 7"
    and "(of_nat i :: u32) \<noteq> of_nat (Suc i)"
proof -
  have "i \<in> {0, 1, 2, 3, 4, 5, 6}" using assms by auto
  then show "(of_nat i + 1 :: u32) = of_nat (Suc i)" and "(of_nat i :: u32) > 0 \<longleftrightarrow> 0 < i"
    and "(of_nat i + 1 :: u32) < of_nat (length DATA_FLOW) \<longleftrightarrow> Suc i < 7"
    and "(of_nat i :: u32) \<noteq> of_nat (Suc i)"
    by auto
qed

lemma reply_step:
  assumes K: "hash_documented K" and wf: "map_wf 1024 (LATENCY_HOP_MAP s)"
    and room: "length (LATENCY_HOP_MAP s) < 1024" and i: "i < 7" and ev: "reply_of ev p"
    and req: "map_get (TIMESTAMP_MAP s) (pair_key (of_nat i) p) = Some q" and lat: "now - q \<noteq> 0"
    and s': "s' = handle_response K (ev i) now t s"
  shows "\<exists>s2. s' = update_moving_average K (ev_pid (ev i))
             (case downstream s p (Suc i) of None \<Rightarrow> now - q | Some d \<Rightarrow> saturating_sub (now - q) d) t s2
           \<and> LATENCY_PID_SUM s2 = LATENCY_PID_SUM s \<and> LATENCY_PID_COUNT s2 = LATENCY_PID_COUNT s
           \<and> LATENCY_WINDOW_START s2 = LATENCY_WINDOW_START s"
    and "map_get (TIMESTAMP_MAP s') = (map_get (TIMESTAMP_MAP s))(pair_key (of_nat i) p := None)"
    and "0 < i \<Longrightarrow> downstream s' p i = Some (now - q)"
    and "map_wf 1024 (LATENCY_HOP_MAP s')"
    and "length (LATENCY_HOP_MAP s') \<le> length (LATENCY_HOP_MAP s)
           + (if downstream s p (Suc i) = None then 1 else 0)"
proof -
  let ?k = "pair_key (of_nat i) p" and ?n = "pair_key (of_nat (Suc i)) p"
  let ?H = "if 0 < i then hash_put K 1024 (LATENCY_HOP_MAP s) ?k (now - q) else LATENCY_HOP_MAP s"
  let ?H' = "if downstream s p (Suc i) = None then ?H else map_remove ?H ?n"
  have [simp]: "hop_index (ev_endpoint (ev i)) = of_nat i" "ev_protocol (ev i) = p"
    using ev by (simp_all add: reply_of_def)
  note hop = of_nat_hop [OF i]
  have wf_put: "map_wf 1024 ?H" using K wf by auto
  have get: "map_get ?H ?n = map_get (LATENCY_HOP_MAP s) ?n" using hop(4) by simp
  have sub: "subtract_downstream_latency K (of_nat i) p (now - q)
        (s\<lparr>TIMESTAMP_MAP := map_remove (TIMESTAMP_MAP s) ?k\<rparr>)
      = (case downstream s p (Suc i) of None \<Rightarrow> now - q | Some d \<Rightarrow> saturating_sub (now - q) d,
         s\<lparr>TIMESTAMP_MAP := map_remove (TIMESTAMP_MAP s) ?k, LATENCY_HOP_MAP := ?H'\<rparr>)"
    using hop get
    by (auto simp: subtract_downstream_latency_def Let_def downstream_def simp del: of_nat_Suc
        split: option.split)
  have s'_eq: "s' = update_moving_average K (ev_pid (ev i))
      (case downstream s p (Suc i) of None \<Rightarrow> now - q | Some d \<Rightarrow> saturating_sub (now - q) d) t
      (s\<lparr>TIMESTAMP_MAP := map_remove (TIMESTAMP_MAP s) ?k, LATENCY_HOP_MAP := ?H'\<rparr>)"
    using req lat sub unfolding s'
    by (simp add: handle_response_def lookup_timestamp_with_protocol_def Let_def del: of_nat_Suc)
  show "\<exists>s2. s' = update_moving_average K (ev_pid (ev i))
      (case downstream s p (Suc i) of None \<Rightarrow> now - q | Some d \<Rightarrow> saturating_sub (now - q) d) t s2
      \<and> LATENCY_PID_SUM s2 = LATENCY_PID_SUM s \<and> LATENCY_PID_COUNT s2 = LATENCY_PID_COUNT s
      \<and> LATENCY_WINDOW_START s2 = LATENCY_WINDOW_START s"
    by (intro exI conjI, rule s'_eq) simp_all
  have "TIMESTAMP_MAP s' = map_remove (TIMESTAMP_MAP s) ?k" and H': "LATENCY_HOP_MAP s' = ?H'"
    by (simp_all add: s'_eq del: of_nat_Suc)
  then show "map_get (TIMESTAMP_MAP s') = (map_get (TIMESTAMP_MAP s))(?k := None)" by simp
  show "map_wf 1024 (LATENCY_HOP_MAP s')" using wf_put by (simp add: H')
  show "downstream s' p i = Some (now - q)" if "0 < i"
    using that i hop(4) map_get_hash_put_room [OF K, of "LATENCY_HOP_MAP s" ?k 1024] room
    by (auto simp: downstream_def H')
  have grow: "length ?H \<le> Suc (length (LATENCY_HOP_MAP s))"
    using hash_put_grow [OF K room] by simp
  show "length (LATENCY_HOP_MAP s') \<le> length (LATENCY_HOP_MAP s)
      + (if downstream s p (Suc i) = None then 1 else 0)"
  proof (cases "downstream s p (Suc i)")
    case (Some d)
    then have "map_get ?H ?n \<noteq> None" using get by (simp add: downstream_def split: if_splits)
    then have "Suc (length (map_remove ?H ?n)) = length ?H"
      using wf_put by (intro length_map_remove) (simp_all add: map_wf_def)
    then show ?thesis using Some grow by (simp add: H')
  qed (use grow in \<open>simp add: H'\<close>)
qed


fun requests :: "kernel \<Rightarrow> (nat \<Rightarrow> SendEvent) \<Rightarrow> (nat \<Rightarrow> u64) \<Rightarrow> nat \<Rightarrow> sca_maps \<Rightarrow> sca_maps" where
  "requests K ev q 0 s = s"
| "requests K ev q (Suc i) s = handle_request K (ev i) (q i) (requests K ev q i s)"

lemma of_nat_hop_inject:
  assumes "i < 7" and "j < 7"
  shows "(of_nat i :: u32) = of_nat j \<longleftrightarrow> i = j"
proof
  assume "(of_nat i :: u32) = of_nat j"
  then have "unat (of_nat i :: u32) = unat (of_nat j :: u32)" by simp
  then show "i = j" using assms by (simp add: unat_of_nat)
qed simp

lemma requests_frame [simp]:
  "LATENCY_PID_SUM (requests K ev q n s) = LATENCY_PID_SUM s"
  "LATENCY_PID_COUNT (requests K ev q n s) = LATENCY_PID_COUNT s"
  "LATENCY_WINDOW_START (requests K ev q n s) = LATENCY_WINDOW_START s"
  by (induction n) (simp_all add: handle_request_def store_timestamp_with_protocol_def)

lemma requests_recorded:
  assumes "hash_documented K" and "reply_of ev p" and "n \<le> 7"
    and "length (TIMESTAMP_MAP s) + n \<le> 1024"
  shows "LATENCY_HOP_MAP (requests K ev q n s) = LATENCY_HOP_MAP s
    \<and> length (TIMESTAMP_MAP (requests K ev q n s)) \<le> length (TIMESTAMP_MAP s) + n
    \<and> (\<forall>i<n. map_get (TIMESTAMP_MAP (requests K ev q n s)) (pair_key (of_nat i) p) = Some (q i))"
  using assms(3,4)
proof (induction n)
  case (Suc n)
  let ?s = "requests K ev q n s"
  have IH: "LATENCY_HOP_MAP ?s = LATENCY_HOP_MAP s"
      "length (TIMESTAMP_MAP ?s) \<le> length (TIMESTAMP_MAP s) + n"
      "\<And>i. i < n \<Longrightarrow> map_get (TIMESTAMP_MAP ?s) (pair_key (of_nat i) p) = Some (q i)"
    using Suc by simp_all
  have room: "length (TIMESTAMP_MAP ?s) < 1024" using IH(2) Suc.prems by simp
  have req: "requests K ev q (Suc n) s =
      ?s\<lparr>TIMESTAMP_MAP := hash_put K 1024 (TIMESTAMP_MAP ?s) (pair_key (of_nat n) p) (q n)\<rparr>"
    using assms(2) by (simp add: handle_request_def store_timestamp_with_protocol_def reply_of_def)
  have "map_get (TIMESTAMP_MAP (requests K ev q (Suc n) s)) =
      (map_get (TIMESTAMP_MAP ?s))(pair_key (of_nat n) p \<mapsto> q n)"
    using room by (simp only: req) (simp add: map_get_hash_put_room [OF assms(1)])
  moreover have "length (TIMESTAMP_MAP (requests K ev q (Suc n) s)) \<le> Suc (length (TIMESTAMP_MAP ?s))"
    using hash_put_grow [OF assms(1) room] by (simp only: req) simp
  ultimately show ?case
    using IH Suc.prems(1) req by (auto simp: less_Suc_eq of_nat_hop_inject)
qed simp


section \<open>The moving-average window\<close>

text \<open>
  The abstract window of a process: the samples \<open>(latency, time)\<close> since the window was anchored.
  A sample later than \<open>WINDOW_SIZE_NS\<close> after the anchor starts a new window.
\<close>

fun slide :: "(u64 \<times> u64) list \<Rightarrow> u64 \<times> u64 \<Rightarrow> (u64 \<times> u64) list" where
  "slide w x = (if w \<noteq> [] \<and> snd x - snd (hd w) \<le> WINDOW_SIZE_NS then w @ [x] else [x])"

definition window_of :: "sca_maps \<Rightarrow> u32 \<Rightarrow> (u64 \<times> u64) list \<Rightarrow> bool" where
  "window_of s pid w \<longleftrightarrow>
     unwrap_or (map_get (LATENCY_PID_SUM s) pid) 0 = sum_list (map fst w)
   \<and> unwrap_or (map_get (LATENCY_PID_COUNT s) pid) 0 = of_nat (length w)
   \<and> (w \<noteq> [] \<longrightarrow> map_get (LATENCY_WINDOW_START s) pid = Some (snd (hd w)))"

definition pid_room :: "sca_maps \<Rightarrow> u32 \<Rightarrow> bool" where
  "pid_room s pid \<longleftrightarrow> hash_room 16 (LATENCY_PID_SUM s) pid \<and> hash_room 16 (LATENCY_PID_COUNT s) pid
     \<and> hash_room 16 (LATENCY_WINDOW_START s) pid"

definition feed :: "kernel \<Rightarrow> u32 \<Rightarrow> (u64 \<times> u64) list \<Rightarrow> sca_maps \<Rightarrow> sca_maps" where
  "feed K pid xs s = foldl (\<lambda>s (l, t). update_moving_average K pid l t s) s xs"

lemma of_nat_length_0:
  assumes "length w < 2 ^ 64"
  shows "(of_nat (length w) :: u64) = 0 \<longleftrightarrow> w = []"
proof
  assume "(of_nat (length w) :: u64) = 0"
  then have "unat (of_nat (length w) :: u64) = 0" by simp
  then show "w = []" using assms by (simp add: unat_of_nat)
qed simp

lemma update_slides:
  assumes K: "hash_documented K" and room: "pid_room s pid" and w: "window_of s pid w"
    and len: "length w < 2 ^ 64"
  shows "window_of (update_moving_average K pid l t s) pid (slide w (l, t))"
    and "pid_room (update_moving_average K pid l t s) pid"
    and "\<And>j v. j \<noteq> pid \<Longrightarrow> window_of (update_moving_average K pid l t s) j v = window_of s j v"
proof -
  have put: "map_get (hash_put K 16 m pid v) = (map_get m)(pid \<mapsto> v)" if "hash_room 16 m pid"
    for m :: "(u32, u64) bpf_map" and v
    using map_get_hash_put_room [OF K] that by (simp add: hash_room_def)
  show "window_of (update_moving_average K pid l t s) pid (slide w (l, t))"
  proof (cases "w = []")
    case True
    then show ?thesis
      using w room by (simp add: update_moving_average_def Let_def window_of_def pid_room_def put)
  next
    case False
    then show ?thesis
      using w room of_nat_length_0 [OF len]
      by (simp add: update_moving_average_def Let_def window_of_def pid_room_def put not_less add.commute)
  qed
  show "pid_room (update_moving_average K pid l t s) pid"
    using room by (simp add: update_moving_average_def Let_def pid_room_def put)
      (simp add: hash_room_def put)
  show "window_of (update_moving_average K pid l t s) j v = window_of s j v" if "j \<noteq> pid" for j v
    using that by (simp add: update_moving_average_def Let_def window_of_def)
qed

lemma length_slide: "length (slide w x) \<le> Suc (length w)"
  by simp

lemma feed_slides:
  assumes "hash_documented K" and "pid_room s pid" and "window_of s pid w"
    and "length w + length xs < 2 ^ 64"
  shows "window_of (feed K pid xs s) pid (foldl slide w xs)"
  using assms(2-)
proof (induction xs arbitrary: s w)
  case (Cons x xs)
  obtain l t where x: "x = (l, t)" by (cases x)
  have "length w < 2 ^ 64" using Cons.prems(3) by simp
  note step = update_slides [OF assms(1) Cons.prems(1,2) this, where l = l and t = t]
  show ?case
    using Cons.IH [OF step(2,1)] Cons.prems(3) length_slide [of w x]
    by (simp add: feed_def x del: slide.simps)
qed (simp add: feed_def)

lemma slide_within:
  assumes "\<forall>x\<in>set w. snd x - snd (hd w) \<le> WINDOW_SIZE_NS"
  shows "\<forall>y\<in>set (slide w x). snd y - snd (hd (slide w x)) \<le> WINDOW_SIZE_NS"
  using assms by (auto simp: hd_append)

lemma window_within:
  assumes "\<forall>x\<in>set w. snd x - snd (hd w) \<le> WINDOW_SIZE_NS"
  shows "\<forall>y\<in>set (foldl slide w xs). snd y - snd (hd (foldl slide w xs)) \<le> WINDOW_SIZE_NS"
  using assms
proof (induction xs arbitrary: w)
  case (Cons x xs)
  then show ?case using slide_within [OF Cons.prems, of x] by (simp del: slide.simps)
qed simp


section \<open>The replies of a chain\<close>

text \<open>Room for a set of processes at once, in each of the three accumulator maps.\<close>

definition pids_room :: "sca_maps \<Rightarrow> u32 set \<Rightarrow> bool" where
  "pids_room s A \<longleftrightarrow> (\<forall>m\<in>{LATENCY_PID_SUM s, LATENCY_PID_COUNT s, LATENCY_WINDOW_START s}.
     map_wf 16 m \<and> card (set (keys m) \<union> A) \<le> 16)"

lemma hash_room_of_card:
  assumes "map_wf n m" and "card (set (keys m) \<union> A) \<le> n" and "k \<in> A" and "finite A"
  shows "hash_room n m k"
proof (cases "k \<in> set (keys m)")
  case True
  then show ?thesis by (simp add: hash_room_def in_keys_iff map_get_def)
next
  case False
  have "length m = card (set (keys m))" using assms(1) by (simp add: map_wf_def distinct_card) (simp add: keys_def)
  also have "\<dots> < card (set (keys m) \<union> A)" by (rule psubset_card_mono) (use False assms(3,4) in auto)
  finally show ?thesis using assms(2) by (simp add: hash_room_free)
qed

lemma pids_room_pid: "pids_room s A \<Longrightarrow> finite A \<Longrightarrow> pid \<in> A \<Longrightarrow> pid_room s pid"
  unfolding pids_room_def pid_room_def by (blast intro: hash_room_of_card)

lemma pids_room_update:
  assumes "hash_documented K" and "pids_room s A" and "pid \<in> A"
  shows "pids_room (update_moving_average K pid l t s) A"
proof -
  have "map_wf 16 (hash_put K 16 m pid v) \<and> card (set (keys (hash_put K 16 m pid v)) \<union> A) \<le> 16"
    if "map_wf 16 m" "card (set (keys m) \<union> A) \<le> 16" for m :: "(u32, u64) bpf_map" and v
    using that keys_hash_put_eq [OF assms(1) that(1), of pid v] assms(1,3)
    by (auto simp: insert_absorb)
  then show ?thesis using assms(2) by (auto simp: pids_room_def update_moving_average_def Let_def)
qed

text \<open>The replies of hops \<open>n - 1\<close> down to \<open>0\<close>: \<open>r i\<close> is the time the latency of hop \<open>i\<close> is taken at, \<open>c i\<close>
  the second reading of the clock.\<close>

fun replies ::
  "kernel \<Rightarrow> (nat \<Rightarrow> SendEvent) \<Rightarrow> (nat \<Rightarrow> u64) \<Rightarrow> (nat \<Rightarrow> u64) \<Rightarrow> nat \<Rightarrow> sca_maps \<Rightarrow> sca_maps" where
  "replies K ev r c 0 s = s"
| "replies K ev r c (Suc i) s = replies K ev r c i (handle_response K (ev i) (r i) (c i) s)"

text \<open>What hop \<open>i\<close> of \<open>n\<close> contributes: its round trip less that of the hop after it; \<open>d\<close> is what is already
  published for the hop after the last.\<close>

definition contribution :: "(nat \<Rightarrow> u64) \<Rightarrow> u64 option \<Rightarrow> nat \<Rightarrow> nat \<Rightarrow> u64" where
  "contribution lat d n i =
     (case (if Suc i = n then d else Some (lat (Suc i))) of None \<Rightarrow> lat i | Some l \<Rightarrow> saturating_sub (lat i) l)"

text \<open>The samples of a process among the replies, in the order of the replies.\<close>

definition reply_samples :: "(nat \<Rightarrow> SendEvent) \<Rightarrow> (nat \<Rightarrow> u64) \<Rightarrow> (nat \<Rightarrow> u64) \<Rightarrow> nat \<Rightarrow> u32 \<Rightarrow> (u64 \<times> u64) list" where
  "reply_samples ev x c n pid = map (\<lambda>i. (x i, c i)) (filter (\<lambda>i. ev_pid (ev i) = pid) (rev [0..<n]))"

lemma reply_samples_Suc: "reply_samples ev x c (Suc n) pid = (if ev_pid (ev n) = pid then [(x n, c n)] else []) @ reply_samples ev x c n pid"
  by (simp add: reply_samples_def)

lemma reply_samples_cong: "(\<And>i. i < n \<Longrightarrow> x i = y i) \<Longrightarrow> reply_samples ev x c n pid = reply_samples ev y c n pid"
  by (auto simp: reply_samples_def)

lemma replies_windows:
  assumes "hash_documented K" and "reply_of ev p" and "n \<le> 7"
    and "map_wf 1024 (LATENCY_HOP_MAP s)"
    and "length (LATENCY_HOP_MAP s) + (if downstream s p n = None then 1 else 0) < 1024"
    and "\<And>i. i < n \<Longrightarrow> map_get (TIMESTAMP_MAP s) (pair_key (of_nat i) p) = Some (q i)"
    and "\<And>i. i < n \<Longrightarrow> r i - q i \<noteq> 0"
    and "pids_room s A" and "finite A" and "\<And>i. i < n \<Longrightarrow> ev_pid (ev i) \<in> A"
    and "\<And>pid. window_of s pid (W pid)" and "\<And>pid. length (W pid) + n < 2 ^ 64"
  shows "window_of (replies K ev r c n s) pid
    (foldl slide (W pid) (reply_samples ev (contribution (\<lambda>i. r i - q i) (downstream s p n) n) c n pid))"
  using assms(3-8,10-)
proof (induction n arbitrary: s W)
  case (Suc n)
  let ?s = "handle_response K (ev n) (r n) (c n) s" and ?lat = "\<lambda>i. r i - q i"
  let ?x = "contribution ?lat (downstream s p (Suc n)) (Suc n)"
  let ?W = "\<lambda>pid. if ev_pid (ev n) = pid then slide (W pid) (?x n, c n) else W pid"
  have room: "length (LATENCY_HOP_MAP s) < 1024" using Suc.prems(3) by (simp split: if_splits)
  have n: "n < 7" using Suc.prems(1) by simp
  note step = reply_step [OF assms(1) Suc.prems(2) room n assms(2) Suc.prems(4) [of n]
      Suc.prems(5) [of n] refl [of ?s]]
  have x: "?x n = (case downstream s p (Suc n) of None \<Rightarrow> ?lat n | Some d \<Rightarrow> saturating_sub (?lat n) d)"
    by (simp add: contribution_def)
  obtain s2 where s2: "?s = update_moving_average K (ev_pid (ev n)) (?x n) (c n) s2"
    "LATENCY_PID_SUM s2 = LATENCY_PID_SUM s" "LATENCY_PID_COUNT s2 = LATENCY_PID_COUNT s"
    "LATENCY_WINDOW_START s2 = LATENCY_WINDOW_START s"
    using step(1) by (auto simp: x)
  have w2: "window_of s2 pid w = window_of s pid w" for pid w using s2 by (simp add: window_of_def)
  have room2: "pids_room s2 A" using Suc.prems(6) s2 by (simp add: pids_room_def)
  have pid: "pid_room s2 (ev_pid (ev n))" using pids_room_pid [OF room2 assms(9)] Suc.prems(7) by simp
  have len: "length (W pid) < 2 ^ 64" for pid using Suc.prems(9) [of pid] by simp
  have w2n: "window_of s2 (ev_pid (ev n)) (W (ev_pid (ev n)))" using Suc.prems(8) w2 by simp
  note upd = update_slides [OF assms(1) pid w2n len, where l = "?x n" and t = "c n", folded s2(1)]
  have W: "window_of ?s pid (?W pid)" for pid using upd(1,3) Suc.prems(8) w2 by (auto simp del: slide.simps)
  have Wlen: "length (?W pid) + n < 2 ^ 64" for pid
    using Suc.prems(9) [of pid] length_slide [of "W pid" "(?x n, c n)"] by (simp del: slide.simps)
  have roomA: "pids_room ?s A" using pids_room_update [OF assms(1) room2, of "ev_pid (ev n)"] Suc.prems(7) s2(1) by simp
  have other: "(of_nat i :: u32) \<noteq> of_nat n" if "i < n" for i using that n of_nat_hop_inject by auto
  have rest: "window_of (replies K ev r c n ?s) pid (foldl slide (?W pid) (reply_samples ev ?x c n pid))"
  proof (cases n)
    case 0
    then show ?thesis using W by (simp add: reply_samples_def)
  next
    case (Suc m)
    then have d: "downstream ?s p n = Some (?lat n)" using step(3) by simp
    have "window_of (replies K ev r c n ?s) pid
        (foldl slide (?W pid) (reply_samples ev (contribution ?lat (downstream ?s p n) n) c n pid))"
    proof (rule Suc.IH [OF _ step(4) _ _ _ roomA _ W Wlen])
      show "length (LATENCY_HOP_MAP ?s) + (if downstream ?s p n = None then 1 else 0) < 1024"
        using step(5) Suc.prems(3) d by (simp split: if_splits)
    qed (use step(2) n other Suc.prems(4,5,7) in auto)
    moreover have "contribution ?lat (downstream ?s p n) n i = ?x i" if "i < n" for i
      using that by (auto simp: contribution_def d)
    ultimately show ?thesis using reply_samples_cong [of n "contribution ?lat (downstream ?s p n) n" ?x] by simp
  qed
  then show ?case by (simp add: reply_samples_Suc del: slide.simps split: if_splits)
qed (simp add: reply_samples_def)

text \<open>Nested request/reply intervals telescope.\<close>

lemma contributions_telescope:
  assumes "\<And>i. Suc i < n \<Longrightarrow> unat (lat (Suc i)) \<le> unat (lat i)" and "0 < n"
  shows "(\<Sum>i<n. unat (contribution lat None n i)) = unat (lat 0)"
proof -
  obtain m where n: "n = Suc m" using assms(2) by (cases n) auto
  have x: "unat (contribution lat None n i) = unat (lat i) - unat (lat (Suc i))" if "i < m" for i
    using that n assms(1) [of i] by (simp add: contribution_def)
  have "(\<Sum>i<k. unat (lat i) - unat (lat (Suc i))) + unat (lat k) = unat (lat 0)" if "k \<le> m" for k
    using that
  proof (induction k)
    case (Suc k)
    then show ?case using assms(1) [of k] n by simp
  qed simp
  then show ?thesis using x n by (simp add: contribution_def)
qed


section \<open>Properties\<close>

text \<open>
  Endpoint and message keys are unambiguous: the packed keys of two (process, descriptor) or
  (hop, protocol) pairs are equal only if the pairs are.
\<close>

lemma sca_keys_unambiguous: "pair_key a b = pair_key c d \<longleftrightarrow> a = c \<and> b = d"
  by (rule pair_key_inject)

text \<open>
  The NNG header is read the same from either layout: \<open>read_nng_header\<close> yields exactly the
  big-endian protocol and type of a message that carries them behind nine SPF bytes in its first
  buffer, or, when the first buffer is shorter than a header, in its second and third buffer.
\<close>

lemma sca_header_layouts:
  "read_nng_header mem m = Some (p, t) \<longleftrightarrow>
     (\<exists>P T. carries_header mem m P T \<and> p = from_be_bytes P \<and> t = from_be_bytes T)"
  by (rule read_nng_header_iff)

lemma nested_round_trips:
  assumes "\<And>i. Suc i < n \<Longrightarrow> q i \<le> q (Suc i) \<and> r (Suc i) \<le> r i" and "q (n - 1) < r (n - 1)" and "i < n"
  shows "Suc i < n \<Longrightarrow> r (Suc i) - q (Suc i) \<le> r i - (q i :: u64)"
proof -
  have mono: "q i \<le> q j \<and> r j \<le> r i" if "i \<le> j" "j < n" for i j
    using that by (induction j rule: dec_induct) (use assms(1) in fastforce)+
  have le: "q i \<le> r i" if "i < n" for i
  proof -
    have "q i \<le> q (n - 1)" and "r (n - 1) \<le> r i" using mono [of i "n - 1"] that by auto
    then show ?thesis using assms(2) by (meson less_imp_le order_trans)
  qed
  assume "Suc i < n"
  then show "r (Suc i) - q (Suc i) \<le> r i - q i"
    using assms(1) [of i] le [of i] le [of "Suc i"] assms(3)
    by (simp add: word_le_nat_alt unat_sub [unfolded word_le_nat_alt]) linarith
qed

lemma sca_chain:
  assumes K: "hash_documented K" and ev: "reply_of evq p" "reply_of evr p" and n: "0 < n" "n \<le> 7"
    and room: "length (TIMESTAMP_MAP s) + n \<le> 1024" "length (LATENCY_HOP_MAP s) < 1023"
      "pids_room s ((\<lambda>i. ev_pid (evr i)) ` {..<n})"
    and fresh: "map_wf 1024 (LATENCY_HOP_MAP s)" "downstream s p n = None"
    and nested: "\<And>i. Suc i < n \<Longrightarrow> q i \<le> q (Suc i) \<and> r (Suc i) \<le> r i" "q (n - 1) < r (n - 1)"
    and windows: "\<And>pid. window_of s pid (W pid)" "\<And>pid. length (W pid) + n < 2 ^ 64"
    and x: "x = contribution (\<lambda>i. r i - q i) None n"
  shows "window_of (replies K evr r c n (requests K evq q n s)) pid (foldl slide (W pid) (reply_samples evr x c n pid))"
    and "(\<Sum>i<n. unat (x i)) = unat (r 0) - unat (q 0)"
proof -
  let ?s = "requests K evq q n s"
  note req = requests_recorded [OF K ev(1) n(2) room(1), of q]
  have mono: "q i \<le> q j \<and> r j \<le> r i" if "i \<le> j" "j < n" for i j
    using that by (induction j rule: dec_induct) (use nested(1) in fastforce)+
  have le: "q i < r i" if "i < n" for i
  proof -
    have "q i \<le> q (n - 1)" and "r (n - 1) \<le> r i" using mono [of i "n - 1"] that by auto
    then show ?thesis using nested(2) by (meson le_less_trans less_le_trans)
  qed
  have lat: "unat (r i - q i) = unat (r i) - unat (q i)" if "i < n" for i
    using le [OF that] by (simp add: unat_sub)
  have d: "downstream ?s p n = None" using req fresh(2) by (simp add: downstream_def split: if_splits)
  have "window_of (replies K evr r c n ?s) pid
      (foldl slide (W pid) (reply_samples evr (contribution (\<lambda>i. r i - q i) (downstream ?s p n) n) c n pid))"
  proof (rule replies_windows [OF K ev(2) n(2), where A = "(\<lambda>i. ev_pid (evr i)) ` {..<n}"])
    show "r i - q i \<noteq> 0" if "i < n" for i using le [OF that] by auto
    show "pids_room ?s ((\<lambda>i. ev_pid (evr i)) ` {..<n})" using room(3) req by (simp add: pids_room_def)
    show "window_of ?s pid (W pid)" for pid using windows(1) [of pid] req by (simp add: window_of_def)
  qed (use req room fresh windows(2) d in auto)
  then show "window_of (replies K evr r c n ?s) pid (foldl slide (W pid) (reply_samples evr x c n pid))" by (simp add: d x)
  have "unat (r (Suc i) - q (Suc i)) \<le> unat (r i - q i)" if "Suc i < n" for i
    using nested(1) [OF that] that by (simp add: lat word_le_nat_alt diff_le_mono2 diff_le_mono le_diff_conv2)
      (metis diff_le_mono diff_le_mono2 le_trans)
  then show "(\<Sum>i<n. unat (x i)) = unat (r 0) - unat (q 0)"
    using contributions_telescope [of n "\<lambda>i. r i - q i"] n(1) lat [of 0] by (simp add: x)
qed

text \<open>
  C4. Along a lockstep chain the latencies in the maps of the agent add up to the end-to-end latency:
  when a message is requested over hops \<open>0 .. n - 1\<close> at times \<open>q 0 \<le> q 1 \<le> ...\<close> and answered in
  reverse at \<open>... \<le> r 1 \<le> r 0\<close>, the handlers add to the window of each process exactly one sample for
  each of its replies, the round trip of the hop minus the round trip of the hop after it, and
  change the window of no other process; these samples sum to \<open>r 0 - q 0\<close>.
\<close>

theorem sca_chain_telescopes:
  assumes K: "hash_documented K" and ev: "reply_of evq p" "reply_of evr p" and n: "0 < n" "n \<le> 7"
    and room: "length (TIMESTAMP_MAP s) + n \<le> 1024" "length (LATENCY_HOP_MAP s) < 1023"
      "pids_room s ((\<lambda>i. ev_pid (evr i)) ` {..<n})"
    and fresh: "map_wf 1024 (LATENCY_HOP_MAP s)" "downstream s p n = None"
    and nested: "\<And>i. Suc i < n \<Longrightarrow> q i \<le> q (Suc i) \<and> r (Suc i) \<le> r i" "q (n - 1) < r (n - 1)"
    and windows: "\<And>pid. window_of s pid (W pid)" "\<And>pid. length (W pid) + n < 2 ^ 64"
    and x: "x = (\<lambda>i. if Suc i = n then r i - q i else (r i - q i) - (r (Suc i) - q (Suc i)))"
  shows "(\<forall>pid. window_of (replies K evr r c n (requests K evq q n s)) pid
            (foldl slide (W pid) (reply_samples evr x c n pid)))
       \<and> (\<Sum>i<n. unat (x i)) = unat (r 0) - unat (q 0)"
proof -
  let ?y = "contribution (\<lambda>i. r i - q i) None n"
  note chain = sca_chain(1) [OF K ev n room fresh nested windows refl [of ?y], where c = c]
    sca_chain(2) [OF K ev n room fresh nested windows refl [of ?y]]
  have "?y i = x i" if "i < n" for i
    using that nested_round_trips [OF nested that] by (auto simp: x contribution_def saturating_sub_def)
  then show ?thesis using chain reply_samples_cong [of n ?y x] by simp
qed

definition sca_demo_ev :: "nat \<Rightarrow> SendEvent" where
  "sca_demo_ev i = \<lparr>ev_endpoint = \<lparr>hop_index = of_nat i, is_sender = 0, path = []\<rparr>, ev_pid = 100 + of_nat i,
     ev_fd = 5, ev_proc_name = [], ev_sock_path = [], ev_protocol = 0x80000001, ev_msg_type = 1\<rparr>"

lemma sca_demo_ev_reply [simp]: "reply_of sca_demo_ev 0x80000001"
  by (simp add: reply_of_def sca_demo_ev_def)

lemma maps_init_room: "card A \<le> 16 \<Longrightarrow> pids_room sca_maps_init A"
  by (simp add: pids_room_def sca_maps_init_def map_wf_def keys_def)

lemma maps_init_window: "window_of sca_maps_init pid []"
  by (simp add: window_of_def sca_maps_init_def)

theorem sca_chain_telescopes_witness:
  "let s = replies ref_kernel sca_demo_ev (\<lambda>i. if i = 0 then 90 else 70) (\<lambda>_. 90) 2
     (requests ref_kernel sca_demo_ev (\<lambda>i. if i = 0 then 10 else 20) 2 sca_maps_init)
   in window_of s 100 [(30, 90)] \<and> window_of s 101 [(50, 90)]"
proof -
  let ?q = "\<lambda>i :: nat. if i = 0 then 10 else 20 :: u64" and ?r = "\<lambda>i :: nat. if i = 0 then 90 else 70 :: u64"
  let ?s = "replies ref_kernel sca_demo_ev ?r (\<lambda>_. 90) 2 (requests ref_kernel sca_demo_ev ?q 2 sca_maps_init)"
  let ?x = "\<lambda>i. if Suc i = 2 then ?r i - ?q i else (?r i - ?q i) - (?r (Suc i) - ?q (Suc i))"
  have "downstream sca_maps_init 0x80000001 2 = None" by (simp add: downstream_def sca_maps_init_def)
  moreover have "card ((\<lambda>i. ev_pid (sca_demo_ev i)) ` {..<2}) \<le> 16"
    by (rule le_trans [OF card_image_le]) simp_all
  ultimately have chain: "(\<forall>pid. window_of ?s pid (foldl slide [] (reply_samples sca_demo_ev ?x (\<lambda>_. 90) 2 pid)))
      \<and> (\<Sum>i<2. unat (?x i)) = unat (?r 0) - unat (?q 0)"
    by (intro sca_chain_telescopes [OF ref_kernel_hash_documented sca_demo_ev_reply sca_demo_ev_reply _ _ _ _
          maps_init_room _ _ _ _ maps_init_window])
      (simp_all add: sca_maps_init_def map_wf_def keys_def)
  have x: "reply_samples sca_demo_ev ?x (\<lambda>_. 90) 2 100 = [(30, 90)]" "reply_samples sca_demo_ev ?x (\<lambda>_. 90) 2 101 = [(50, 90)]"
    by (simp_all add: reply_samples_def upt_rec sca_demo_ev_def)
  show ?thesis
    unfolding Let_def using conjunct1 [OF chain, rule_format, of 100, unfolded x] conjunct1 [OF chain, rule_format, of 101, unfolded x]
    by simp
qed

text \<open>
  C26. The per-process accumulators are exactly the moving-average window: after any sequence of
  samples the sum and the count in the maps are those of the samples of the current window, its
  anchor is the time of the first of them, and none of them is later than \<open>WINDOW_SIZE_NS\<close> after
  the anchor.
\<close>

theorem sca_window_refines:
  assumes "hash_documented K" and "pid_room s pid" and "window_of s pid []" and "length xs < 2 ^ 64"
    and "w = foldl slide [] xs"
  shows "window_of (feed K pid xs s) pid w \<and> (\<forall>x\<in>set w. snd x - snd (hd w) \<le> WINDOW_SIZE_NS)"
  using feed_slides [OF assms(1-3), of xs] window_within [of "[]" xs] assms(4,5) by simp

theorem sca_window_refines_witness:
  "unwrap_or (map_get (LATENCY_PID_SUM (feed ref_kernel 7
       [(100, 5000000000), (200, 5100000000), (300, 8000000000)] sca_maps_init)) 7) 0 = 300
   \<and> unwrap_or (map_get (LATENCY_PID_SUM (feed ref_kernel 7
       [(100, 5000000000), (200, 5100000000)] sca_maps_init)) 7) 0 = 300"
proof -
  have "pid_room sca_maps_init 7" and "window_of sca_maps_init 7 []"
    by (simp_all add: pid_room_def hash_room_def window_of_def sca_maps_init_def)
  note w = sca_window_refines [OF ref_kernel_hash_documented this _ refl]
  show ?thesis
    using w [of "[(100, 5000000000), (200, 5100000000), (300, 8000000000)]"]
      w [of "[(100, 5000000000), (200, 5100000000)]"]
    by (simp add: window_of_def WINDOW_SIZE_NS_def)
qed

text \<open>
  A published latency can outlive its message: when the request of hop 0 was not seen (a
  message in flight when tracing starts), the reply of hop 1 publishes its latency, the reply of
  hop 0 changes no map, and the published entry stays in \<open>LATENCY_HOP_MAP\<close> although nothing will
  consume it.
\<close>

lemma sca_downstream_entry_leaks:
  assumes K: "hash_documented K" and ev: "reply_of ev p" and r: "q < r"
    and wf: "map_wf 1024 (LATENCY_HOP_MAP s)"
    and room: "length (LATENCY_HOP_MAP s) < 1024" "length (TIMESTAMP_MAP s) < 1024"
    and unseen: "map_get (TIMESTAMP_MAP s) (pair_key 0 p) = None"
    and s1: "s1 = handle_response K (ev 1) r t (handle_request K (ev 1) q s)"
  shows "handle_response K (ev 0) r' t' s1 = s1 \<and> downstream s1 p 1 = Some (r - q)"
proof -
  let ?s = "handle_request K (ev 1) q s"
  have ev01: "hop_index (ev_endpoint (ev 0)) = 0" "ev_protocol (ev 0) = p"
    "hop_index (ev_endpoint (ev 1)) = 1" "ev_protocol (ev 1) = p"
    using ev by (simp_all add: reply_of_def)
  have req: "?s = s\<lparr>TIMESTAMP_MAP := hash_put K 1024 (TIMESTAMP_MAP s) (pair_key 1 p) q\<rparr>"
    using ev01 by (simp add: handle_request_def store_timestamp_with_protocol_def)
  have T: "map_get (TIMESTAMP_MAP ?s) = (map_get (TIMESTAMP_MAP s))(pair_key 1 p \<mapsto> q)"
    using room(2) by (simp only: req) (simp add: map_get_hash_put_room [OF K])
  have H: "LATENCY_HOP_MAP ?s = LATENCY_HOP_MAP s" by (simp only: req) simp
  have "map_wf 1024 (LATENCY_HOP_MAP ?s)" and "length (LATENCY_HOP_MAP ?s) < 1024" and "1 < (7 :: nat)"
    and "map_get (TIMESTAMP_MAP ?s) (pair_key (of_nat 1) p) = Some q" and "r - q \<noteq> 0"
    using wf room(1) T r by (simp_all only: H) auto
  note step = reply_step [OF K this(1-3) ev this(4,5) s1]
  have d: "downstream s1 p 1 = Some (r - q)" using step(3) by simp
  have "map_get (TIMESTAMP_MAP s1) = (map_get (TIMESTAMP_MAP ?s))(pair_key 1 p := None)"
    using step(2) by simp
  then have "map_get (TIMESTAMP_MAP s1) (pair_key 0 p) = None"
    using T unseen by simp
  then show ?thesis using handle_response_miss [of s1 "ev 0"] d ev01 by simp
qed

lemma sca_downstream_entry_leaks_witness:
  "downstream (handle_response ref_kernel (sca_demo_ev 1) 70 70
     (handle_request ref_kernel (sca_demo_ev 1) 20 sca_maps_init)) 0x80000001 1 = Some 50"
  using sca_downstream_entry_leaks [OF ref_kernel_hash_documented sca_demo_ev_reply, of 20 70 sca_maps_init _ 70]
  by (simp add: sca_maps_init_def)

end
