(* ===== verification/Sca_Discovery.thy ===== *)
theory Sca_Discovery
  imports Sca_Ebpf Config
begin

text \<open>
  How the agent finds the endpoints of the configured hops: the parsers of
  \<open>src/bpfagent/src/programs/sca/helpers.rs\<close> and the discovery of
  \<open>src/bpfagent/src/programs/sca/mod.rs\<close>. The output of \<open>ss -xpH\<close> and the files under \<open>/proc\<close> are
  parameters.

  Shown: the parser reads exactly the established stream sockets out of a listing, whatever its
  padding and its other rows; what exactly is discovered; a socket is the endpoint of at most one hop.
\<close>

section \<open>Parsing \<open>ss\<close>\<close>

record UnixSockRec =
  us_pid :: u32
  us_fd :: u32
  us_inode :: u64
  us_peer_inode :: u64
  us_path :: "string option"

lemma after_first_shrinks:
  assumes "after_first p s = Some r"
  shows "length r + length p \<le> length s"
  using assms
proof (induction s)
  case (Cons c s)
  have "length p \<le> length (c # s)" if "starts_with p (c # s)"
    using that by (metis length_take min.absorb_iff2 nat_le_linear starts_with_def)
  then show ?case using Cons
    by (auto simp: after_first.simps [of p "c # s"] split: if_splits)
qed (auto simp: after_first.simps [of p "[]"] starts_with_def split: if_splits)

function parse_ss_users :: "string \<Rightarrow> (u32 \<times> u32) list" where
  "parse_ss_users users =
     (case after_first ''pid='' users of
        None \<Rightarrow> []
      | Some rest \<Rightarrow>
          (case parse_u32 (takeWhile is_ascii_digit rest) of
             None \<Rightarrow> []
           | Some pid \<Rightarrow>
               (case after_first ''fd='' rest of
                  None \<Rightarrow> []
                | Some rest \<Rightarrow>
                    (case parse_u32 (takeWhile is_ascii_digit rest) of
                       None \<Rightarrow> []
                     | Some fd \<Rightarrow> (pid, fd) # parse_ss_users rest))))"
  by pat_completeness auto
termination
  by (relation "measure length") (auto dest!: after_first_shrinks)

declare parse_ss_users.simps [simp del]

definition parse_ss_line :: "string \<Rightarrow> UnixSockRec list" where
  "parse_ss_line line =
     (let t = split_whitespace line
      in if length t < 9 \<or> t ! 0 \<noteq> ''u_str'' \<or> t ! 1 \<noteq> ''ESTAB'' then []
         else
           (case (parse_u64 (t ! 5), parse_u64 (t ! 7)) of
              (Some inode, Some peer_inode) \<Rightarrow>
                (let pth = (if t ! 4 = ''*'' then None else Some (t ! 4))
                 in map (\<lambda>(pid, fd). \<lparr>us_pid = pid, us_fd = fd, us_inode = inode,
                          us_peer_inode = peer_inode, us_path = pth\<rparr>)
                      (parse_ss_users (join '' '' (drop 8 t))))
            | _ \<Rightarrow> []))"

definition parse_ss_unix_stream :: "string \<Rightarrow> UnixSockRec list" where
  "parse_ss_unix_stream output = concat (map parse_ss_line (lines output))"

definition paths_by_inode :: "UnixSockRec list \<Rightarrow> (u64 \<times> string) list" where
  "paths_by_inode sockets =
     foldl (\<lambda>m s. case us_path s of None \<Rightarrow> m | Some p \<Rightarrow> AList.update (us_inode s) p m) [] sockets"

text \<open>The environment of the discovery: \<open>ss\<close> could not be run, or its standard output; the
  contents of a file, unless it cannot be read.\<close>

record sca_env =
  ss_output :: "string + string"
  proc_read :: "string \<Rightarrow> string option"

definition query_established_unix_sockets :: "('a) sca_env_scheme \<Rightarrow> UnixSockRec list result" where
  "query_established_unix_sockets env =
     (case ss_output env of
        Inl e \<Rightarrow> Inl [''Failed to run ss -xpH: '' @ e]
      | Inr stdout \<Rightarrow> Inr (parse_ss_unix_stream (from_utf8_lossy stdout)))"

definition parse_nspid :: "string \<Rightarrow> u32 option" where
  "parse_nspid status =
     do {
       line \<leftarrow> find (starts_with ''NSpid:'') (lines status);
       rest \<leftarrow> strip_prefix ''NSpid:'' line;
       (case split_whitespace rest of [] \<Rightarrow> None | w # _ \<Rightarrow> parse_u32 w)
     }"

definition to_host_pid :: "('a) sca_env_scheme \<Rightarrow> u32 \<Rightarrow> u32" where
  "to_host_pid env pid =
     unwrap_or (Option.bind (proc_read env (''/proc/'' @ to_string pid @ ''/status'')) parse_nspid) pid"

definition comm_matches :: "('a) sca_env_scheme \<Rightarrow> u32 \<Rightarrow> string \<Rightarrow> bool" where
  "comm_matches env pid expected =
     (case proc_read env (''/proc/'' @ to_string pid @ ''/comm'') of
        Some c \<Rightarrow> trim c = expected
      | None \<Rightarrow> True)"


section \<open>Discovery\<close>

definition endpoint_role :: "UnixSockRec \<Rightarrow> string \<Rightarrow> (u64 \<times> string) list \<Rightarrow> u32 option" where
  "endpoint_role sock pth path_by_inode =
     (if us_path sock = Some pth then Some 0
      else if us_path sock = None \<and> map_of path_by_inode (us_peer_inode sock) = Some pth then Some 1
      else None)"

record DiscoveredHop =
  dh_hop_index :: nat
  dh_host_pid :: u32
  dh_fd :: u32
  dh_is_sender :: u32
  dh_path :: string
  dh_pname :: string

definition discover_socket ::
  "('a) sca_env_scheme \<Rightarrow> (u64 \<times> string) list \<Rightarrow> nat \<times> string \<times> string \<times> string \<Rightarrow> UnixSockRec \<Rightarrow> DiscoveredHop list" where
  "discover_socket env path_by_inode hop sock =
     (case hop of (i, pth, sending, receiving) \<Rightarrow>
        (case endpoint_role sock pth path_by_inode of
           None \<Rightarrow> []
         | Some role \<Rightarrow>
             (let pname = (if role = 1 then sending else receiving)
              in if \<not> comm_matches env (us_pid sock) pname then []
                 else [\<lparr>dh_hop_index = i, dh_host_pid = to_host_pid env (us_pid sock), dh_fd = us_fd sock,
                        dh_is_sender = role, dh_path = pth, dh_pname = pname\<rparr>])))"

definition discover_hop_sockets :: "('a) sca_env_scheme \<Rightarrow> DiscoveredHop list result" where
  "discover_hop_sockets env =
     (case query_established_unix_sockets env of
        Inl e \<Rightarrow> Inl e
      | Inr sockets \<Rightarrow>
          (let path_by_inode = paths_by_inode sockets
           in Inr (concat (map (\<lambda>hop. concat (map (discover_socket env path_by_inode hop) sockets))
                (enumerate 0 DATA_FLOW)))))"


text \<open>Nothing but the sockets and the files of \<open>/proc\<close> decides what is discovered.\<close>

lemma discover_cong:
  assumes "ss_output env = ss_output env'" and "proc_read env = proc_read env'"
  shows "discover_hop_sockets env = discover_hop_sockets env'"
proof -
  have read: "comm_matches env = comm_matches env'" "to_host_pid env = to_host_pid env'"
    by (intro ext; simp add: comm_matches_def to_host_pid_def assms(2))+
  have sock: "discover_socket env = discover_socket env'"
    by (intro ext) (unfold discover_socket_def read, rule refl)
  show ?thesis unfolding discover_hop_sockets_def query_established_unix_sockets_def assms(1) sock ..
qed


section \<open>What \<open>ss\<close> prints\<close>

text \<open>The listing of \<open>ss -xpH\<close>. A row of an established stream socket has the two queues, the path
  or an asterisk, the inode, what is shown as the name of the peer, the inode of the peer, and the
  processes that hold the socket, each with its name, process id and descriptor; the last column is
  absent where no process is known. Any number of blanks pads the columns. Every other row is an
  arbitrary text that does not start with the words \<open>u_str ESTAB\<close>.\<close>

type_synonym ss_user = "string \<times> u32 \<times> u32"

definition show_user :: "ss_user \<Rightarrow> string" where
  "show_user u = (case u of (name, pid, fd) \<Rightarrow>
     [CHR ''('', CHR 0x22] @ name @ [CHR 0x22] @ '',pid='' @ to_string pid @ '',fd='' @ to_string fd @ '')'')"

definition show_users :: "ss_user list \<Rightarrow> string" where
  "show_users us = ''users:('' @ join '','' (map show_user us) @ '')''"

record ss_socket =
  sk_path :: "string option"
  sk_inode :: u64
  sk_peer :: u64
  sk_users :: "ss_user list"

record ss_layout =
  recv_q :: u32
  send_q :: u32
  peer_name :: string
  pads :: "nat list"
  trailing :: nat

datatype ss_line = Stream ss_layout ss_socket | Other string

text \<open>Words padded to columns: one blank after each, and as many more as the layout says.\<close>

fun columns :: "nat list \<Rightarrow> string list \<Rightarrow> string" where
  "columns ns [] = []"
| "columns [] (w # ws) = w @ '' '' @ columns [] ws"
| "columns (n # ns) (w # ws) = w @ replicate (Suc n) (CHR '' '') @ columns ns ws"

fun show_line :: "ss_line \<Rightarrow> string" where
  "show_line (Stream y k) = columns (pads y)
     [''u_str'', ''ESTAB'', to_string (recv_q y), to_string (send_q y), unwrap_or (sk_path k) ''*'',
      to_string (sk_inode k), peer_name y, to_string (sk_peer k)]
     @ (if sk_users k = [] then [] else show_users (sk_users k)) @ replicate (trailing y) (CHR '' '')"
| "show_line (Other l) = l"

definition show_ss :: "ss_line list \<Rightarrow> string" where
  "show_ss ls = concat (map (\<lambda>l. show_line l @ [CHR 0x0A]) ls)"

definition printable :: "string \<Rightarrow> bool" where
  "printable s \<longleftrightarrow> s \<noteq> [] \<and> list_all (\<lambda>c. \<not> is_whitespace c) s"

definition unbroken :: "string \<Rightarrow> bool" where
  "unbroken s \<longleftrightarrow> CHR 0x0A \<notin> set s \<and> CHR 0x0D \<notin> set s"

definition ss_socket_ok :: "ss_socket \<Rightarrow> bool" where
  "ss_socket_ok k \<longleftrightarrow>
     (case sk_path k of None \<Rightarrow> True | Some p \<Rightarrow> printable p \<and> p \<noteq> ''*'')
     \<and> list_all (\<lambda>(name, _). unbroken name \<and> after_first ''pid='' name = None) (sk_users k)"

fun ss_line_ok :: "ss_line \<Rightarrow> bool" where
  "ss_line_ok (Stream y k) \<longleftrightarrow> printable (peer_name y) \<and> ss_socket_ok k"
| "ss_line_ok (Other l) \<longleftrightarrow> unbroken l \<and> take 2 (split_whitespace l) \<noteq> [''u_str'', ''ESTAB'']"

fun socket_of :: "ss_line \<Rightarrow> ss_socket option" where
  "socket_of (Stream y k) = Some k"
| "socket_of (Other l) = None"

definition sockets_of :: "ss_line list \<Rightarrow> ss_socket list" where
  "sockets_of ls = List.map_filter socket_of ls"

definition records_of :: "ss_socket \<Rightarrow> UnixSockRec list" where
  "records_of k = map (\<lambda>(_, pid, fd). \<lparr>us_pid = pid, us_fd = fd, us_inode = sk_inode k,
     us_peer_inode = sk_peer k, us_path = sk_path k\<rparr>) (sk_users k)"

lemma takeWhile_to_string:
  assumes "\<not> is_ascii_digit c"
  shows "takeWhile is_ascii_digit (to_string w @ c # r) = to_string w"
proof -
  have "\<forall>x\<in>set (to_string w). is_ascii_digit x"
    unfolding to_string_def using decimal_digits [of "unat w"] by (simp only: list_all_iff)
  then show ?thesis using assms by (simp add: takeWhile_append)
qed

text \<open>A character that the pattern does not contain separates the search.\<close>

lemma starts_with_sep:
  assumes "starts_with p (a @ d # b)" and "d \<notin> set p"
  shows "starts_with p a"
proof (cases "length p \<le> length a")
  case False
  then have "d \<in> set (take (length p) (a @ d # b))" by (simp add: take_Cons' split: if_splits)
  then have "d \<in> set p" using assms(1) by (simp only: starts_with_def)
  then show ?thesis using assms(2) by blast
qed (use assms(1) in \<open>simp add: starts_with_def\<close>)

lemma starts_with_append: "starts_with p a \<Longrightarrow> starts_with p (a @ b)"
  by (metis append_take_drop_id append.assoc append_eq_conv_conj starts_with_def)

lemma after_first_sep:
  assumes "p \<noteq> []" and "d \<notin> set p"
  shows "after_first p (a @ d # b) =
    (case after_first p a of None \<Rightarrow> after_first p b | Some r \<Rightarrow> Some (r @ d # b))"
proof (induction a)
  case Nil
  have "\<not> starts_with p (d # b)" "\<not> starts_with p []"
    using assms by (cases p; auto simp: starts_with_def)+
  then show ?case by (simp add: after_first.simps [of p "d # b"] after_first.simps [of p "[]"])
next
  case (Cons c a)
  show ?case
  proof (cases "starts_with p (c # a)")
    case True
    then have "length p \<le> length (c # a)" by (metis length_take min.absorb_iff2 nat_le_linear starts_with_def)
    then have "drop (length p) ((c # a) @ d # b) = drop (length p) (c # a) @ d # b" by (simp only: drop_append) simp
    then show ?thesis
      using True starts_with_append [OF True, of "d # b"]
      by (simp add: after_first.simps [of p "c # a @ d # b"] after_first.simps [of p "c # a"])
  next
    case False
    then have "\<not> starts_with p ((c # a) @ d # b)" using starts_with_sep assms(2) by blast
    then show ?thesis
      using False Cons by (simp add: after_first.simps [of p "c # a @ d # b"] after_first.simps [of p "c # a"])
  qed
qed

lemma after_first_Cons:
  assumes "p \<noteq> []" and "d \<notin> set p"
  shows "after_first p (d # b) = after_first p b"
  using after_first_sep [OF assms, of "[]" b] assms(1)
  by (simp add: after_first.simps [of p "[]"] starts_with_def)

lemma after_first_none: "d \<in> set p \<Longrightarrow> d \<notin> set s \<Longrightarrow> after_first p s = None"
proof (induction s)
  case Nil
  then show ?case by (subst after_first.simps) (auto simp: starts_with_def)
next
  case (Cons c s)
  then have "\<not> starts_with p (c # s)" by (metis in_set_takeD starts_with_def)
  then show ?case using Cons by (subst after_first.simps) auto
qed

lemma not_in_to_string: "\<not> is_ascii_digit c \<Longrightarrow> c \<notin> set (to_string w)"
  unfolding to_string_def using decimal_digits [of "unat w"] by (auto simp: list_all_iff)

lemma not_digits [simp]:
  "\<not> is_ascii_digit (CHR '','')" "\<not> is_ascii_digit (CHR '')'')" "\<not> is_ascii_digit (CHR ''='')"
  "\<not> is_ascii_digit (CHR '' '')" "\<not> is_ascii_digit (CHR ''*'')"
  by (simp_all add: is_ascii_digit_def)

lemma parse_ss_users_end: "after_first ''pid='' s = None \<Longrightarrow> parse_ss_users s = []"
  by (subst parse_ss_users.simps) simp

lemma parse_ss_users_step:
  assumes "after_first ''pid='' pre = None" and "after_first ''pid='' name = None"
  shows "parse_ss_users (pre @ show_user (name, pid, fd) @ post)
           = (pid, fd) # parse_ss_users (to_string fd @ CHR '')'' # post)"
proof -
  let ?rest = "to_string pid @ CHR '','' # ''fd='' @ to_string fd @ CHR '')'' # post"
  note sep = after_first_sep [of "''pid=''"] after_first_Cons [of "''pid=''"]
  have 1: "after_first ''pid='' (pre @ show_user (name, pid, fd) @ post) = Some ?rest"
    using after_first_here [of "''pid=''" ?rest] by (simp add: show_user_def sep assms)
  have "after_first (''fd'' @ CHR ''='' # []) ((to_string pid @ '','') @ (''fd'' @ CHR ''='' # []) @ to_string fd @ CHR '')'' # post)
      = Some (to_string fd @ CHR '')'' # post)"
    by (rule after_first_mark) (auto simp: not_in_to_string)
  then have 2: "after_first ''fd='' ?rest = Some (to_string fd @ CHR '')'' # post)" by simp
  have "takeWhile is_ascii_digit ?rest = to_string pid"
    "takeWhile is_ascii_digit (to_string fd @ CHR '')'' # post) = to_string fd"
    by (rule takeWhile_to_string; simp)+
  then show ?thesis using 2 by (subst parse_ss_users.simps) (simp add: 1)
qed

lemma parse_ss_users_show:
  assumes "list_all (\<lambda>(name, _). after_first ''pid='' name = None) us" and "after_first ''pid='' pre = None"
  shows "parse_ss_users (pre @ join '','' (map show_user us) @ '')'') = map snd us"
  using assms
proof (induction us arbitrary: pre)
  case Nil
  then have "after_first ''pid='' (pre @ '')'') = None"
    using after_first_sep [of "''pid=''" "CHR '')''" pre "[]"] after_first_none [of "CHR ''=''" "''pid=''" "[]"] by simp
  then show ?case by (simp add: parse_ss_users_end)
next
  case (Cons u us)
  obtain name pid fd where u: "u = (name, pid, fd)" by (cases u)
  have no: "CHR ''='' \<notin> set (to_string fd @ s)" if "CHR ''='' \<notin> set s" for s using that by (auto simp: not_in_to_string)
  then have rest: "after_first ''pid='' (to_string fd @ s) = None" if "CHR ''='' \<notin> set s" for s
    using that by (intro after_first_none [of "CHR ''=''"]) auto
  show ?case
  proof (cases us)
    case Nil
    have "parse_ss_users (pre @ show_user u @ '')'') = (pid, fd) # parse_ss_users (to_string fd @ '')'' @ '')'')"
      using parse_ss_users_step [of pre name pid fd "'')''"] Cons.prems u by simp
    then show ?thesis using Nil parse_ss_users_end [OF rest [of "''))''"]] u by simp
  next
    case (Cons v vs)
    have "parse_ss_users ((to_string fd @ ''),'') @ join '','' (map show_user us) @ '')'') = map snd us"
      using Cons.IH [of "to_string fd @ ''),''"] Cons.prems rest [of "''),''"] by simp
    then show ?thesis
      using parse_ss_users_step [of pre name pid fd "'','' @ join '','' (map show_user us) @ '')''"] Cons.prems u Cons
      by simp
  qed
qed

lemma blank_whitespace [simp]: "is_whitespace (CHR '' '')"
  by (simp add: is_whitespace_def)

lemma split_whitespace_word:
  assumes "printable w"
  shows "split_whitespace (w @ CHR '' '' # s) = w # split_whitespace s" and "split_whitespace w = [w]"
proof -
  obtain c cs where w: "w = c # cs" "\<not> is_whitespace c" "\<forall>x\<in>set cs. \<not> is_whitespace x"
    using assms by (cases w) (auto simp: printable_def list_all_iff)
  have spl: "takeWhile (\<lambda>c. \<not> is_whitespace c) (cs @ CHR '' '' # s) = cs"
    "dropWhile (\<lambda>c. \<not> is_whitespace c) (cs @ CHR '' '' # s) = CHR '' '' # s"
    "takeWhile (\<lambda>c. \<not> is_whitespace c) cs = cs" "dropWhile (\<lambda>c. \<not> is_whitespace c) cs = []"
    using w(3) by (simp_all add: takeWhile_append dropWhile_append)
  show "split_whitespace (w @ CHR '' '' # s) = w # split_whitespace s" and "split_whitespace w = [w]"
    by (simp_all add: w(1,2) spl)
qed

lemma split_whitespace_blanks: "split_whitespace (replicate n (CHR '' '') @ s) = split_whitespace s"
  by (induction n) simp_all

lemma split_whitespace_columns:
  "list_all printable ws \<Longrightarrow> split_whitespace (columns ns ws @ s) = ws @ split_whitespace s"
  by (induction ns ws rule: columns.induct)
    (simp_all add: split_whitespace_word split_whitespace_blanks del: split_whitespace.simps)

text \<open>Joining the words of a text with blanks squeezes its white space.\<close>

fun squeeze :: "string \<Rightarrow> string" where
  "squeeze [] = []"
| "squeeze (c # cs) =
     (if is_whitespace c then (if cs = [] \<or> is_whitespace (hd cs) then squeeze cs else CHR '' '' # squeeze cs)
      else c # squeeze cs)"

lemma squeeze_append:
  "a \<noteq> [] \<Longrightarrow> \<not> is_whitespace (last a) \<Longrightarrow> squeeze (a @ b) = squeeze a @ squeeze b"
proof (induction a)
  case (Cons c a)
  show ?case
  proof (cases "a = []")
    case False
    then have "squeeze (a @ b) = squeeze a @ squeeze b" "hd (a @ b) = hd a" using Cons by simp_all
    then show ?thesis using False by simp
  qed (use Cons.prems in simp)
qed simp

lemma squeeze_printable: "list_all (\<lambda>c. \<not> is_whitespace c) a \<Longrightarrow> squeeze (a @ b) = a @ squeeze b"
  by (induction a) auto

lemma squeeze_blanks: "squeeze (replicate n (CHR '' '')) = []"
  by (induction n) (auto simp: hd_replicate gr0_conv_Suc)

lemma squeeze_gap:
  assumes "s = [] \<or> is_whitespace (hd s)"
  shows "squeeze s = (if dropWhile is_whitespace s = [] then [] else CHR '' '' # squeeze (dropWhile is_whitespace s))"
  using assms
proof (induction s)
  case (Cons c s)
  then have c: "is_whitespace c" by simp
  show ?case
  proof (cases "s = [] \<or> is_whitespace (hd s)")
    case True
    then have "squeeze (c # s) = squeeze s" using c by simp
    then show ?thesis using Cons.IH [OF True] c by (simp del: squeeze.simps)
  next
    case False
    then have "dropWhile is_whitespace (c # s) = s" using c by (cases s) simp_all
    moreover have "squeeze (c # s) = CHR '' '' # squeeze s" using c False by simp
    ultimately show ?thesis using False by (simp del: squeeze.simps)
  qed
qed simp

lemma split_whitespace_Nil_iff: "split_whitespace s = [] \<longleftrightarrow> dropWhile is_whitespace s = []"
  by (induction s) auto

lemma join_split_whitespace:
  "join '' '' (split_whitespace s) = squeeze (dropWhile is_whitespace s)"
proof (induction s rule: split_whitespace.induct)
  case (2 c cs)
  show ?case
  proof (cases "is_whitespace c")
    case False
    let ?w = "takeWhile (\<lambda>c. \<not> is_whitespace c) cs" and ?r = "dropWhile (\<lambda>c. \<not> is_whitespace c) cs"
    have w: "list_all (\<lambda>c. \<not> is_whitespace c) (c # ?w)" using False by (auto simp: list_all_iff dest: set_takeWhileD)
    have r: "?r = [] \<or> is_whitespace (hd ?r)" using hd_dropWhile [of "\<lambda>c. \<not> is_whitespace c" cs] by blast
    have "squeeze (c # cs) = c # ?w @ squeeze ?r" using squeeze_printable [OF w, of ?r] by simp
    also have "\<dots> = join '' '' ((c # ?w) # split_whitespace ?r)"
    proof (cases "split_whitespace ?r")
      case Nil
      then have "squeeze ?r = []" using squeeze_gap [OF r] split_whitespace_Nil_iff [of ?r] by presburger
      then show ?thesis unfolding Nil by simp
    next
      case (Cons v vs)
      then have "squeeze ?r = CHR '' '' # join '' '' (v # vs)"
        using squeeze_gap [OF r] split_whitespace_Nil_iff [of ?r] 2(2) [OF False] by (metis list.distinct(1))
      then show ?thesis unfolding Cons by simp
    qed
    finally have "squeeze (c # cs) = join '' '' ((c # ?w) # split_whitespace ?r)" .
    then show ?thesis using False by (simp del: squeeze.simps)
  qed (use 2 in simp)
qed simp

lemma squeeze_starts_with:
  assumes "starts_with p (squeeze s)" and "list_all (\<lambda>c. \<not> is_whitespace c) p"
  shows "starts_with p s"
  using assms
proof (induction p arbitrary: s)
  case (Cons c p)
  have white: "squeeze (d # ds) = [] \<or> hd (squeeze (d # ds)) = CHR '' ''" if "is_whitespace d" for d ds
    using that by (induction ds arbitrary: d) auto
  have c: "squeeze s \<noteq> [] \<and> hd (squeeze s) = c" "\<not> is_whitespace c"
    using Cons.prems by (cases "squeeze s"; auto simp: starts_with_def)+
  obtain d ds where ds: "s = d # ds" using c(1) by (cases s) simp_all
  then have "\<not> is_whitespace d" using white [of d ds] c blank_whitespace by metis
  then have s: "s = c # ds" using c(1) ds by simp
  then have "starts_with p (squeeze ds)" using Cons.prems(1) c(2) by (simp add: starts_with_def)
  then show ?case using Cons.IH [of ds] Cons.prems(2) s by (simp add: starts_with_def)
qed (simp add: starts_with_def)

lemma squeeze_after_first:
  assumes "after_first p s = None" and "list_all (\<lambda>c. \<not> is_whitespace c) p"
  shows "after_first p (squeeze s) = None"
  using assms(1)
proof (induction s)
  case (Cons c s)
  then have no: "\<not> starts_with p (c # s)" "after_first p s = None"
    by (simp_all add: after_first.simps [of p "c # s"] split: if_splits)
  have "\<not> starts_with p (squeeze (c # s))" using no(1) squeeze_starts_with [OF _ assms(2)] by blast
  then show ?case
    using Cons.IH [OF no(2)] by (auto simp: after_first.simps [of p "_ # _"] split: if_splits)
qed simp

definition squeezed_name :: "string \<Rightarrow> string" where
  "squeezed_name name = butlast (squeeze (name @ [CHR 0x22]))"

lemma quote_printable [simp]: "\<not> is_whitespace (CHR 0x22)"
  by (simp add: is_whitespace_def)

lemma squeezed_name: "squeeze (name @ CHR 0x22 # r) = squeezed_name name @ CHR 0x22 # squeeze r"
proof -
  have ends: "squeeze (name @ [CHR 0x22]) \<noteq> [] \<and> last (squeeze (name @ [CHR 0x22])) = CHR 0x22"
    by (induction name) auto
  have "squeeze ((name @ [CHR 0x22]) @ r) = squeeze (name @ [CHR 0x22]) @ squeeze r"
    by (rule squeeze_append) simp_all
  then show ?thesis using ends append_butlast_last_id [of "squeeze (name @ [CHR 0x22])"]
    by (simp add: squeezed_name_def)
qed

lemma squeezed_name_no_pid:
  assumes "after_first ''pid='' name = None"
  shows "after_first ''pid='' (squeezed_name name) = None"
proof -
  have nil: "after_first ''pid='' [] = None" by (subst after_first.simps) (simp add: starts_with_def)
  have "after_first ''pid='' (name @ [CHR 0x22]) = None"
    using after_first_sep [of "''pid=''" "CHR 0x22" name "[]"] assms nil by simp
  then have "after_first ''pid='' (squeeze (name @ [CHR 0x22])) = None"
    by (rule squeeze_after_first) (simp add: is_whitespace_def)
  moreover have "squeeze (name @ [CHR 0x22]) = squeezed_name name @ [CHR 0x22]" using squeezed_name [of name "[]"] by simp
  ultimately show ?thesis
    using after_first_sep [of "''pid=''" "CHR 0x22" "squeezed_name name" "[]"] by (auto split: option.splits)
qed

lemma lines_show:
  assumes "list_all (\<lambda>l. CHR 0x0A \<notin> set l \<and> CHR 0x0D \<notin> set l) ls"
  shows "lines (concat (map (\<lambda>l. l @ [CHR 0x0A]) ls)) = ls"
proof -
  have line: "lines_from cur (l @ CHR 0x0A # s) = (cur @ l) # lines_from [] s"
    if "CHR 0x0A \<notin> set l" "CHR 0x0D \<notin> set (cur @ l)" for cur l s
    using that
  proof (induction l arbitrary: cur)
    case Nil
    then have "cur \<noteq> [] \<Longrightarrow> last cur \<noteq> CHR 0x0D" by (metis append_Nil2 last_in_set)
    then show ?case by (auto simp: strip_cr_def)
  next
    case (Cons c l)
    then show ?case using Cons.IH [of "cur @ [c]"] by auto
  qed
  show ?thesis using assms
    by (induction ls) (simp_all add: lines_def line)
qed

lemma printable_digits: "printable (to_string w)"
proof -
  have "list_all (\<lambda>c. \<not> is_whitespace c) s" if "list_all is_ascii_digit s" for s
    using that by (auto simp: list_all_iff is_ascii_digit_def is_whitespace_def)
  then show ?thesis by (simp add: printable_def to_string_def)
qed

lemma printable_const [simp]:
  "printable ''u_str''" "printable ''ESTAB''" "printable ''*''"
  by (simp_all add: printable_def is_whitespace_def)

lemma squeeze_word: "printable w \<Longrightarrow> squeeze (w @ s) = w @ squeeze s"
  by (simp add: squeeze_printable printable_def)

definition squeezed_user :: "ss_user \<Rightarrow> ss_user" where
  "squeezed_user u = (case u of (name, r) \<Rightarrow> (squeezed_name name, r))"

lemma squeeze_user: "squeeze (show_user u @ s) = show_user (squeezed_user u) @ squeeze s"
proof (cases u)
  case (fields name pid fd)
  have w: "printable (to_string pid @ '',fd='' @ to_string fd @ '')'')"
    using printable_digits by (auto simp: printable_def is_whitespace_def)
  have "squeeze (show_user u @ s)
      = [CHR ''('', CHR 0x22] @ squeeze (name @ CHR 0x22 # '',pid='' @ (to_string pid @ '',fd='' @ to_string fd @ '')'') @ s)"
    by (simp add: fields show_user_def is_whitespace_def)
  also have "\<dots> = [CHR ''('', CHR 0x22] @ squeezed_name name @ CHR 0x22 # '',pid=''
      @ squeeze ((to_string pid @ '',fd='' @ to_string fd @ '')'') @ s)"
    unfolding squeezed_name by (simp add: is_whitespace_def)
  finally show ?thesis unfolding squeeze_word [OF w] by (simp add: fields show_user_def squeezed_user_def)
qed

lemma squeeze_users: "squeeze (show_users us @ s) = show_users (map squeezed_user us) @ squeeze s"
proof -
  have "squeeze (join '','' (map show_user us) @ s)
      = join '','' (map show_user (map squeezed_user us)) @ squeeze s" for s
  proof (induction us)
    case (Cons u us)
    show ?case
    proof (cases us)
      case (Cons v vs)
      then show ?thesis using Cons.IH squeeze_user [of u "'','' @ join '','' (map show_user us) @ s"]
        by (simp add: is_whitespace_def)
    qed (simp add: squeeze_user)
  qed simp
  from this [of "'')'' @ s"] show ?thesis by (simp add: show_users_def is_whitespace_def)
qed

lemma users_column:
  assumes "list_all (\<lambda>(name, _). after_first ''pid='' name = None) us"
  shows "parse_ss_users (join '' '' (split_whitespace (show_users us @ replicate n (CHR '' '')))) = map snd us"
proof -
  have "dropWhile is_whitespace (show_users us @ s) = show_users us @ s" for s
    by (simp add: show_users_def is_whitespace_def)
  then have "join '' '' (split_whitespace (show_users us @ replicate n (CHR '' '')))
      = show_users (map squeezed_user us)"
    using squeeze_users [of us "replicate n (CHR '' '')"]
    by (simp only: join_split_whitespace squeeze_blanks append_Nil2)
  moreover have "list_all (\<lambda>(name, _). after_first ''pid='' name = None) (map squeezed_user us)"
    using assms squeezed_name_no_pid by (auto simp: list_all_iff squeezed_user_def)
  moreover have "after_first ''pid='' ''users:('' = None" by (rule after_first_none [of "CHR ''=''"]) simp_all
  ultimately show ?thesis
    using parse_ss_users_show [of "map squeezed_user us" "''users:(''"] unfolding show_users_def
    by (simp add: squeezed_user_def case_prod_beta)
qed

lemma parse_ss_line_stream:
  assumes "printable (peer_name y)" and "ss_socket_ok k"
  shows "parse_ss_line (show_line (Stream y k)) = records_of k"
proof -
  let ?ws = "[''u_str'', ''ESTAB'', to_string (recv_q y), to_string (send_q y), unwrap_or (sk_path k) ''*'',
      to_string (sk_inode k), peer_name y, to_string (sk_peer k)]"
  let ?us = "(if sk_users k = [] then [] else show_users (sk_users k)) @ replicate (trailing y) (CHR '' '')"
  have p: "printable (unwrap_or (sk_path k) ''*'')"
    using assms(2) by (cases "sk_path k") (auto simp: ss_socket_ok_def)
  have words: "split_whitespace (show_line (Stream y k)) = ?ws @ split_whitespace ?us"
    unfolding show_line.simps by (rule split_whitespace_columns) (simp add: p printable_digits assms(1))
  show ?thesis
  proof (cases "sk_users k = []")
    case True
    then have "split_whitespace ?us = []"
      using split_whitespace_blanks [of "trailing y" "[]"] by simp
    then show ?thesis unfolding parse_ss_line_def words by (simp add: records_of_def True)
  next
    case False
    have us: "list_all (\<lambda>(name, _). after_first ''pid='' name = None) (sk_users k)"
      using assms(2) by (auto simp: ss_socket_ok_def list_all_iff)
    have col: "parse_ss_users (join '' '' (split_whitespace ?us)) = map snd (sk_users k)"
      using users_column [OF us] False by simp
    then have "split_whitespace ?us \<noteq> []"
      using False parse_ss_users_end [of "[]"] after_first_none [of "CHR ''=''" "''pid=''" "[]"] by auto
    then have len: "\<not> length (?ws @ split_whitespace ?us) < 9" by (cases "split_whitespace ?us") simp_all
    have "sk_path k \<noteq> Some ''*''" using assms(2) by (auto simp: ss_socket_ok_def)
    then show ?thesis
      unfolding parse_ss_line_def words Let_def using len col
      by (cases "sk_path k") (simp_all add: records_of_def comp_def case_prod_beta)
  qed
qed

lemma parse_ss_line_other:
  assumes "take 2 (split_whitespace l) \<noteq> [''u_str'', ''ESTAB'']"
  shows "parse_ss_line l = []"
proof (cases "length (split_whitespace l) < 9")
  case False
  then obtain a b r where "split_whitespace l = a # b # r" by (cases "split_whitespace l"; cases "tl (split_whitespace l)") auto
  then show ?thesis using assms by (auto simp: parse_ss_line_def)
qed (simp add: parse_ss_line_def)

lemma unbroken_append [simp]: "unbroken (a @ b) \<longleftrightarrow> unbroken a \<and> unbroken b"
  by (auto simp: unbroken_def)

lemma printable_unbroken: "printable w \<Longrightarrow> unbroken w"
  by (auto simp: printable_def unbroken_def list_all_iff is_whitespace_def)

lemma unbroken_simps [simp]:
  "unbroken []" "unbroken (c # s) \<longleftrightarrow> c \<noteq> CHR 0x0A \<and> c \<noteq> CHR 0x0D \<and> unbroken s"
  "unbroken (replicate n (CHR '' ''))"
  by (auto simp: unbroken_def)

lemma unbroken_columns: "list_all unbroken ws \<Longrightarrow> unbroken (columns ns ws)"
  by (induction ns ws rule: columns.induct) simp_all

lemma unbroken_users:
  assumes "list_all (\<lambda>u. unbroken (fst u)) us"
  shows "unbroken (show_users us)"
proof -
  have "list_all (\<lambda>u. unbroken (show_user u)) us"
    using assms printable_unbroken [OF printable_digits]
    by (auto simp: list_all_iff show_user_def case_prod_beta)
  then have "unbroken (join '','' (map show_user us))"
  proof (induction us)
    case (Cons u us)
    then show ?case by (cases us) simp_all
  qed simp
  then show ?thesis by (simp add: show_users_def)
qed

lemma unbroken_line:
  assumes "ss_line_ok l"
  shows "unbroken (show_line l)"
proof (cases l)
  case (Stream y k)
  then have ok: "printable (peer_name y)" "ss_socket_ok k" using assms by simp_all
  have "unbroken (unwrap_or (sk_path k) ''*'')"
    using ok(2) by (cases "sk_path k") (auto simp: ss_socket_ok_def intro: printable_unbroken)
  moreover have "unbroken (show_users (sk_users k))"
    using ok(2) by (intro unbroken_users) (auto simp: ss_socket_ok_def list_all_iff case_prod_beta)
  ultimately show ?thesis
    using Stream printable_unbroken [OF ok(1)] printable_unbroken [OF printable_digits, of "recv_q y"]
      printable_unbroken [OF printable_digits, of "send_q y"] printable_unbroken [OF printable_digits, of "sk_inode k"]
      printable_unbroken [OF printable_digits, of "sk_peer k"]
    by (auto simp del: columns.simps intro!: unbroken_columns)
qed (use assms in simp)

lemma parse_ss_show:
  assumes "list_all ss_line_ok ls"
  shows "parse_ss_unix_stream (show_ss ls) = concat (map records_of (sockets_of ls))"
proof -
  have "lines (show_ss ls) = map show_line ls"
    using lines_show [of "map show_line ls"] assms unbroken_line
    by (simp add: show_ss_def comp_def list_all_iff unbroken_def)
  moreover have "concat (map (parse_ss_line \<circ> show_line) ls) = concat (map records_of (sockets_of ls))"
    using assms
  proof (induction ls)
    case (Cons l ls)
    then show ?case
      by (cases l) (simp_all add: sockets_of_def map_filter_simps parse_ss_line_stream parse_ss_line_other
          del: show_line.simps(1))
  qed (simp add: sockets_of_def map_filter_simps)
  ultimately show ?thesis by (simp only: parse_ss_unix_stream_def map_map)
qed

section \<open>Properties\<close>

text \<open>
  C29. The parser reads exactly the established stream sockets out of what \<open>ss\<close> prints: whatever the
  queues, the padding of the columns and the other rows (listening sockets, datagram sockets, any
  text), parsing the listing yields one record per established stream socket and process that holds
  it, in order, with the socket's inode, peer and path. A path is one word other than an asterisk; a
  process name may contain white space and equals signs, but neither a line break nor the text
  \<open>pid=\<close>.
\<close>

theorem sca_ss_roundtrip:
  assumes "list_all ss_line_ok ls"
  shows "parse_ss_unix_stream (show_ss ls) = concat (map records_of (sockets_of ls))"
  using assms by (rule parse_ss_show)

definition demo_layout :: ss_layout where
  "demo_layout = \<lparr>recv_q = 0, send_q = 212, peer_name = ''*'', pads = [0, 0, 6, 6, 20], trailing = 2\<rparr>"

text \<open>The two ends of a hop, the socket that listens on its path, and a datagram socket.\<close>

definition demo_sockets :: "ss_line list" where
  "demo_sockets =
     [Other (''u_dgr UNCONN 0 0 * 20110 * 20111 '' @ show_users [(''systemd'', 1, 44)]),
      Other (''u_str LISTEN 0 128 /tmp/WF_L_TO_FRAG 4700 * 0 '' @ show_users [(''FRAGMENTER'', 30, 8)]),
      Stream demo_layout
        \<lparr>sk_path = Some ''/tmp/WF_L_TO_FRAG'', sk_inode = 4711, sk_peer = 4712, sk_users = [(''FRAGMENTER'', 30, 9)]\<rparr>,
      Stream demo_layout
        \<lparr>sk_path = None, sk_inode = 4712, sk_peer = 4711,
         sk_users = [(''RED_WF_COMM_L'', 20, 7), (''tmux:  fd=0 '', 21, 7)]\<rparr>]"

lemma demo_sockets_ok: "list_all ss_line_ok demo_sockets"
  by code_simp

lemma demo_sockets_of:
  "concat (map records_of (sockets_of demo_sockets)) =
     [\<lparr>us_pid = 30, us_fd = 9, us_inode = 4711, us_peer_inode = 4712, us_path = Some ''/tmp/WF_L_TO_FRAG''\<rparr>,
      \<lparr>us_pid = 20, us_fd = 7, us_inode = 4712, us_peer_inode = 4711, us_path = None\<rparr>,
      \<lparr>us_pid = 21, us_fd = 7, us_inode = 4712, us_peer_inode = 4711, us_path = None\<rparr>]"
  by (simp add: demo_sockets_def records_of_def sockets_of_def map_filter_simps)

theorem sca_ss_roundtrip_witness:
  "parse_ss_unix_stream (show_ss demo_sockets) =
     [\<lparr>us_pid = 30, us_fd = 9, us_inode = 4711, us_peer_inode = 4712, us_path = Some ''/tmp/WF_L_TO_FRAG''\<rparr>,
      \<lparr>us_pid = 20, us_fd = 7, us_inode = 4712, us_peer_inode = 4711, us_path = None\<rparr>,
      \<lparr>us_pid = 21, us_fd = 7, us_inode = 4712, us_peer_inode = 4711, us_path = None\<rparr>]"
  using sca_ss_roundtrip [OF demo_sockets_ok] by (simp add: demo_sockets_of)


lemma map_of_paths_by_inode:
  "map_of (paths_by_inode sockets) i = Some p \<Longrightarrow> \<exists>k\<in>set sockets. us_inode k = i \<and> us_path k = Some p"
  unfolding paths_by_inode_def
  by (induction sockets rule: rev_induct) (auto simp: map_ops split: option.splits if_splits)

lemma paths_distinct: "distinct (map fst DATA_FLOW)"
  by code_simp

lemma endpoint_role_unique:
  assumes "endpoint_role sock p m = Some r" and "endpoint_role sock p' m = Some r'"
  shows "p = p' \<and> r = r'"
  using assms by (auto simp: endpoint_role_def split: if_splits)

lemma in_enumerate: "(i, x) \<in> set (enumerate 0 xs) \<longleftrightarrow> i < length xs \<and> xs ! i = x"
  by (auto simp: in_set_enumerate_eq)

text \<open>
  C28. Discovery finds nothing but endpoints of the data flow: each discovered endpoint belongs to a
  socket that \<open>ss\<close> lists; a receiver's socket is bound to the path of the hop, a sender's has no path
  and its peer is a listed socket bound to that path. The process that holds the socket has the name
  that the data flow gives for that role, as far as its name can still be read: a process whose
  \<open>/proc\<close> entry is gone is accepted whatever it was called. A listed socket is the endpoint of at
  most one hop.
\<close>

theorem sca_discovery_sound:
  assumes "ss_output env = Inr out" and "discover_hop_sockets env = Inr hops" and "h \<in> set hops"
  shows "\<exists>i pth sending receiving k. i = dh_hop_index h \<and> i < 7 \<and> DATA_FLOW ! i = (pth, sending, receiving)
       \<and> k \<in> set (parse_ss_unix_stream (from_utf8_lossy out)) \<and> dh_path h = pth
       \<and> dh_host_pid h = to_host_pid env (us_pid k) \<and> dh_fd h = us_fd k
       \<and> (\<forall>c. proc_read env (''/proc/'' @ to_string (us_pid k) @ ''/comm'') = Some c
            \<longrightarrow> trim c = (if dh_is_sender h = 1 then sending else receiving))
       \<and> (dh_is_sender h = 0 \<and> us_path k = Some pth
          \<or> dh_is_sender h = 1 \<and> us_path k = None
            \<and> (\<exists>k'\<in>set (parse_ss_unix_stream (from_utf8_lossy out)). us_inode k' = us_peer_inode k \<and> us_path k' = Some pth))
       \<and> (\<forall>j. j < 7 \<and> endpoint_role k (fst (DATA_FLOW ! j)) (paths_by_inode (parse_ss_unix_stream (from_utf8_lossy out))) \<noteq> None \<longrightarrow> j = i)"
proof -
  let ?ks = "parse_ss_unix_stream (from_utf8_lossy out)"
  obtain i pth sending receiving k where i: "i < 7" "DATA_FLOW ! i = (pth, sending, receiving)"
    and k: "k \<in> set ?ks" and h: "h \<in> set (discover_socket env (paths_by_inode ?ks) (i, pth, sending, receiving) k)"
    using assms by (auto simp: discover_hop_sockets_def query_established_unix_sockets_def in_enumerate Let_def)
  obtain role where role: "endpoint_role k pth (paths_by_inode ?ks) = Some role"
    and hf: "dh_hop_index h = i" "dh_path h = pth" "dh_host_pid h = to_host_pid env (us_pid k)"
      "dh_fd h = us_fd k" "dh_is_sender h = role"
      "comm_matches env (us_pid k) (if role = 1 then sending else receiving)"
    using h
    by (cases "endpoint_role k pth (paths_by_inode ?ks)")
      (auto simp: discover_socket_def Let_def split: if_splits)
  have rolek: "dh_is_sender h = 0 \<and> us_path k = Some pth
      \<or> dh_is_sender h = 1 \<and> us_path k = None \<and> (\<exists>k'\<in>set ?ks. us_inode k' = us_peer_inode k \<and> us_path k' = Some pth)"
    using role hf(5) map_of_paths_by_inode [of ?ks] by (auto simp: endpoint_role_def split: if_splits)
  have comm: "\<forall>c. proc_read env (''/proc/'' @ to_string (us_pid k) @ ''/comm'') = Some c
      \<longrightarrow> trim c = (if dh_is_sender h = 1 then sending else receiving)"
    using hf(5,6) by (auto simp: comm_matches_def)
  have uniq: "j = i" if j: "j < 7" "endpoint_role k (fst (DATA_FLOW ! j)) (paths_by_inode ?ks) \<noteq> None" for j
  proof -
    have "fst (DATA_FLOW ! j) = fst (DATA_FLOW ! i)" using j(2) endpoint_role_unique [OF _ role] i(2) by auto
    then show ?thesis using nth_eq_iff_index_eq [OF paths_distinct, of j i] i(1) j(1) by simp
  qed
  show ?thesis using i k hf(1-4) comm rolek uniq by blast
qed

text \<open>A container: the process ids of \<open>/proc\<close> translate to those of the host.\<close>

definition demo_env :: sca_env where
  "demo_env = \<lparr>ss_output = Inr (show_ss demo_sockets), proc_read = map_of
     [(''/proc/30/comm'', ''FRAGMENTER'' @ [CHR 0x0A]), (''/proc/20/comm'', ''RED_WF_COMM_L'' @ [CHR 0x0A]),
      (''/proc/21/comm'', ''helper'' @ [CHR 0x0A]),
      (''/proc/30/status'', ''Name: x'' @ [CHR 0x0A] @ ''NSpid:'' @ [CHR 0x09] @ ''1030 30'' @ [CHR 0x0A])]\<rparr>"

lemma demo_pids: "to_string (30 :: u32) = ''30''" "to_string (20 :: u32) = ''20''" "to_string (21 :: u32) = ''21''"
  by code_simp+

lemma demo_comms:
  "trim (''FRAGMENTER'' @ [CHR 0x0A]) = ''FRAGMENTER''" "trim (''RED_WF_COMM_L'' @ [CHR 0x0A]) = ''RED_WF_COMM_L''"
  "trim (''helper'' @ [CHR 0x0A]) = ''helper''"
  by code_simp+

lemma demo_nspid:
  "parse_nspid (''Name: x'' @ [CHR 0x0A] @ ''NSpid:'' @ [CHR 0x09] @ ''1030 30'' @ [CHR 0x0A]) = Some 1030"
  by (simp add: parse_nspid_def lines_def strip_cr_def strip_prefix_def starts_with_def is_whitespace_def
      parse_u32_def parse_unsigned_def parse_digits_def is_ascii_digit_def digits_val_def digit_val_def)

lemma to_string_ascii: "list_all (\<lambda>c. of_char c < (128 :: nat)) (to_string w)"
  using decimal_digits [of "unat w"] by (auto simp: to_string_def list_all_iff is_ascii_digit_def)

lemma blanks_ascii: "list_all (\<lambda>c. of_char c < (128 :: nat)) (replicate n (CHR '' ''))"
  by (auto simp: list_all_iff)

lemma demo_ascii: "from_utf8_lossy (show_ss demo_sockets) = show_ss demo_sockets"
  by (rule from_utf8_lossy_ascii)
    (simp add: demo_sockets_def demo_layout_def show_ss_def show_users_def show_user_def to_string_ascii blanks_ascii)

lemma demo_discovery:
  "discover_hop_sockets demo_env = Inr
     [\<lparr>dh_hop_index = 2, dh_host_pid = 1030, dh_fd = 9, dh_is_sender = 0, dh_path = ''/tmp/WF_L_TO_FRAG'', dh_pname = ''FRAGMENTER''\<rparr>,
      \<lparr>dh_hop_index = 2, dh_host_pid = 20, dh_fd = 7, dh_is_sender = 1, dh_path = ''/tmp/WF_L_TO_FRAG'', dh_pname = ''RED_WF_COMM_L''\<rparr>]"
proof -
  have ss: "query_established_unix_sockets demo_env = Inr (concat (map records_of (sockets_of demo_sockets)))"
    by (simp add: query_established_unix_sockets_def demo_env_def demo_ascii parse_ss_show [OF demo_sockets_ok])
  have comm: "comm_matches demo_env 30 n \<longleftrightarrow> n = ''FRAGMENTER''" "comm_matches demo_env 20 n \<longleftrightarrow> n = ''RED_WF_COMM_L''"
    "comm_matches demo_env 21 n \<longleftrightarrow> n = ''helper''" for n
    using demo_comms by (auto simp: comm_matches_def demo_pids demo_env_def)
  have pid: "to_host_pid demo_env 30 = 1030" "to_host_pid demo_env 20 = 20"
    using demo_nspid by (simp_all add: to_host_pid_def demo_pids demo_env_def)
  show ?thesis
    by (simp add: discover_hop_sockets_def ss demo_sockets_of paths_by_inode_def DATA_FLOW_def
        discover_socket_def endpoint_role_def comm pid)
qed

theorem sca_discovery_sound_witness:
  "\<exists>h hops. discover_hop_sockets demo_env = Inr hops \<and> h \<in> set hops \<and> dh_hop_index h = 2
     \<and> (\<exists>k :: UnixSockRec. us_fd k = 9 \<and> dh_host_pid h = to_host_pid demo_env (us_pid k))"
proof -
  let ?h = "\<lparr>dh_hop_index = 2, dh_host_pid = 1030, dh_fd = 9, dh_is_sender = 0,
      dh_path = ''/tmp/WF_L_TO_FRAG'', dh_pname = ''FRAGMENTER''\<rparr> :: DiscoveredHop"
  have "ss_output demo_env = Inr (show_ss demo_sockets)" by (simp add: demo_env_def)
  from sca_discovery_sound [OF this demo_discovery, of ?h]
  obtain k :: UnixSockRec where "us_fd k = 9" "1030 = to_host_pid demo_env (us_pid k)" by auto
  then show ?thesis by (intro exI [of _ ?h]) (auto simp: demo_discovery)
qed

end
