(* ===== verification/Sca_User.thy ===== *)
theory Sca_User
  imports Sca_Discovery Aya
begin

text \<open>
  The userspace side of \<open>sca\<close> (\<open>src/bpfagent/src/programs/sca/mod.rs\<close>). It works on the maps of the
  eBPF side, the record \<open>sca_maps\<close>: endpoints are inserted by \<open>load\<close> and by the rediscovery, which
  also evicts what belongs to dead processes. An iteration over a map reads its entries; whether
  it reports an error, and the clock, are part of the environment.

  Shown: the exported series are those of the processes with new samples; what a rediscovery
  leaves in the kernel.
\<close>

definition REPOPULATION_INTERVAL :: nat where "REPOPULATION_INTERVAL = 5 * 10 ^ 9"

definition TRACEPOINTS :: "(string \<times> string \<times> string) list" where
  "TRACEPOINTS = [(''sys_enter_sendmsg'', ''syscalls'', ''sys_enter_sendmsg'')]"

record sca_world = sca_env +
  iter_error :: "string \<Rightarrow> string option"
  clock :: nat

datatype SampleState = Fresh u64 u64 | Cleared u64 u64

record ScaProgram =
  sca_name :: string
  sca_ebpf :: bool
  sca_metrics :: "i64 family option"
  socket_path_map :: "(u32 \<times> string) list"
  socket_pid_map :: "(u32 \<times> string) list"
  last_samples :: "(u32 \<times> SampleState) list"
  last_repopulation :: "nat option"

definition sca_new :: ScaProgram where
  "sca_new = \<lparr>sca_name = ''sca'', sca_ebpf = False, sca_metrics = None, socket_path_map = [],
     socket_pid_map = [], last_samples = [], last_repopulation = None\<rparr>"

definition sca_metrics_new :: "prom \<Rightarrow> i64 family result" where
  "sca_metrics_new prom =
     (case prom (CreateMetric ''sca_avg_latency_per_pname'') of
        Some e \<Rightarrow> Inl [''failed to create avg_latency_per_pname gauge: '' @ e]
      | None \<Rightarrow>
          (case prom (RegisterMetric ''sca_avg_latency_per_pname'') of
             Some e \<Rightarrow> Inl [''failed to register avg_latency_per_pname gauge: '' @ e]
           | None \<Rightarrow> Inr []))"

definition sca_set_metrics_registry :: "prom \<Rightarrow> ScaProgram \<Rightarrow> unit result \<times> ScaProgram" where
  "sca_set_metrics_registry prom p =
     (case sca_metrics_new prom of
        Inl e \<Rightarrow> (Inl e, p)
      | Inr m \<Rightarrow> (Inr (), p\<lparr>sca_metrics := Some m\<rparr>))"


section \<open>Endpoints\<close>

definition path_bytes :: "string \<Rightarrow> u8 list" where
  "path_bytes s = (let bs = take 32 (map (\<lambda>c. of_nat (of_char c)) s) in bs @ replicate (32 - length bs) 0)"

definition insert_endpoint :: "kernel \<Rightarrow> DiscoveredHop \<Rightarrow> sca_maps \<Rightarrow> sca_maps" where
  "insert_endpoint K hop s =
     (let key = push_bit 32 (ucast (dh_host_pid hop)) OR ucast (dh_fd hop);
          endpoint = \<lparr>hop_index = of_nat (dh_hop_index hop), is_sender = dh_is_sender hop,
                      path = path_bytes (dh_path hop)\<rparr>
      in s\<lparr>SOCKET_HOPS_MAP := hash_put K SOCKET_HOPS_MAP_MAX_ENTRIES (SOCKET_HOPS_MAP s) key endpoint\<rparr>)"

type_synonym display_maps = "(u32 \<times> string) list \<times> (u32 \<times> string) list"

definition note_path :: "DiscoveredHop \<Rightarrow> (u32 \<times> string) list \<Rightarrow> (u32 \<times> string) list" where
  "note_path hop paths =
     (if dh_is_sender hop = 0
      then AList.update (dh_host_pid hop)
             (case map_of paths (dh_host_pid hop) of
                None \<Rightarrow> dh_path hop
              | Some p \<Rightarrow> (if p = [] then p else p @ '', '') @ dh_path hop) paths
      else paths)"

fun insert_hops :: "kernel \<Rightarrow> DiscoveredHop list \<Rightarrow> display_maps \<times> sca_maps \<Rightarrow> display_maps \<times> sca_maps" where
  "insert_hops K [] st = st"
| "insert_hops K (hop # hops) ((paths, pids), s) =
     insert_hops K hops
       ((note_path hop paths, AList.update (dh_host_pid hop) (dh_pname hop) pids), insert_endpoint K hop s)"

definition insert_discovered ::
  "kernel \<Rightarrow> aya \<Rightarrow> DiscoveredHop list \<Rightarrow> display_maps \<times> sca_maps \<Rightarrow> unit result \<times> display_maps \<times> sca_maps" where
  "insert_discovered K aya hops st =
     (case aya (FindMap ''SOCKET_HOPS_MAP'') of
        Some _ \<Rightarrow> (Inl [''SOCKET_HOPS_MAP not found''], st)
      | None \<Rightarrow>
          (case aya (OpenMap ''SOCKET_HOPS_MAP'') of
             Some _ \<Rightarrow> (Inl [''Failed to get SOCKET_HOPS_MAP''], st)
           | None \<Rightarrow> (Inr (), insert_hops K hops st)))"

definition populate_socket_hops_map ::
  "kernel \<Rightarrow> aya \<Rightarrow> ('a) sca_env_scheme \<Rightarrow> display_maps \<times> sca_maps \<Rightarrow> unit result \<times> display_maps \<times> sca_maps" where
  "populate_socket_hops_map K aya env st =
     (case discover_hop_sockets env of
        Inl e \<Rightarrow> (Inl e, st)
      | Inr hops \<Rightarrow> insert_discovered K aya hops st)"

definition remove_keys :: "('k, 'v) bpf_map \<Rightarrow> 'k list \<Rightarrow> ('k, 'v) bpf_map" where
  "remove_keys m ks = foldl map_remove m ks"

definition evict_endpoints ::
  "aya \<Rightarrow> sca_world \<Rightarrow> u32 set \<Rightarrow> sca_maps \<Rightarrow> anyhow + sca_maps" where
  "evict_endpoints aya w live_pids s =
     (case aya (FindMap ''SOCKET_HOPS_MAP'') of
        Some _ \<Rightarrow> Inl [''SOCKET_HOPS_MAP not found'']
      | None \<Rightarrow>
          (case aya (OpenMap ''SOCKET_HOPS_MAP'') of
             Some _ \<Rightarrow> Inl [''Failed to get SOCKET_HOPS_MAP'']
           | None \<Rightarrow>
               (case iter_error w ''SOCKET_HOPS_MAP'' of
                  Some e \<Rightarrow> Inl [''failed to iterate SOCKET_HOPS_MAP: '' @ e]
                | None \<Rightarrow>
                    Inr (s\<lparr>SOCKET_HOPS_MAP := remove_keys (SOCKET_HOPS_MAP s)
                      (filter (\<lambda>key. ucast (drop_bit 32 key) \<notin> live_pids) (keys (SOCKET_HOPS_MAP s)))\<rparr>))))"

definition evict_pids ::
  "aya \<Rightarrow> sca_world \<Rightarrow> u32 set \<Rightarrow> string \<Rightarrow> (u32, u64) bpf_map \<Rightarrow> anyhow + (u32, u64) bpf_map" where
  "evict_pids aya w live_pids name m =
     (case aya (FindMap name) of
        Some _ \<Rightarrow> Inl [name @ '' map not found'']
      | None \<Rightarrow>
          (case aya (OpenMap name) of
             Some _ \<Rightarrow> Inl [''failed to open '' @ name @ '' map'']
           | None \<Rightarrow>
               (case iter_error w name of
                  Some e \<Rightarrow> Inl [''failed to iterate '' @ name @ '' map: '' @ e]
                | None \<Rightarrow> Inr (remove_keys m (filter (\<lambda>pid. pid \<notin> live_pids) (keys m))))))"

definition evict_latencies :: "aya \<Rightarrow> sca_world \<Rightarrow> u32 set \<Rightarrow> sca_maps \<Rightarrow> unit result \<times> sca_maps" where
  "evict_latencies aya w live_pids s =
     (case evict_pids aya w live_pids ''LATENCY_PID_SUM'' (LATENCY_PID_SUM s) of
        Inl e \<Rightarrow> (Inl e, s)
      | Inr m \<Rightarrow> let s = s\<lparr>LATENCY_PID_SUM := m\<rparr> in
          (case evict_pids aya w live_pids ''LATENCY_PID_COUNT'' (LATENCY_PID_COUNT s) of
             Inl e \<Rightarrow> (Inl e, s)
           | Inr m \<Rightarrow> let s = s\<lparr>LATENCY_PID_COUNT := m\<rparr> in
               (case evict_pids aya w live_pids ''LATENCY_WINDOW_START'' (LATENCY_WINDOW_START s) of
                  Inl e \<Rightarrow> (Inl e, s)
                | Inr m \<Rightarrow> (Inr (), s\<lparr>LATENCY_WINDOW_START := m\<rparr>))))"

definition repopulate_socket_hops_map ::
  "kernel \<Rightarrow> aya \<Rightarrow> sca_world \<Rightarrow> display_maps \<times> sca_maps \<Rightarrow> unit result \<times> display_maps \<times> sca_maps" where
  "repopulate_socket_hops_map K aya w st =
     (case discover_hop_sockets w of
        Inl e \<Rightarrow> (Inl e, st)
      | Inr hops \<Rightarrow>
          (let live_pids = set (map dh_host_pid hops)
           in case evict_endpoints aya w live_pids (snd st) of
                Inl e \<Rightarrow> (Inl e, st)
              | Inr s \<Rightarrow>
                  (case evict_latencies aya w live_pids s of
                     (Inl e, s) \<Rightarrow> (Inl e, fst st, s)
                   | (Inr _, s) \<Rightarrow> insert_discovered K aya hops (([], []), s))))"

definition sca_load ::
  "kernel \<Rightarrow> aya \<Rightarrow> sca_world \<Rightarrow> ScaProgram \<Rightarrow> sca_maps \<Rightarrow> (unit result \<times> ScaProgram) \<times> sca_maps" where
  "sca_load K aya w p s =
     (case run_steps aya (load_object ''sca'') of
        (_, Some e) \<Rightarrow> ((Inl e, p), s)
      | (_, None) \<Rightarrow>
          (let (r, (paths, pids), s) = populate_socket_hops_map K aya w ((socket_path_map p, socket_pid_map p), s);
               p = p\<lparr>socket_path_map := paths, socket_pid_map := pids\<rparr>
           in case r of
                Inl e \<Rightarrow> ((Inl e, p), s)
              | Inr _ \<Rightarrow>
                  (case run_steps aya (concat (map (\<lambda>(name, category, event).
                          take_program name @ attach name (Tracepoint category event)) TRACEPOINTS)) of
                     (_, Some e) \<Rightarrow> ((Inl e, p), s)
                   | (_, None) \<Rightarrow> ((Inr (), p\<lparr>sca_ebpf := True\<rparr>), s))))"


section \<open>Display\<close>

definition collect_pids :: "sca_world \<Rightarrow> sca_maps \<Rightarrow> u32 list result" where
  "collect_pids w s =
     (case iter_error w ''LATENCY_PID_SUM'' of
        Some e \<Rightarrow> Inl [''failed to iterate latency maps: '' @ e]
      | None \<Rightarrow>
          (case iter_error w ''LATENCY_PID_COUNT'' of
             Some e \<Rightarrow> Inl [''failed to iterate latency maps: '' @ e]
           | None \<Rightarrow> Inr (remdups (keys (LATENCY_PID_SUM s) @ keys (LATENCY_PID_COUNT s)))))"

definition sample_of :: "sca_maps \<Rightarrow> u32 \<Rightarrow> u64 \<times> u64" where
  "sample_of s pid =
     (unwrap_or (map_get (LATENCY_PID_SUM s) pid) 0, unwrap_or (map_get (LATENCY_PID_COUNT s) pid) 0)"

type_synonym ledger = "(u32 \<times> SampleState) list"

fun partition_loop ::
  "(u32 \<times> u64 \<times> u64) list \<Rightarrow> ledger \<Rightarrow> (u32 list \<times> u32 list) \<times> ledger" where
  "partition_loop [] ledger = (([], []), ledger)"
| "partition_loop ((pid, current) # samples) ledger =
     (case map_of ledger pid of
        Some (Fresh s c) \<Rightarrow>
          if (s, c) = current
          then let ((fresh, stale), ledger) =
                 partition_loop samples (AList.update pid (Cleared (fst current) (snd current)) ledger)
               in ((fresh, pid # stale), ledger)
          else let ((fresh, stale), ledger) =
                 partition_loop samples (AList.update pid (Fresh (fst current) (snd current)) ledger)
               in ((pid # fresh, stale), ledger)
      | Some (Cleared s c) \<Rightarrow>
          if (s, c) = current then partition_loop samples ledger
          else let ((fresh, stale), ledger) =
                 partition_loop samples (AList.update pid (Fresh (fst current) (snd current)) ledger)
               in ((pid # fresh, stale), ledger)
      | None \<Rightarrow>
          let ((fresh, stale), ledger) =
            partition_loop samples (AList.update pid (Fresh (fst current) (snd current)) ledger)
          in ((pid # fresh, stale), ledger))"

definition partition_fresh :: "ledger \<Rightarrow> (u32 \<times> u64 \<times> u64) list \<Rightarrow> (u32 list \<times> u32 list) \<times> ledger" where
  "partition_fresh ledger samples =
     partition_loop samples (filter (\<lambda>(pid, _). pid \<in> set (keys samples)) ledger)"

definition latency_label :: "(u32 \<times> string) list \<Rightarrow> u32 \<Rightarrow> string" where
  "latency_label pids pid = unwrap_or (map_of pids pid) ''unknown'' @ '' (PID '' @ to_string pid @ '')''"

definition report_pid_latency :: "(u32 \<times> string) list \<Rightarrow> u32 \<times> u64 \<times> u64 \<Rightarrow> i64 family \<Rightarrow> i64 family" where
  "report_pid_latency pids sample m =
     (case sample of (pid, s, c) \<Rightarrow>
        AList.update (latency_label pids pid) (unwrap_or (checked_div s c) 0 div 1000) m)"

definition sca_display_metrics ::
  "kernel \<Rightarrow> aya \<Rightarrow> sca_world \<Rightarrow> ScaProgram \<Rightarrow> sca_maps \<Rightarrow> (unit result \<times> ScaProgram) \<times> sca_maps" where
  "sca_display_metrics K aya w p s =
     (case sca_metrics p of
        None \<Rightarrow> ((Inl [''metrics not set for sca program''], p), s)
      | Some m \<Rightarrow>
          if \<not> sca_ebpf p then ((Inl [''BPF program not loaded''], p), s)
          else
            (case open_accumulator_map aya ''LATENCY_PID_SUM'' of
               Inl e \<Rightarrow> ((Inl e, p), s)
             | Inr _ \<Rightarrow>
                 (case open_accumulator_map aya ''LATENCY_PID_COUNT'' of
                    Inl e \<Rightarrow> ((Inl e, p), s)
                  | Inr _ \<Rightarrow>
                      (case collect_pids w s of
                         Inl e \<Rightarrow> ((Inl e, p), s)
                       | Inr ps \<Rightarrow>
                           (let samples = map (\<lambda>pid. (pid, sample_of s pid)) ps;
                                ((fresh, newly_stale), ledger) = partition_fresh (last_samples p) samples;
                                m = foldl (\<lambda>m pid. AList.delete (latency_label (socket_pid_map p) pid) m) m newly_stale
                            in if fresh = []
                               then
                                 (let p = p\<lparr>sca_metrics := Some m, last_samples := ledger\<rparr>
                                  in if case last_repopulation p of None \<Rightarrow> True
                                        | Some t \<Rightarrow> clock w - t \<ge> REPOPULATION_INTERVAL
                                     then
                                       (let (r, (paths, pids), s) = repopulate_socket_hops_map K aya w
                                              ((socket_path_map p, socket_pid_map p), s)
                                        in ((Inr (), p\<lparr>last_repopulation := Some (clock w),
                                              socket_path_map := paths, socket_pid_map := pids\<rparr>), s))
                                     else ((Inr (), p), s))
                               else
                                 ((Inr (), p\<lparr>last_samples := ledger, sca_metrics := Some
                                    (foldl (\<lambda>m pid. report_pid_latency (socket_pid_map p) (pid, sample_of s pid) m)
                                       m fresh)\<rparr>), s))))))"


section \<open>Freshness\<close>

fun sample_val :: "SampleState \<Rightarrow> u64 \<times> u64" where
  "sample_val (Fresh s c) = (s, c)"
| "sample_val (Cleared s c) = (s, c)"

definition quiet :: "ledger \<Rightarrow> u32 \<times> u64 \<times> u64 \<Rightarrow> bool" where
  "quiet l x \<longleftrightarrow> map_option sample_val (map_of l (fst x)) = Some (snd x)"

definition just_stale :: "ledger \<Rightarrow> u32 \<times> u64 \<times> u64 \<Rightarrow> bool" where
  "just_stale l x \<longleftrightarrow> map_of l (fst x) = Some (Fresh (fst (snd x)) (snd (snd x)))"

lemma filter_update_other:
  assumes "pid \<notin> fst ` set xs"
  shows "filter (quiet (AList.update pid v l)) xs = filter (quiet l) xs"
    and "filter (\<lambda>x. \<not> quiet (AList.update pid v l) x) xs = filter (\<lambda>x. \<not> quiet l x) xs"
    and "filter (just_stale (AList.update pid v l)) xs = filter (just_stale l) xs"
proof -
  have "map_of (AList.update pid v l) (fst x) = map_of l (fst x)" if "x \<in> set xs" for x
    using assms that by (auto simp: map_ops)
  then show "filter (quiet (AList.update pid v l)) xs = filter (quiet l) xs"
    and "filter (\<lambda>x. \<not> quiet (AList.update pid v l) x) xs = filter (\<lambda>x. \<not> quiet l x) xs"
    and "filter (just_stale (AList.update pid v l)) xs = filter (just_stale l) xs"
    by (simp_all add: quiet_def just_stale_def cong: filter_cong)
qed

lemma partition_loop_spec:
  assumes "distinct (keys xs)"
  shows "fst (partition_loop xs l) = (keys (filter (\<lambda>x. \<not> quiet l x) xs), keys (filter (just_stale l) xs))"
    and "map_of (snd (partition_loop xs l)) pid =
           (case map_of xs pid of
              None \<Rightarrow> map_of l pid
            | Some x \<Rightarrow> Some (if quiet l (pid, x) then Cleared (fst x) (snd x) else Fresh (fst x) (snd x)))"
  using assms
proof (atomize (full), induction xs arbitrary: l)
  case (Cons x xs)
  obtain q a b where x: "x = (q, a, b)" by (cases x) auto
  have d: "distinct (keys xs)" "q \<notin> fst ` set xs" "q = pid \<Longrightarrow> map_of xs pid = None"
    using Cons.prems x by (auto simp: keys_def map_of_eq_None_iff)
  have qu: "quiet (AList.update q v l) (pid, y) = quiet l (pid, y)" if "q \<noteq> pid" for v y
    using that by (simp add: quiet_def map_ops)
  show ?case
    using Cons.IH [OF d(1)] d(3)
    apply (cases "map_of l q")
    subgoal
      by (auto simp: x keys_def quiet_def [of l "(q, a, b)"] just_stale_def [of l "(q, a, b)"] filter_update_other [OF d(2)]
          qu map_ops Let_def split_beta split: option.split)
    subgoal for st
      by (cases st) (auto simp: x keys_def quiet_def [of l "(q, a, b)"] just_stale_def [of l "(q, a, b)"]
          filter_update_other [OF d(2)] qu map_ops Let_def split_beta split: option.split)
    done
qed (simp add: keys_def)

lemma latency_label_inject [simp]: "latency_label pids a = latency_label pids b \<longleftrightarrow> a = b"
  using pid_label_inject unfolding latency_label_def by blast

lemma map_of_remove_labels:
  "map_of (foldl (\<lambda>m pid. AList.delete (latency_label pids pid) m) m ps) l =
     (if l \<in> latency_label pids ` set ps then None else map_of m l)"
  by (induction ps arbitrary: m) (auto simp: map_ops)

definition avg_us :: "u64 \<times> u64 \<Rightarrow> i64" where
  "avg_us x = unwrap_or (checked_div (fst x) (snd x)) 0 div 1000"

lemma map_of_reports:
  "map_of (foldl (\<lambda>m pid. report_pid_latency pids (pid, f pid) m) m ps) l =
     (if l \<in> latency_label pids ` set ps then Some (avg_us (f (THE pid. l = latency_label pids pid))) else map_of m l)"
proof (induction ps rule: rev_induct)
  case (snoc p ps)
  have "(THE pid. latency_label pids p = latency_label pids pid) = p" by (rule the_equality) auto
  then show ?case using snoc
    by (auto simp: report_pid_latency_def split_beta map_ops avg_us_def)
qed simp


section \<open>The states of a run\<close>

text \<open>
  The program and the maps of its eBPF side: displays alternate with \<open>sendmsg\<close> calls of the traced
  processes in any order. The history holds what the completed displays read from the maps, the
  last one first; a display that fails has read nothing.
\<close>

definition sampled :: "sca_maps \<Rightarrow> u32 set" where
  "sampled s = set (keys (LATENCY_PID_SUM s)) \<union> set (keys (LATENCY_PID_COUNT s))"

definition reading :: "sca_maps \<Rightarrow> u32 \<Rightarrow> (u64 \<times> u64) option" where
  "reading s pid = (if pid \<in> sampled s then Some (sample_of s pid) else None)"

inductive sca_reach :: "kernel \<Rightarrow> aya \<Rightarrow> (u32 \<Rightarrow> (u64 \<times> u64) option) list \<times> ScaProgram \<times> sca_maps \<Rightarrow> bool"
  for K aya where
  loaded: "sca_metrics p = Some [] \<Longrightarrow> last_samples p = [] \<Longrightarrow> sca_reach K aya ([], p, s)"
| sent: "sca_reach K aya (H, p, s) \<Longrightarrow>
    sys_enter_sendmsg_handler K ctx pid_tgid c mem now now' s = (r, s') \<Longrightarrow> sca_reach K aya (H, p, s')"
| displayed: "sca_reach K aya (H, p, s) \<Longrightarrow>
    sca_display_metrics K aya w p s = ((r, p'), s') \<Longrightarrow>
    sca_reach K aya (if r = Inr () then reading s # H else H, p', s')"

text \<open>A process is active at the last display of a history: it was read, and with other values than
  by the display before, if there was one.\<close>

definition active :: "(u32 \<Rightarrow> (u64 \<times> u64) option) list \<Rightarrow> u32 \<Rightarrow> u64 \<times> u64 \<Rightarrow> bool" where
  "active H pid x \<longleftrightarrow>
     (case H of [] \<Rightarrow> False | R # H' \<Rightarrow> R pid = Some x \<and> (case H' of [] \<Rightarrow> True | R' # _ \<Rightarrow> R' pid \<noteq> Some x))"

text \<open>The ledger remembers the last reading, and marks as fresh what is active in it.\<close>

definition ledger_of :: "(u32 \<Rightarrow> (u64 \<times> u64) option) list \<Rightarrow> ledger \<Rightarrow> bool" where
  "ledger_of H l \<longleftrightarrow> (\<forall>pid. map_option sample_val (map_of l pid) = (case H of [] \<Rightarrow> None | R # _ \<Rightarrow> R pid)
     \<and> (\<forall>a b. map_of l pid = Some (Fresh a b) \<longleftrightarrow> active H pid (a, b)))"

definition sca_exports :: "ScaProgram \<Rightarrow> i64 family \<Rightarrow> bool" where
  "sca_exports p m \<longleftrightarrow> (\<forall>l v. map_of m l = Some v \<longleftrightarrow>
     (\<exists>pid a b. map_of (last_samples p) pid = Some (Fresh a b)
        \<and> l = latency_label (socket_pid_map p) pid \<and> v = avg_us (a, b)))"

definition sca_inv :: "ScaProgram \<times> sca_maps \<Rightarrow> bool" where
  "sca_inv st \<longleftrightarrow> (case st of (p, s) \<Rightarrow>
     (\<forall>m. sca_metrics p = Some m \<longrightarrow> sca_exports p m)
     \<and> (\<forall>pid a b. map_of (last_samples p) pid = Some (Fresh a b) \<longrightarrow> pid \<in> sampled s))"

lemma keys_hash_put: "set (keys m) \<subseteq> set (keys (hash_put K n m k v))"
  by (auto simp: ignoring_def hash_insert_def keys_def dom_update split: option.split)

lemma sampled_handler:
  assumes "sys_enter_sendmsg_handler K ctx pid_tgid c mem now now' s = (r, s')"
  shows "sampled s \<subseteq> sampled s'"
proof -
  have u: "sampled s \<subseteq> sampled (update_moving_average K pid l t s)" for pid l t s
    using keys_hash_put by (fastforce simp: update_moving_average_def sampled_def Let_def)
  have "sampled (snd (subtract_downstream_latency K h pr l s)) = sampled s" for h pr l s
    by (simp add: subtract_downstream_latency_def sampled_def Let_def split: option.split)
  moreover have "sampled (snd (lookup_timestamp_with_protocol h pr t s)) = sampled s" for h pr t s
    by (simp add: lookup_timestamp_with_protocol_def sampled_def Let_def split: option.split)
  ultimately have "sampled s \<subseteq> sampled (handle_response K ev t t' s)" for ev t t' s
    using u by (fastforce simp: handle_response_def Let_def split_beta)
  moreover have "sampled (handle_request K ev t s) = sampled s" for ev t s
    by (simp add: handle_request_def store_timestamp_with_protocol_def sampled_def)
  ultimately show ?thesis
    using assms
    by (auto simp: sys_enter_sendmsg_handler_def Let_def split: option.splits if_splits) blast
qed

lemma keys_filter_graph: "keys (filter P (map (\<lambda>x. (x, f x)) xs)) = filter (\<lambda>x. P (x, f x)) xs"
  by (induction xs) (auto simp: keys_def)

lemma partition_fresh_spec:
  assumes "distinct ps" and "partition_fresh l (map (\<lambda>pid. (pid, f pid)) ps) = ((fresh, stale), l')"
  shows "set fresh = {pid \<in> set ps. map_option sample_val (map_of l pid) \<noteq> Some (f pid)}"
    and "set stale = {pid \<in> set ps. map_of l pid = Some (Fresh (fst (f pid)) (snd (f pid)))}"
    and "map_of l' pid = (if pid \<in> set ps
           then Some (if pid \<in> set fresh then Fresh (fst (f pid)) (snd (f pid)) else Cleared (fst (f pid)) (snd (f pid)))
           else None)"
proof -
  let ?xs = "map (\<lambda>pid. (pid, f pid)) ps"
  let ?l = "filter (\<lambda>(pid, _). pid \<in> set ps) l"
  have ks: "keys ?xs = ps" by (simp add: keys_def comp_def)
  have l: "map_of ?l pid = (if pid \<in> set ps then map_of l pid else None)" for pid
    using map_of_filter_keys [of "\<lambda>pid. pid \<in> set ps" l pid] by (simp add: split_beta')
  have run: "partition_loop ?xs ?l = ((fresh, stale), l')" using assms(2) by (simp add: partition_fresh_def ks)
  note spec = partition_loop_spec [of ?xs ?l, unfolded ks run fst_conv snd_conv, OF assms(1)]
  have fs: "fresh = keys (filter (\<lambda>x. \<not> quiet ?l x) ?xs)" "stale = keys (filter (just_stale ?l) ?xs)"
    using spec(1) by simp_all
  show f: "set fresh = {pid \<in> set ps. map_option sample_val (map_of l pid) \<noteq> Some (f pid)}"
    unfolding fs keys_filter_graph by (auto simp: quiet_def l)
  show "set stale = {pid \<in> set ps. map_of l pid = Some (Fresh (fst (f pid)) (snd (f pid)))}"
    unfolding fs keys_filter_graph by (auto simp: just_stale_def l)
  have "map_of ?xs pid = (if pid \<in> set ps then Some (f pid) else None)"
    by (simp add: map_of_map_restrict)
  then show "map_of l' pid = (if pid \<in> set ps
      then Some (if pid \<in> set fresh then Fresh (fst (f pid)) (snd (f pid)) else Cleared (fst (f pid)) (snd (f pid)))
      else None)"
    unfolding f using spec(2) [of pid] by (auto simp: l quiet_def)
qed

text \<open>Removing the series of the newly stale leaves at most those of the fresh ...\<close>

lemma stale_removed:
  assumes part: "partition_fresh (last_samples p) (map (\<lambda>pid. (pid, f pid)) ps) = ((fresh, stale), l')" "distinct ps"
    and exp: "sca_exports p m"
    and known: "\<And>pid a b. map_of (last_samples p) pid = Some (Fresh a b) \<Longrightarrow> pid \<in> set ps"
    and "l \<notin> latency_label (socket_pid_map p) ` set fresh"
  shows "map_of (foldl (\<lambda>m pid. AList.delete (latency_label (socket_pid_map p) pid) m) m stale) l = None"
proof (rule ccontr)
  let ?lab = "latency_label (socket_pid_map p)"
  assume "map_of (foldl (\<lambda>m pid. AList.delete (?lab pid) m) m stale) l \<noteq> None"
  then obtain v where "map_of m l = Some v" and stale: "l \<notin> ?lab ` set stale"
    by (auto simp: map_of_remove_labels split: if_splits)
  then obtain pid a b where pid: "map_of (last_samples p) pid = Some (Fresh a b)" and l: "l = ?lab pid"
    using exp unfolding sca_exports_def by blast
  have "pid \<in> set fresh \<or> pid \<in> set stale"
    unfolding partition_fresh_spec(1,2) [OF part(2,1)] using known [OF pid] pid by (cases "f pid = (a, b)") auto
  then show False using l stale assms(5) by blast
qed

text \<open>... and reporting the fresh adds exactly theirs.\<close>

lemma fresh_reported:
  assumes "\<And>l. l \<notin> latency_label pids ` set fresh \<Longrightarrow> map_of m l = None"
  shows "map_of (foldl (\<lambda>m pid. report_pid_latency pids (pid, f pid) m) m fresh) l = Some v
     \<longleftrightarrow> (\<exists>pid\<in>set fresh. l = latency_label pids pid \<and> v = avg_us (f pid))"
proof (cases "l \<in> latency_label pids ` set fresh")
  case True
  then obtain q where q: "q \<in> set fresh" "l = latency_label pids q" by blast
  have "(THE pid. latency_label pids q = latency_label pids pid) = q" by (rule the_equality) auto
  then show ?thesis using q by (auto simp: map_of_reports)
next
  case False
  then show ?thesis using assms [OF False] by (auto simp: map_of_reports)
qed

lemma sca_inv_display:
  assumes "sca_inv (p, s)" and "sca_display_metrics K aya w p s = ((r, p'), s')"
  shows "sca_inv (p', s')"
proof (cases "\<exists>m ps. sca_metrics p = Some m \<and> sca_ebpf p \<and> open_accumulator_map aya ''LATENCY_PID_SUM'' = Inr ()
    \<and> open_accumulator_map aya ''LATENCY_PID_COUNT'' = Inr () \<and> collect_pids w s = Inr ps")
  case False
  then have "p' = p \<and> s' = s"
    using assms(2) by (auto simp: sca_display_metrics_def split: option.splits if_splits sum.splits)
  then show ?thesis using assms(1) by simp
next
  case True
  then obtain m ps where m: "sca_metrics p = Some m" and ps: "collect_pids w s = Inr ps"
    and ok: "sca_ebpf p" "open_accumulator_map aya ''LATENCY_PID_SUM'' = Inr ()"
      "open_accumulator_map aya ''LATENCY_PID_COUNT'' = Inr ()" by blast
  have pset: "distinct ps" "set ps = sampled s"
    using ps by (auto simp: collect_pids_def sampled_def split: option.splits)
  obtain fresh stale l' where part: "partition_fresh (last_samples p) (map (\<lambda>pid. (pid, sample_of s pid)) ps) = ((fresh, stale), l')"
    by (cases "partition_fresh (last_samples p) (map (\<lambda>pid. (pid, sample_of s pid)) ps)") auto
  note spec = partition_fresh_spec [OF pset(1) part]
  let ?m = "foldl (\<lambda>m pid. AList.delete (latency_label (socket_pid_map p) pid) m) m stale"
  let ?m' = "foldl (\<lambda>m pid. report_pid_latency (socket_pid_map p) (pid, sample_of s pid) m) ?m fresh"
  have "sca_exports p m" and "\<And>pid a b. map_of (last_samples p) pid = Some (Fresh a b) \<Longrightarrow> pid \<in> set ps"
    using assms(1) m pset(2) by (auto simp: sca_inv_def)
  note none = stale_removed [OF part pset(1) this]
  have fr: "map_of l' pid = Some (Fresh a b) \<longleftrightarrow> pid \<in> set fresh \<and> sample_of s pid = (a, b)" for pid a b
    using spec(1,3) by (auto split: if_splits)
  show ?thesis
  proof (cases "fresh = []")
    case True
    have "sca_metrics p' = Some ?m" "last_samples p' = l'"
      using assms(2) m ok ps part True
      by (auto simp: sca_display_metrics_def Let_def split: if_splits prod.splits)
    then show ?thesis using none True by (auto simp: sca_inv_def sca_exports_def fr)
  next
    case False
    have p': "p' = p\<lparr>last_samples := l', sca_metrics := Some ?m'\<rparr>" "s' = s"
      using assms(2) m ok ps part False by (auto simp: sca_display_metrics_def Let_def)
    have "sca_exports p' ?m'"
      unfolding sca_exports_def p' by (simp add: fresh_reported [OF none] fr) (metis surj_pair)
    then show ?thesis using p' fr spec(1) pset(2) by (auto simp: sca_inv_def)
  qed
qed

text \<open>A display that fails changes nothing; one that succeeds has read the maps.\<close>

lemma display_outcomes:
  assumes "sca_display_metrics K aya w p s = ((r, p'), s')"
  shows "r = Inr () \<and> (\<exists>ps fresh stale. distinct ps \<and> set ps = sampled s
      \<and> partition_fresh (last_samples p) (map (\<lambda>pid. (pid, sample_of s pid)) ps) = ((fresh, stale), last_samples p'))
    \<or> r \<noteq> Inr () \<and> p' = p"
proof (cases "\<exists>m ps. sca_metrics p = Some m \<and> sca_ebpf p \<and> open_accumulator_map aya ''LATENCY_PID_SUM'' = Inr ()
    \<and> open_accumulator_map aya ''LATENCY_PID_COUNT'' = Inr () \<and> collect_pids w s = Inr ps")
  case False
  then show ?thesis
    using assms by (auto simp: sca_display_metrics_def split: option.splits if_splits sum.splits)
next
  case True
  then obtain m ps where m: "sca_metrics p = Some m" and ps: "collect_pids w s = Inr ps"
    and ok: "sca_ebpf p" "open_accumulator_map aya ''LATENCY_PID_SUM'' = Inr ()"
      "open_accumulator_map aya ''LATENCY_PID_COUNT'' = Inr ()" by blast
  have "distinct ps" "set ps = sampled s" using ps by (auto simp: collect_pids_def sampled_def split: option.splits)
  moreover obtain fresh stale l' where
    part: "partition_fresh (last_samples p) (map (\<lambda>pid. (pid, sample_of s pid)) ps) = ((fresh, stale), l')"
    by (cases "partition_fresh (last_samples p) (map (\<lambda>pid. (pid, sample_of s pid)) ps)") auto
  moreover have "r = Inr () \<and> last_samples p' = l'"
    using assms m ok ps part
    by (auto simp: sca_display_metrics_def Let_def split: if_splits prod.splits)
  ultimately show ?thesis by blast
qed

lemma ledger_of_display:
  assumes "ledger_of H l" and "distinct ps" and "set ps = sampled s"
    and "partition_fresh l (map (\<lambda>pid. (pid, sample_of s pid)) ps) = ((fresh, stale), l')"
  shows "ledger_of (reading s # H) l'"
proof -
  note part = partition_fresh_spec [OF assms(2,4)]
  have old: "map_option sample_val (map_of l pid) = (case H of [] \<Rightarrow> None | R # _ \<Rightarrow> R pid)" for pid
    using assms(1) by (simp add: ledger_of_def)
  have fresh: "pid \<in> set fresh \<longleftrightarrow> active (reading s # H) pid (sample_of s pid)" for pid
    unfolding part(1) using old [of pid] assms(3) by (auto simp: active_def reading_def split: list.splits)
  have only: "active (reading s # H) pid x \<Longrightarrow> pid \<in> sampled s \<and> x = sample_of s pid" for pid x
    by (simp add: active_def reading_def split: if_splits)
  show ?thesis
    unfolding ledger_of_def
  proof (intro allI conjI)
    fix pid a b
    show "map_option sample_val (map_of l' pid) = (case reading s # H of [] \<Rightarrow> None | R # _ \<Rightarrow> R pid)"
      by (simp add: part(3) reading_def assms(3))
    show "map_of l' pid = Some (Fresh a b) \<longleftrightarrow> active (reading s # H) pid (a, b)"
      using fresh [of pid] only [of pid "(a, b)"] assms(3) by (cases "sample_of s pid") (auto simp: part(3))
  qed
qed

lemma sca_reach_inv:
  assumes "sca_reach K aya (H, p, s)"
  shows "sca_inv (p, s) \<and> ledger_of H (last_samples p)"
  using assms
proof (induction "(H, p, s)" arbitrary: H p s rule: sca_reach.induct)
  case (loaded p s)
  then show ?case by (simp add: sca_inv_def sca_exports_def ledger_of_def active_def)
next
  case (sent H p s ctx pid_tgid c mem now now' r s')
  then show ?case using sampled_handler [OF sent.hyps(3)] by (auto simp: sca_inv_def)
next
  case (displayed H p s w r p' s')
  have "sca_inv (p', s')" using sca_inv_display displayed by blast
  moreover have "ledger_of (if r = Inr () then reading s # H else H) (last_samples p')"
    using display_outcomes [OF displayed.hyps(3)] displayed.hyps(2) ledger_of_display by auto
  ultimately show ?case by blast
qed


section \<open>Rediscovery\<close>

lemma remove_keys_filter: "remove_keys m ks = filter (\<lambda>p. fst p \<notin> set ks) m"
proof (induction ks arbitrary: m)
  case (Cons k ks)
  have "map_remove m k = filter (\<lambda>p. fst p \<noteq> k) m"
    by (auto simp: map_remove_def AList.delete_eq intro!: filter_cong)
  then show ?case using Cons by (simp add: remove_keys_def conj_commute)
qed (simp add: remove_keys_def)

lemma remove_dead: "remove_keys m (filter P (keys m)) = filter (\<lambda>p. \<not> P (fst p)) m"
  unfolding remove_keys_filter by (rule filter_cong) (auto simp: keys_def)

lemma map_get_filter: "map_get (filter (\<lambda>p. Q (fst p)) m) k = (if Q k then map_get m k else None)"
  by (simp add: map_get_def map_of_filter_keys)

lemma pair_key_high [simp]: "ucast (drop_bit 32 (pair_key a b)) = a"
  by (rule bit_word_eqI) (simp add: bit_pair_key bit_ucast_iff bit_drop_bit_eq)

definition endpoint_of :: "DiscoveredHop \<Rightarrow> HopEndpoint" where
  "endpoint_of h = \<lparr>hop_index = of_nat (dh_hop_index h), is_sender = dh_is_sender h, path = path_bytes (dh_path h)\<rparr>"

definition hop_key :: "DiscoveredHop \<Rightarrow> u64" where
  "hop_key h = pair_key (dh_host_pid h) (dh_fd h)"

lemma insert_endpoint_eq:
  "insert_endpoint K h s = s\<lparr>SOCKET_HOPS_MAP := hash_put K 14 (SOCKET_HOPS_MAP s) (hop_key h) (endpoint_of h)\<rparr>"
  by (simp add: insert_endpoint_def hop_key_def pair_key_def endpoint_of_def SOCKET_HOPS_MAP_MAX_ENTRIES_def)

lemma insert_hops_maps:
  assumes "hash_documented K" and "distinct (map hop_key hops)"
    and "length (SOCKET_HOPS_MAP s) + length hops \<le> 14" and "insert_hops K hops (dm, s) = (dm', s')"
  shows "(\<forall>h\<in>set hops. map_get (SOCKET_HOPS_MAP s') (hop_key h) = Some (endpoint_of h))
    \<and> (\<forall>k. k \<notin> hop_key ` set hops \<longrightarrow> map_get (SOCKET_HOPS_MAP s') k = map_get (SOCKET_HOPS_MAP s) k)
    \<and> LATENCY_PID_SUM s' = LATENCY_PID_SUM s \<and> LATENCY_PID_COUNT s' = LATENCY_PID_COUNT s"
  using assms(2-4)
proof (induction hops arbitrary: dm s)
  case (Cons h hops)
  let ?m = "hash_put K 14 (SOCKET_HOPS_MAP s) (hop_key h) (endpoint_of h)"
  have room: "length (SOCKET_HOPS_MAP s) < 14" using Cons.prems(2) by simp
  have put: "hash_insert K 14 (SOCKET_HOPS_MAP s) (hop_key h) (endpoint_of h)
      = Inr (AList.update (hop_key h) (endpoint_of h) (SOCKET_HOPS_MAP s))"
    by (rule hash_insert_accepts [OF assms(1)]) (use room in simp)
  have "length ?m + length hops \<le> 14"
    using Cons.prems(2) by (simp add: put ignoring_def length_update)
  moreover obtain dm1 where "insert_hops K hops (dm1, s\<lparr>SOCKET_HOPS_MAP := ?m\<rparr>) = (dm', s')"
    using Cons.prems(3) by (cases dm) (simp add: insert_endpoint_eq)
  ultimately show ?case
    using Cons.IH [of "s\<lparr>SOCKET_HOPS_MAP := ?m\<rparr>" dm1] Cons.prems(1)
      map_get_hash_put_room [OF assms(1), of "SOCKET_HOPS_MAP s" "hop_key h" 14 "endpoint_of h"] room
    by auto
qed simp


section \<open>Properties\<close>

text \<open>
  C6. The exported latencies are current. In every state of a run, whatever the interleaving of
  message sends, displays and rediscoveries, the exported series are exactly those of the
  processes that the last completed display found with other values of sum and count than the
  completed display before it (or found for the first time), each with the average of the values
  it read: the series of a process that went quiet is gone after one display, and comes back with
  the next change.
\<close>

theorem sca_series_are_fresh:
  assumes "sca_reach K aya (H, p, s)" and "sca_metrics p = Some m"
  shows "map_of m l = Some v \<longleftrightarrow>
     (\<exists>pid x. active H pid x \<and> l = latency_label (socket_pid_map p) pid \<and> v = avg_us x)"
proof -
  note inv = sca_reach_inv [OF assms(1)]
  have "map_of (last_samples p) pid = Some (Fresh a b) \<longleftrightarrow> active H pid (a, b)" for pid a b
    using inv by (simp add: ledger_of_def)
  moreover have "sca_exports p m" using inv assms(2) by (simp add: sca_inv_def)
  ultimately have "map_of m l = Some v \<longleftrightarrow>
      (\<exists>pid a b. active H pid (a, b) \<and> l = latency_label (socket_pid_map p) pid \<and> v = avg_us (a, b))"
    by (simp only: sca_exports_def)
  then show ?thesis by simp
qed

definition sca_demo_program :: ScaProgram where
  "sca_demo_program = sca_new\<lparr>sca_ebpf := True, sca_metrics := Some [], socket_pid_map := [(7, ''FRAGMENTER'')]\<rparr>"

definition sca_demo_world :: sca_world where
  "sca_demo_world = \<lparr>ss_output = Inl ''ENOENT'', proc_read = (\<lambda>_. None), iter_error = (\<lambda>_. None), clock = 0\<rparr>"

definition sca_demo_maps :: sca_maps where
  "sca_demo_maps = sca_maps_init\<lparr>LATENCY_PID_SUM := [(7, 9000)], LATENCY_PID_COUNT := [(7, 3)]\<rparr>"

theorem sca_series_are_fresh_witness:
  "\<exists>H p m. sca_reach ref_kernel (\<lambda>_. None) (H, p, sca_demo_maps) \<and> sca_metrics p = Some m
     \<and> active H 7 (9000, 3) \<and> map_of m (latency_label [(7, ''FRAGMENTER'')] 7) = Some 3"
proof -
  let ?p = "sca_demo_program\<lparr>last_samples := [(7, Fresh 9000 3)],
      sca_metrics := Some [(latency_label [(7, ''FRAGMENTER'')] 7, 3)]\<rparr>"
  have d: "sca_display_metrics ref_kernel (\<lambda>_. None) sca_demo_world sca_demo_program sca_demo_maps
      = ((Inr (), ?p), sca_demo_maps)"
    by (simp add: sca_display_metrics_def sca_demo_program_def sca_demo_world_def sca_demo_maps_def sca_maps_init_def
        sca_new_def open_accumulator_map_def collect_pids_def keys_def sample_of_def map_get_def partition_fresh_def
        report_pid_latency_def checked_div_def)
  have "sca_reach ref_kernel (\<lambda>_. None) ([], sca_demo_program, sca_demo_maps)"
    by (rule sca_reach.loaded) (simp_all add: sca_demo_program_def sca_new_def)
  from sca_reach.displayed [OF this d]
  have r: "sca_reach ref_kernel (\<lambda>_. None) ([reading sca_demo_maps], ?p, sca_demo_maps)" by simp
  have a: "active [reading sca_demo_maps] 7 (9000, 3)"
    by (simp add: active_def reading_def sampled_def sample_of_def sca_demo_maps_def keys_def map_get_def)
  have "avg_us (9000, 3) = 3" by (simp add: avg_us_def checked_div_def)
  then have "map_of (the (sca_metrics ?p)) (latency_label [(7, ''FRAGMENTER'')] 7) = Some 3"
    by (intro sca_series_are_fresh [OF r, THEN iffD2] exI [of _ 7] exI [of _ "(9000, 3)"])
      (use a in \<open>simp_all add: sca_demo_program_def\<close>)
  then show ?thesis using r a by (intro exI [of _ "[reading sca_demo_maps]"] exI [of _ ?p]) simp
qed

text \<open>
  C27. Rediscovery makes the kernel follow the restarted processes: with room in the map for the
  entries that stay and the endpoints found, a rediscovery whose map accesses succeed leaves every
  discovered endpoint where the tracepoint looks it up, no endpoint of a process that is not among
  them, and the latency sums of exactly the processes that are.
\<close>

theorem sca_rediscovery_effective:
  assumes "hash_documented K" and "\<And>c. aya c = None" and "\<And>n. iter_error w n = None"
    and "discover_hop_sockets w = Inr hops" and "live = set (map dh_host_pid hops)"
    and "distinct (map (\<lambda>h. (dh_host_pid h, dh_fd h)) hops)"
    and "length (filter (\<lambda>p. ucast (drop_bit 32 (fst p)) \<in> live) (SOCKET_HOPS_MAP s)) + length hops \<le> 14"
    and "repopulate_socket_hops_map K aya w (dm, s) = (r, dm', s')"
  shows "r = Inr ()
       \<and> (\<forall>h\<in>set hops. get_endpoint s' (dh_host_pid h) (dh_fd h) = Some (endpoint_of h))
       \<and> (\<forall>pid fd. pid \<notin> live \<longrightarrow> get_endpoint s' pid fd = None)
       \<and> (\<forall>pid. map_get (LATENCY_PID_SUM s') pid = (if pid \<in> live then map_get (LATENCY_PID_SUM s) pid else None))
       \<and> (\<forall>pid. map_get (LATENCY_PID_COUNT s') pid = (if pid \<in> live then map_get (LATENCY_PID_COUNT s) pid else None))"
proof -
  let ?live = "\<lambda>p. ucast (drop_bit 32 (fst p)) \<in> live"
  let ?s = "s\<lparr>SOCKET_HOPS_MAP := filter ?live (SOCKET_HOPS_MAP s),
      LATENCY_PID_SUM := filter (\<lambda>p. fst p \<in> live) (LATENCY_PID_SUM s),
      LATENCY_PID_COUNT := filter (\<lambda>p. fst p \<in> live) (LATENCY_PID_COUNT s),
      LATENCY_WINDOW_START := filter (\<lambda>p. fst p \<in> live) (LATENCY_WINDOW_START s)\<rparr>"
  have run: "r = Inr ()" "insert_hops K hops (([], []), ?s) = (dm', s')"
    using assms(8)
    by (simp_all add: repopulate_socket_hops_map_def assms(2-5) evict_endpoints_def evict_latencies_def evict_pids_def
        insert_discovered_def remove_dead Let_def)
  have "distinct (map hop_key hops)"
    using assms(6) by (auto simp: distinct_map inj_on_def hop_key_def)
  from insert_hops_maps [OF assms(1) this _ run(2)] assms(7)
  have post: "\<forall>h\<in>set hops. map_get (SOCKET_HOPS_MAP s') (hop_key h) = Some (endpoint_of h)"
    "\<And>k. k \<notin> hop_key ` set hops \<Longrightarrow> map_get (SOCKET_HOPS_MAP s') k = map_get (filter ?live (SOCKET_HOPS_MAP s)) k"
    "LATENCY_PID_SUM s' = filter (\<lambda>p. fst p \<in> live) (LATENCY_PID_SUM s)"
    "LATENCY_PID_COUNT s' = filter (\<lambda>p. fst p \<in> live) (LATENCY_PID_COUNT s)"
    by simp_all
  have "get_endpoint s' pid fd = None" if "pid \<notin> live" for pid fd
  proof -
    have "pair_key pid fd \<notin> hop_key ` set hops" using that assms(5) by (auto simp: hop_key_def)
    then show ?thesis
      using post(2) [of "pair_key pid fd"] that
        map_get_filter [of "\<lambda>k. ucast (drop_bit 32 k) \<in> live" "SOCKET_HOPS_MAP s" "pair_key pid fd"]
      by (simp add: get_endpoint_def)
  qed
  then show ?thesis using run(1) post(1,3,4) 
    by (simp add: get_endpoint_def hop_key_def map_get_filter [of "\<lambda>k. k \<in> live"])
qed

definition sca_restart_world :: sca_world where
  "sca_restart_world = sca_env.extend demo_env \<lparr>iter_error = (\<lambda>_. None), clock = 0\<rparr>"

text \<open>Process 40 is gone, process 20 still runs.\<close>

definition sca_restart_maps :: sca_maps where
  "sca_restart_maps = sca_maps_init\<lparr>
     SOCKET_HOPS_MAP := [(pair_key 40 9, \<lparr>hop_index = 2, is_sender = 0, path = []\<rparr>)],
     LATENCY_PID_SUM := [(40, 5000), (20, 700)], LATENCY_PID_COUNT := [(40, 2), (20, 1)]\<rparr>"

theorem sca_rediscovery_effective_witness:
  "\<exists>dm' s'. repopulate_socket_hops_map ref_kernel (\<lambda>_. None) sca_restart_world (([], []), sca_restart_maps)
       = (Inr (), dm', s')
     \<and> get_endpoint s' 1030 9 \<noteq> None \<and> get_endpoint s' 40 9 = None
     \<and> map_get (LATENCY_PID_SUM s') 20 = Some 700 \<and> map_get (LATENCY_PID_SUM s') 40 = None"
proof -
  let ?hops = "[\<lparr>dh_hop_index = 2, dh_host_pid = 1030, dh_fd = 9, dh_is_sender = 0, dh_path = ''/tmp/WF_L_TO_FRAG'', dh_pname = ''FRAGMENTER''\<rparr>,
      \<lparr>dh_hop_index = 2, dh_host_pid = 20, dh_fd = 7, dh_is_sender = 1, dh_path = ''/tmp/WF_L_TO_FRAG'', dh_pname = ''RED_WF_COMM_L''\<rparr>] :: DiscoveredHop list"
  have "discover_hop_sockets sca_restart_world = discover_hop_sockets demo_env"
    by (rule discover_cong) (simp_all add: sca_restart_world_def sca_env.defs)
  then have d: "discover_hop_sockets sca_restart_world = Inr ?hops" using demo_discovery by simp
  obtain r dm' s' where run: "repopulate_socket_hops_map ref_kernel (\<lambda>_. None) sca_restart_world (([], []), sca_restart_maps)
      = (r, dm', s')" by (metis prod.collapse)
  have "r = Inr () \<and> get_endpoint s' 1030 9 \<noteq> None \<and> get_endpoint s' 40 9 = None
      \<and> map_get (LATENCY_PID_SUM s') 20 = Some 700 \<and> map_get (LATENCY_PID_SUM s') 40 = None"
    using sca_rediscovery_effective [OF ref_kernel_hash_documented refl _ d refl _ _ run]
    by (simp add: sca_restart_world_def sca_env.defs sca_restart_maps_def sca_maps_init_def map_get_def)
  then show ?thesis using run by blast
qed

end
