(* ===== verification/Programs.thy ===== *)
theory Programs
  imports Irss_User Iflat_Uprobe_User Kfree_User Sca_User
begin

text \<open>
  The interface through which the agent drives its programs (\<open>src/bpfagent/src/programs/traits.rs\<close>,
  \<open>registry.rs\<close>). A boxed \<open>dyn EbpfProgram\<close> is a value of the datatype \<open>program\<close>; a trait method is a
  function on it that dispatches to the program's own operation, or to the default method of the
  trait. The registry is the association list from names to fresh instances.

  What the agent relies on is the locale \<open>managed_program\<close>: a program that was loaded and given its
  metrics is ready, stays ready, and its displays succeed as long as the kernel answers. It is
  interpreted on the dispatching functions.
\<close>

datatype program =
  P_iflat IflatProgram
| P_iflat_uprobe IflatUprobeProgram
| P_irss IrssProgram
| P_kfree_skb KfreeSkbProgram
| P_my_program MyProgram
| P_sca ScaProgram sca_maps
| P_uprobe UprobeProgram

text \<open>What a program meets when one of its methods runs: its view of \<open>aya\<close> and \<open>prometheus\<close>, the
  contents of its maps, the clock, and for \<open>sca\<close> the processes of the machine.\<close>

record agent_env =
  en_kernel :: kernel
  en_aya :: aya
  en_prom :: prom
  en_lookup :: lookup
  en_calls :: "(u32, CallRecord) entries"
  en_events :: "(u32, u64) entries"
  en_drops :: "(u32, u64) entries"
  en_now :: nat
  en_sca :: sca_world


section \<open>The trait methods\<close>

definition lift_to :: "('a \<Rightarrow> program) \<Rightarrow> unit result \<times> 'a \<Rightarrow> unit result \<times> program" where
  "lift_to C x = (fst x, C (snd x))"

fun prog_configure :: "EbpfProgramConfig \<Rightarrow> program \<Rightarrow> unit result \<times> program" where
  "prog_configure config (P_iflat p) = lift_to P_iflat (iflat_configure config p)"
| "prog_configure config (P_iflat_uprobe p) = lift_to P_iflat_uprobe (ifu_configure config p)"
| "prog_configure config (P_irss p) = lift_to P_irss (irss_configure config p)"
| "prog_configure config (P_uprobe p) = lift_to P_uprobe (uprobe_configure config p)"
| "prog_configure config p = (Inr (), p)"

fun prog_load :: "agent_env \<Rightarrow> program \<Rightarrow> unit result \<times> program" where
  "prog_load e (P_iflat p) = lift_to P_iflat (fst (iflat_load (en_aya e) p))"
| "prog_load e (P_iflat_uprobe p) = lift_to P_iflat_uprobe (fst (ifu_load (en_aya e) p))"
| "prog_load e (P_irss p) = lift_to P_irss (fst (irss_load (en_aya e) p))"
| "prog_load e (P_kfree_skb p) = lift_to P_kfree_skb (fst (kfree_load (en_aya e) p))"
| "prog_load e (P_my_program p) = lift_to P_my_program (fst (my_load (en_aya e) p))"
| "prog_load e (P_sca p s) =
     (let ((r, p), s) = sca_load (en_kernel e) (en_aya e) (en_sca e) p s in (r, P_sca p s))"
| "prog_load e (P_uprobe p) = lift_to P_uprobe (fst (uprobe_load (en_aya e) p))"

definition prog_start :: "program \<Rightarrow> unit result \<times> program" where
  "prog_start p = (Inr (), p)"

definition supports_metrics :: "program \<Rightarrow> bool" where
  "supports_metrics p = True"

fun prog_set_metrics_registry :: "agent_env \<Rightarrow> program \<Rightarrow> unit result \<times> program" where
  "prog_set_metrics_registry e (P_iflat p) = lift_to P_iflat (iflat_set_metrics_registry (en_prom e) p)"
| "prog_set_metrics_registry e (P_iflat_uprobe p) = lift_to P_iflat_uprobe (ifu_set_metrics_registry (en_prom e) p)"
| "prog_set_metrics_registry e (P_irss p) = lift_to P_irss (irss_set_metrics_registry (en_prom e) p)"
| "prog_set_metrics_registry e (P_kfree_skb p) = lift_to P_kfree_skb (kfree_set_metrics_registry (en_prom e) p)"
| "prog_set_metrics_registry e (P_my_program p) = lift_to P_my_program (my_set_metrics_registry (en_prom e) p)"
| "prog_set_metrics_registry e (P_sca p s) = lift_to (\<lambda>p. P_sca p s) (sca_set_metrics_registry (en_prom e) p)"
| "prog_set_metrics_registry e (P_uprobe p) = lift_to P_uprobe (uprobe_set_metrics_registry (en_prom e) p)"

fun prog_display_metrics :: "agent_env \<Rightarrow> program \<Rightarrow> unit result \<times> program" where
  "prog_display_metrics e (P_iflat p) = lift_to P_iflat (iflat_display_metrics (en_aya e) (en_lookup e) p)"
| "prog_display_metrics e (P_iflat_uprobe p) =
     lift_to P_iflat_uprobe (ifu_display_metrics (en_aya e) (en_lookup e) p)"
| "prog_display_metrics e (P_irss p) = lift_to P_irss (irss_display_metrics (en_aya e) (en_lookup e) p)"
| "prog_display_metrics e (P_kfree_skb p) =
     lift_to P_kfree_skb (kfree_display_metrics (en_aya e) (en_now e) (en_drops e) p)"
| "prog_display_metrics e (P_my_program p) =
     lift_to P_my_program (my_display_metrics (en_aya e) (en_events e) p)"
| "prog_display_metrics e (P_sca p s) =
     (let ((r, p), s) = sca_display_metrics (en_kernel e) (en_aya e) (en_sca e) p s in (r, P_sca p s))"
| "prog_display_metrics e (P_uprobe p) =
     lift_to P_uprobe (uprobe_display_metrics (en_aya e) (en_calls e) p)"


section \<open>The registry\<close>

type_synonym registry = "(string \<times> program) list"

definition registry_new :: registry where
  "registry_new = []"

definition register :: "registry \<Rightarrow> string \<Rightarrow> program \<Rightarrow> registry" where
  "register reg name factory = AList.update name factory reg"

definition available_programs :: "registry \<Rightarrow> string list" where
  "available_programs reg = map fst reg"

definition create_program :: "registry \<Rightarrow> string \<Rightarrow> program option" where
  "create_program reg name = map_of reg name"


section \<open>The contract\<close>

text \<open>Calling a fallible method on every program of the map, in iteration order, up to the first
  error (\<open>for \<dots> in programs.iter_mut() { \<dots>? }\<close>).\<close>

fun for_each :: "('p \<Rightarrow> unit result \<times> 'p) \<Rightarrow> (string \<times> 'p) list \<Rightarrow> unit result \<times> (string \<times> 'p) list" where
  "for_each f [] = (Inr (), [])"
| "for_each f ((name, p) # ps) =
     (case f p of
        (Inl e, p) \<Rightarrow> (Inl e, (name, p) # ps)
      | (Inr _, p) \<Rightarrow> (let (r, ps) = for_each f ps in (r, (name, p) # ps)))"

definition on_all :: "('p \<Rightarrow> unit result \<times> 'p) \<Rightarrow> (string \<times> 'p) list \<Rightarrow> (string \<times> 'p) list" where
  "on_all f ps = map (\<lambda>(name, p). (name, snd (f p))) ps"

locale managed_program =
  fixes load :: "'e \<Rightarrow> 'p \<Rightarrow> unit result \<times> 'p"
    and set_metrics :: "'e \<Rightarrow> 'p \<Rightarrow> unit result \<times> 'p"
    and display :: "'e \<Rightarrow> 'p \<Rightarrow> unit result \<times> 'p"
    and ready :: "'p \<Rightarrow> bool"
    and metered :: "'p \<Rightarrow> bool"
    and works :: "'e \<Rightarrow> bool"
  assumes load_ready: "load e p = (Inr (), p') \<Longrightarrow> ready p'"
    and set_metrics_ok: "ready p \<Longrightarrow> set_metrics e p = (Inr (), p') \<Longrightarrow> ready p' \<and> metered p'"
    and display_keeps: "ready p \<Longrightarrow> metered p \<Longrightarrow> display e p = (r, p') \<Longrightarrow> ready p' \<and> metered p'"
    and display_works: "ready p \<Longrightarrow> metered p \<Longrightarrow> works e \<Longrightarrow> fst (display e p) = Inr ()"
begin

definition operational :: "(string \<times> 'p) list \<Rightarrow> bool" where
  "operational ps \<longleftrightarrow> (\<forall>(name, p)\<in>set ps. ready p \<and> metered p)"

lemma loaded_all: "for_each (load e) ps = (Inr (), ps') \<Longrightarrow> \<forall>(name, p)\<in>set ps'. ready p"
proof (induction ps arbitrary: ps')
  case (Cons x ps)
  then show ?case
    using load_ready by (cases x) (auto split: prod.splits sum.splits)
qed simp

lemma metered_all:
  "\<forall>(name, p)\<in>set ps. ready p \<Longrightarrow> for_each (set_metrics e) ps = (Inr (), ps') \<Longrightarrow> operational ps'"
proof (induction ps arbitrary: ps')
  case (Cons x ps)
  obtain name p where [simp]: "x = (name, p)" by (cases x)
  obtain p1 ps1 where "set_metrics e p = (Inr (), p1)" "for_each (set_metrics e) ps = (Inr (), ps1)" "ps' = (name, p1) # ps1"
    using Cons.prems(2) by (auto split: prod.splits sum.splits)
  then show ?case using Cons.IH [of ps1] Cons.prems(1) set_metrics_ok [of p e p1] by (simp add: operational_def)
qed (simp add: operational_def)

lemma operational_displayed: "operational ps \<Longrightarrow> operational (on_all (display e) ps)"
  unfolding operational_def on_all_def using display_keeps [of _ e] by (auto simp: prod_eq_iff)

lemma operational_works:
  "operational ps \<Longrightarrow> works e \<Longrightarrow> (name, p) \<in> set ps \<Longrightarrow> fst (display e p) = Inr ()"
  using display_works by (auto simp: operational_def)

end


section \<open>The programs keep the contract\<close>

fun ready :: "program \<Rightarrow> bool" where
  "ready (P_iflat p) \<longleftrightarrow> iflat_enabled p \<longrightarrow> iflat_ebpf p"
| "ready (P_iflat_uprobe p) \<longleftrightarrow> ifu_enabled p \<longrightarrow> ifu_ebpf p"
| "ready (P_irss p) \<longleftrightarrow> irss_ebpf p"
| "ready (P_kfree_skb p) \<longleftrightarrow> kf_ebpf p"
| "ready (P_my_program p) \<longleftrightarrow> my_ebpf p"
| "ready (P_sca p s) \<longleftrightarrow> sca_ebpf p"
| "ready (P_uprobe p) \<longleftrightarrow> up_enabled p \<longrightarrow> up_ebpf p"

fun metered :: "program \<Rightarrow> bool" where
  "metered (P_iflat p) \<longleftrightarrow> iflat_metrics p \<noteq> None"
| "metered (P_iflat_uprobe p) \<longleftrightarrow> ifu_metrics p \<noteq> None"
| "metered (P_irss p) \<longleftrightarrow> irss_metrics p \<noteq> None"
| "metered (P_kfree_skb p) \<longleftrightarrow> kf_metrics p \<noteq> None"
| "metered (P_my_program p) \<longleftrightarrow> my_metrics p \<noteq> None"
| "metered (P_sca p s) \<longleftrightarrow> sca_metrics p \<noteq> None"
| "metered (P_uprobe p) \<longleftrightarrow> up_metrics p \<noteq> None"

text \<open>The kernel answers: no call into \<open>aya\<close> fails and no iteration reports an error.\<close>

definition works :: "agent_env \<Rightarrow> bool" where
  "works e \<longleftrightarrow> (\<forall>c. en_aya e c = None) \<and> (\<forall>n. iter_error (en_sca e) n = None)
     \<and> list_all (\<lambda>x. \<not> isl x) (en_events e) \<and> list_all (\<lambda>x. \<not> isl x) (en_drops e)"

lemma collect_counts_ok: "list_all (\<lambda>x. \<not> isl x) es \<Longrightarrow> \<exists>cs. collect_counts es = Inr cs"
  by (induction es rule: collect_counts.induct) auto

lemma my_report_ok: "list_all (\<lambda>x. \<not> isl x) es \<Longrightarrow> fst (my_report es m) = Inr ()"
  by (induction es m rule: my_report.induct) auto

lemma sca_load_ready: "sca_load K aya w p s = ((Inr (), p'), s') \<Longrightarrow> sca_ebpf p'"
  by (auto simp: sca_load_def Let_def split: prod.splits option.splits sum.splits)

lemma sca_display_keeps:
  assumes "sca_display_metrics K aya w p s = ((r, p'), s')" and "sca_ebpf p" and "sca_metrics p \<noteq> None"
  shows "sca_ebpf p' \<and> sca_metrics p' \<noteq> None"
  using assms by (auto simp: sca_display_metrics_def Let_def split: option.splits sum.splits if_splits prod.splits)

lemma sca_display_works:
  assumes "sca_ebpf p" and "sca_metrics p \<noteq> None" and "\<forall>c. aya c = None" and "\<forall>n. iter_error w n = None"
  shows "fst (fst (sca_display_metrics K aya w p s)) = Inr ()"
  using assms by (auto simp: sca_display_metrics_def open_accumulator_map_def collect_pids_def Let_def split: prod.splits)

lemma prog_load_ready: "prog_load e p = (Inr (), p') \<Longrightarrow> ready p'"
  using sca_load_ready
  by (cases p) (fastforce simp: lift_to_def iflat_load_def ifu_load_def irss_load_def kfree_load_def my_load_def
      uprobe_load_def split: if_splits prod.splits option.splits)+

lemma prog_set_metrics_ok:
  "ready p \<Longrightarrow> prog_set_metrics_registry e p = (Inr (), p') \<Longrightarrow> ready p' \<and> metered p'"
  by (cases p) (auto simp: lift_to_def iflat_set_metrics_registry_def ifu_set_metrics_registry_def
      irss_set_metrics_registry_def kfree_set_metrics_registry_def my_set_metrics_registry_def
      sca_set_metrics_registry_def uprobe_set_metrics_registry_def split: sum.splits option.splits)

lemmas display_defs = lift_to_def iflat_display_metrics_def ifu_display_metrics_def irss_display_metrics_def
  kfree_display_metrics_def my_display_metrics_def uprobe_display_metrics_def

lemma prog_display_keeps:
  assumes "ready p" and "metered p" and "prog_display_metrics e p = (r, p')"
  shows "ready p' \<and> metered p'"
proof (cases p)
  case (P_sca q s)
  then show ?thesis using assms sca_display_keeps by (auto split: prod.splits)
qed (use assms in \<open>auto simp: display_defs Let_def split: if_splits sum.splits option.splits prod.splits\<close>)

lemma prog_display_works:
  assumes "ready p" and "metered p" and "works e"
  shows "fst (prog_display_metrics e p) = Inr ()"
proof (cases p)
  case (P_sca q s)
  then show ?thesis using assms sca_display_works [of q] by (simp add: works_def Let_def split_beta)
next
  case (P_kfree_skb q)
  then show ?thesis using assms collect_counts_ok by (fastforce simp: works_def display_defs Let_def split: prod.split)
next
  case (P_my_program q)
  moreover obtain m where "my_metrics q = Some m" using assms(2) P_my_program by auto
  moreover have "fst (my_report (en_events e) m) = Inr ()" using assms(3) by (simp add: works_def my_report_ok)
  ultimately show ?thesis
    using assms by (simp add: works_def display_defs open_accumulator_map_def Let_def split_beta)
qed (use assms in \<open>auto simp: works_def display_defs open_accumulator_map_def Let_def split: prod.split\<close>)

interpretation agent: managed_program prog_load prog_set_metrics_registry prog_display_metrics ready metered works
  by unfold_locales (fact prog_load_ready prog_set_metrics_ok prog_display_keeps prog_display_works)+

end
