(* ===== verification/Server.thy ===== *)
theory Server
  imports Config
begin

text \<open>
  The metrics server (\<open>src/bpfagent/src/metrics/server.rs\<close>). A connection is what the peer sends in
  one read (or the error of the read, or nothing, if the read never returns); the exposition text produced by \<open>prometheus\<close> and the fate of
  a write to the socket are parameters. Both are bytes, which the code converts to a \<open>String\<close> with
  \<open>from_utf8_lossy\<close>; the announced length is that of the bytes before the conversion.

  Shown: every answer is framed so that a client recovers the exact body, and which requests get
  the metrics; a failed connection does not disturb the others, a silent one stalls those after it.
\<close>

definition crlf :: string where
  "crlf = [CHR 0x0D, CHR 0x0A]"

record server_env =
  encode :: "string + string"
  write_all :: "string \<Rightarrow> string option"

definition metrics_response :: "string \<Rightarrow> string" where
  "metrics_response body =
     ''HTTP/1.1 200 OK'' @ crlf @ ''Content-Type: text/plain; charset=utf-8'' @ crlf
       @ ''Content-Length: '' @ decimal (length body) @ crlf @ crlf @ from_utf8_lossy body"

definition handle_metrics_response :: "server_env \<Rightarrow> unit result \<times> string list" where
  "handle_metrics_response env =
     (case encode env of
        Inl e \<Rightarrow> (Inl [e], [])
      | Inr body \<Rightarrow>
          (case write_all env (metrics_response body) of
             Some e \<Rightarrow> (Inl [e], [])
           | None \<Rightarrow> (Inr (), [metrics_response body])))"

definition not_found_response :: string where
  "not_found_response =
     ''HTTP/1.1 404 Not Found'' @ crlf @ ''Content-Type: text/plain'' @ crlf
       @ ''Content-Length: 9'' @ crlf @ crlf @ ''Not Found''"

definition handle_not_found_response :: "server_env \<Rightarrow> unit result \<times> string list" where
  "handle_not_found_response env =
     (case write_all env not_found_response of
        Some e \<Rightarrow> (Inl [e], [])
      | None \<Rightarrow> (Inr (), [not_found_response]))"

definition request_path :: "string \<Rightarrow> string" where
  "request_path request =
     (let method_line = (case lines request of [] \<Rightarrow> [] | l # _ \<Rightarrow> l);
          ws = split_whitespace method_line
      in if 1 < length ws then ws ! 1 else ''/'')"

text \<open>The buffer has room for 4096 bytes; what lies beyond it is not read.\<close>

definition handle_http_request :: "server_env \<Rightarrow> string + string \<Rightarrow> unit result \<times> string list" where
  "handle_http_request env read =
     (case read of
        Inl e \<Rightarrow> (Inl [e], [])
      | Inr bytes \<Rightarrow>
          (let buffer = take 4096 bytes
           in if buffer = [] then (Inr (), [])
              else if request_path (from_utf8_lossy buffer) = ''/metrics'' then handle_metrics_response env
              else handle_not_found_response env))"

text \<open>The accept loop: a connection that cannot be accepted, or whose request fails, is logged and
  the next one is served. The connections are handled one after the other by one thread: while the
  read of one does not return, the later ones wait, and the read may never return (\<open>None\<close>).\<close>

type_synonym connection = "string + server_env \<times> (string + string) option"

fun serve :: "connection list \<Rightarrow> string list list" where
  "serve [] = []"
| "serve (Inl e # incoming) = [] # serve incoming"
| "serve (Inr (env, None) # incoming) = []"
| "serve (Inr (env, Some read) # incoming) = snd (handle_http_request env read) # serve incoming"

definition run_metrics_server ::
  "(string \<Rightarrow> string option) \<Rightarrow> string \<Rightarrow> connection list \<Rightarrow> string list list" where
  "run_metrics_server tcp_bind addr incoming =
     (case tcp_bind addr of Some e \<Rightarrow> [] | None \<Rightarrow> serve incoming)"

text \<open>A connection that fails does not disturb the others; one that is silent stalls those after it.\<close>

lemma serve_append:
  "serve (xs @ ys) = serve xs @ (if (\<exists>env. Inr (env, None) \<in> set xs) then [] else serve ys)"
  by (induction xs rule: serve.induct) auto


section \<open>A client's view\<close>

text \<open>A client reads the header up to the empty line, the length it announces, and that many bytes.\<close>

definition client_body :: "string \<Rightarrow> string option" where
  "client_body r =
     do {
       rest \<leftarrow> after_first (''Content-Length: '') r;
       n \<leftarrow> parse_digits (2 ^ 64) (takeWhile is_ascii_digit rest);
       body \<leftarrow> after_first (crlf @ crlf) r;
       if length body = n then Some body else None
     }"

definition status_line :: "string \<Rightarrow> string" where
  "status_line r = takeWhile (\<lambda>c. c \<noteq> CHR 0x0D) r"

lemma after_first_skip:
  assumes "p \<noteq> []" and "hd p \<notin> set l"
  shows "after_first p (l @ s) = after_first p s"
  using assms(2)
proof (induction l)
  case (Cons c l)
  have "\<not> starts_with p (c # l @ s)"
    using Cons.prems assms(1) by (cases p) (auto simp: starts_with_def)
  then show ?case using Cons by (subst after_first.simps) simp
qed simp

lemma header_line:
  assumes "CHR 0x0D \<notin> set l" and "s \<noteq> []" and "hd s \<noteq> CHR 0x0D"
  shows "after_first (crlf @ crlf) (l @ crlf @ s) = after_first (crlf @ crlf) s"
proof -
  have "\<not> starts_with (crlf @ crlf) (crlf @ s)" using assms(2,3) by (cases s) (auto simp: crlf_def starts_with_def)
  then have "after_first (crlf @ crlf) (crlf @ s) = after_first (crlf @ crlf) ([CHR 0x0A] @ s)"
    by (subst after_first.simps) (simp add: crlf_def)
  also have "\<dots> = after_first (crlf @ crlf) s" by (rule after_first_skip) (simp_all add: crlf_def)
  finally show ?thesis using assms(1) after_first_skip [of "crlf @ crlf" l] by (simp add: crlf_def)
qed

lemma header_end: "CHR 0x0D \<notin> set l \<Longrightarrow> after_first (crlf @ crlf) (l @ crlf @ crlf @ b) = Some b"
  using after_first_skip [of "crlf @ crlf" l "crlf @ crlf @ b"] after_first_here [of "crlf @ crlf" b]
  by (simp add: crlf_def)

lemma decimal_set: "\<not> is_ascii_digit c \<Longrightarrow> c \<notin> set (decimal n)"
  using decimal_digits [of n] by (auto simp: list_all_iff)

lemma framed:
  assumes "CHR 0x0D \<notin> set l1" and "CHR 0x0D \<notin> set l2" and "l2 \<noteq> []" and "CHR ''L'' \<notin> set (l1 @ l2)"
    and "length body \<le> 2 ^ 64"
  shows "client_body (l1 @ crlf @ l2 @ crlf @ ''Content-Length: '' @ decimal (length body) @ crlf @ crlf @ body) = Some body"
proof -
  let ?cl = "''Content-Length: '' @ decimal (length body)"
  let ?r = "l1 @ crlf @ l2 @ crlf @ ?cl @ crlf @ crlf @ body"
  have cr: "CHR 0x0D \<notin> set ?cl" using decimal_set [of "CHR 0x0D"] by (simp add: is_ascii_digit_def)
  have "hd (l2 @ crlf @ ?cl @ crlf @ crlf @ body) \<noteq> CHR 0x0D" using assms(2,3) by (cases l2) auto
  then have "after_first (crlf @ crlf) ?r = after_first (crlf @ crlf) (l2 @ crlf @ ?cl @ crlf @ crlf @ body)"
    using header_line [OF assms(1)] assms(3) by simp
  also have "\<dots> = after_first (crlf @ crlf) (?cl @ crlf @ crlf @ body)"
    using header_line [OF assms(2), of "?cl @ crlf @ crlf @ body"] by simp
  also have "\<dots> = Some body" using header_end [OF cr] by simp
  finally have b: "after_first (crlf @ crlf) ?r = Some body" .
  have "after_first (''Content-'' @ CHR ''L'' # ''ength: '')
      ((l1 @ crlf @ l2 @ crlf) @ (''Content-'' @ CHR ''L'' # ''ength: '') @ decimal (length body) @ crlf @ crlf @ body)
      = Some (decimal (length body) @ crlf @ crlf @ body)"
    by (rule after_first_mark) (use assms(4) in \<open>auto simp: crlf_def\<close>)
  then have n: "after_first ''Content-Length: '' ?r = Some (decimal (length body) @ crlf @ crlf @ body)" by simp
  have "takeWhile is_ascii_digit (decimal (length body) @ crlf @ crlf @ body) = decimal (length body)"
    using decimal_digits [of "length body"] by (simp add: takeWhile_append list_all_iff crlf_def is_ascii_digit_def)
  then show ?thesis using b n assms(5) by (simp add: client_body_def)
qed


section \<open>Properties\<close>

text \<open>
  C34. Every answer of the server can be read back: for a request that was received and an answer
  that could be written, with an exposition text in UTF-8 as its format prescribes, the server
  sends one message, from which a client that trusts
  \<open>Content-Length\<close> recovers exactly the exposition text if the second word of the first line is
  \<open>/metrics\<close> (whatever the method) and \<open>Not Found\<close> otherwise, with the status line to match.
\<close>

theorem server_answer_roundtrip:
  assumes "take 4096 bytes \<noteq> []" and "encode env = Inr text" and "from_utf8_lossy text = text"
    and "length text \<le> 2 ^ 64"
    and "\<And>r. write_all env r = None"
  shows "\<exists>r. handle_http_request env (Inr bytes) = (Inr (), [r])
       \<and> (if request_path (from_utf8_lossy (take 4096 bytes)) = ''/metrics''
          then client_body r = Some text \<and> status_line r = ''HTTP/1.1 200 OK''
          else client_body r = Some ''Not Found'' \<and> status_line r = ''HTTP/1.1 404 Not Found'')"
proof -
  have "client_body (metrics_response text) = Some text"
    unfolding metrics_response_def assms(3) by (rule framed) (use assms(4) in simp_all)
  moreover have nine: "decimal (length ''Not Found'') = ''9''" by code_simp
  have "client_body not_found_response = Some ''Not Found''"
    using framed [of "''HTTP/1.1 404 Not Found''" "''Content-Type: text/plain''" "''Not Found''", unfolded nine]
    by (simp add: not_found_response_def)
  moreover have "status_line (metrics_response text) = ''HTTP/1.1 200 OK''"
    "status_line not_found_response = ''HTTP/1.1 404 Not Found''"
    by (simp_all add: status_line_def metrics_response_def not_found_response_def crlf_def)
  ultimately show ?thesis
    using assms by (simp add: handle_http_request_def handle_metrics_response_def handle_not_found_response_def Let_def)
qed

definition demo_server :: server_env where
  "demo_server = \<lparr>encode = Inr ''test_metric 42'', write_all = (\<lambda>_. None)\<rparr>"

theorem server_answer_roundtrip_witness:
  "\<exists>r. handle_http_request demo_server (Inr (''GET /metrics HTTP/1.1'' @ crlf @ crlf)) = (Inr (), [r])
     \<and> client_body r = Some ''test_metric 42''"
proof -
  have "request_path (from_utf8_lossy (take 4096 (''GET /metrics HTTP/1.1'' @ crlf @ crlf))) = ''/metrics''"
    by (simp add: request_path_def crlf_def lines_def strip_cr_def is_whitespace_def)
  then show ?thesis
    using server_answer_roundtrip [of "''GET /metrics HTTP/1.1'' @ crlf @ crlf" demo_server "''test_metric 42''"]
    by (auto simp: demo_server_def)
qed

end
