(* ===== verification/Daemon.thy ===== *)
theory Daemon
  imports Config
begin

text \<open>
  Command line and daemonization (\<open>src/bpfagent/src/cli/args.rs\<close>, \<open>src/bpfagent/src/daemon.rs\<close>).
  The operating system is a parameter: whether each call succeeds, and what \<open>fork()\<close> returns to
  the process the model follows. The state is the calling process and the files written.

  Shown: what the detached process looks like when nothing failed, in which order calls are made,
  and whose process id the PID file holds.
\<close>

record BpfAgentArgs =
  arg_daemon :: bool
  metrics_ip :: string
  metrics_port :: u16
  arg_verbose :: bool
  config_file :: "string option"

datatype os_call =
  CreateFile string
| WriteFile string string
| OpenFile string
| Dup2 string nat
| Setsid
| Chdir string

record process =
  proc_pid :: u32
  fds :: "nat \<Rightarrow> string"
  session :: u32
  cwd :: string
  files :: "string \<Rightarrow> string option"

record os =
  os_fails :: "os_call \<Rightarrow> string option"
  fork_returns :: i32
  child_pid :: u32

datatype 'a outcome = Returned 'a process | Failed anyhow process | Exited process

definition redirect_stdio :: "os \<Rightarrow> string \<Rightarrow> process \<Rightarrow> unit outcome" where
  "redirect_stdio os logf p =
     (case os_fails os (OpenFile ''/dev/null'') of
        Some e \<Rightarrow> Failed [''failed to open /dev/null: '' @ e] p
      | None \<Rightarrow>
          if os_fails os (Dup2 ''/dev/null'' 0) \<noteq> None
          then Failed [''dup2() failed for stdin: cannot redirect file descriptors''] p
          else let p = p\<lparr>fds := (fds p)(0 := ''/dev/null'')\<rparr> in
          if os_fails os (Dup2 logf 1) \<noteq> None
          then Failed [''dup2() failed for stdout: cannot redirect file descriptors''] p
          else let p = p\<lparr>fds := (fds p)(1 := logf)\<rparr> in
          if os_fails os (Dup2 logf 2) \<noteq> None
          then Failed [''dup2() failed for stderr: cannot redirect file descriptors''] p
          else Returned () (p\<lparr>fds := (fds p)(2 := logf)\<rparr>))"

definition create_new_session :: "os \<Rightarrow> process \<Rightarrow> unit outcome" where
  "create_new_session os p =
     (if os_fails os Setsid \<noteq> None
      then Failed [''setsid() failed: cannot create new session for daemon''] p
      else Returned () (p\<lparr>session := proc_pid p\<rparr>))"

definition change_working_directory :: "os \<Rightarrow> string \<Rightarrow> process \<Rightarrow> unit outcome" where
  "change_working_directory os dir p =
     (case os_fails os (Chdir dir) of
        Some e \<Rightarrow> Failed [''failed to change working directory to '' @ dir @ '': '' @ e] p
      | None \<Rightarrow> Returned () (p\<lparr>cwd := dir\<rparr>))"

fun and_then :: "'a outcome \<Rightarrow> (process \<Rightarrow> 'b outcome) \<Rightarrow> 'b outcome" where
  "and_then (Returned _ p) f = f p"
| "and_then (Failed e p) f = Failed e p"
| "and_then (Exited p) f = Exited p"

definition fork_and_detach :: "os \<Rightarrow> string \<Rightarrow> string \<Rightarrow> process \<Rightarrow> unit outcome" where
  "fork_and_detach os logf dir p =
     (let pid = fork_returns os
      in if sint pid < 0 then Failed [''fork() failed: cannot daemonize process''] p
         else if 0 < sint pid then Exited p
         else
           and_then (redirect_stdio os logf (p\<lparr>proc_pid := child_pid os\<rparr>)) (\<lambda>p.
           and_then (create_new_session os p) (\<lambda>p.
           change_working_directory os dir p)))"

definition daemonize :: "os \<Rightarrow> BpfAgentArgs \<Rightarrow> DaemonConfig \<Rightarrow> process \<Rightarrow> string option outcome" where
  "daemonize os args config p =
     (if \<not> arg_daemon args \<or> arg_verbose args then Returned None p
      else
        let logf = log_file config in
        (case os_fails os (CreateFile logf) of
           Some e \<Rightarrow> Failed [''failed to create log file '' @ logf @ '': '' @ e] p
         | None \<Rightarrow>
             let p = p\<lparr>files := (files p)(logf \<mapsto> [])\<rparr>; pidf = pid_file config; own = to_string (proc_pid p) in
             (case os_fails os (WriteFile pidf own) of
                Some e \<Rightarrow> Failed [''failed to write PID file '' @ pidf @ '': '' @ e] p
              | None \<Rightarrow>
                  and_then (fork_and_detach os logf (working_directory config) (p\<lparr>files := (files p)(pidf \<mapsto> own)\<rparr>))
                    (\<lambda>p. Returned (Some logf) p))))"


text \<open>The logger set up before and after daemonizing: none yet, standard error, or the log file.\<close>

datatype logger = NoLogger | InfoToStderr | DebugToLog

definition init_logger_initial :: "BpfAgentArgs \<Rightarrow> logger" where
  "init_logger_initial args = (if arg_daemon args \<and> \<not> arg_verbose args then NoLogger else InfoToStderr)"

definition init_logger_after_daemonize :: "BpfAgentArgs \<Rightarrow> logger \<Rightarrow> logger" where
  "init_logger_after_daemonize args l =
     (if arg_daemon args \<and> \<not> arg_verbose args then (if l = NoLogger then DebugToLog else l) else l)"


section \<open>Properties\<close>

text \<open>
  C35. Detaching: when no call fails, the process that calls \<open>daemonize\<close> exits, with its streams,
  session and directory as they were, and its child returns with standard input on \<open>/dev/null\<close>,
  standard output and error on the log file, as the leader of its own session in the configured
  directory; so exactly one of the two goes on. When the fork fails, the caller goes on to report
  the error and there is no child. The PID file, however, holds the id of the process before the
  fork, that of the parent, which exits; it is the daemon's id only if the two are equal.
\<close>

theorem daemon_detaches:
  assumes "arg_daemon args" and "\<not> arg_verbose args" and "\<And>c. os_fails os c = None"
    and "log_file config \<noteq> pid_file config"
  shows "(\<exists>p'. daemonize (os\<lparr>fork_returns := 0\<rparr>) args config p = Returned (Some (log_file config)) p'
       \<and> proc_pid p' = child_pid os \<and> session p' = child_pid os \<and> cwd p' = working_directory config
       \<and> fds p' 0 = ''/dev/null'' \<and> fds p' 1 = log_file config \<and> fds p' 2 = log_file config
       \<and> files p' (pid_file config) = Some (to_string (proc_pid p))
       \<and> (files p' (pid_file config) = Some (to_string (proc_pid p')) \<longleftrightarrow> proc_pid p = child_pid os))
    \<and> (0 < sint child \<longrightarrow> (\<exists>p'. daemonize (os\<lparr>fork_returns := child\<rparr>) args config p = Exited p'
         \<and> proc_pid p' = proc_pid p \<and> session p' = session p \<and> cwd p' = cwd p \<and> fds p' = fds p))
    \<and> (sint child < 0 \<longrightarrow> (\<exists>p'. daemonize (os\<lparr>fork_returns := child\<rparr>) args config p
         = Failed [''fork() failed: cannot daemonize process''] p'))"
  using assms
  by (simp add: daemonize_def fork_and_detach_def redirect_stdio_def create_new_session_def
      change_working_directory_def Let_def)

definition demo_process :: process where
  "demo_process = \<lparr>proc_pid = 100, fds = (\<lambda>_. ''/dev/tty''), session = 50, cwd = ''/root'', files = (\<lambda>_. None)\<rparr>"

definition demo_args :: BpfAgentArgs where
  "demo_args = \<lparr>arg_daemon = True, metrics_ip = ''0.0.0.0'', metrics_port = 9101, arg_verbose = False, config_file = None\<rparr>"

theorem daemon_detaches_witness:
  "let os = \<lparr>os_fails = (\<lambda>_. None), fork_returns = 0, child_pid = 101\<rparr>
   in (\<exists>p'. daemonize os demo_args default_config demo_process = Returned (Some ''/tmp/bpfagent.log'') p'
        \<and> proc_pid p' = 101 \<and> files p' ''/tmp/bpfagent.pid'' \<noteq> Some (to_string (101 :: u32)))
    \<and> (\<exists>p'. daemonize (os\<lparr>fork_returns := 101\<rparr>) demo_args default_config demo_process = Exited p')"
proof -
  let ?os = "\<lparr>os_fails = (\<lambda>_. None), fork_returns = 0, child_pid = 101\<rparr>"
  have "0 < sint (101 :: i32)" by simp
  then show ?thesis
    using daemon_detaches [of demo_args ?os default_config demo_process 101]
    by (auto simp: demo_args_def demo_process_def default_config_def)
qed

end
