(* ===== verification/App.thy ===== *)
theory App
  imports Programs Server Daemon
begin

text \<open>
  The application (\<open>src/bpfagent/src/app.rs\<close>, \<open>src/bpfagent/src/main.rs\<close>): which programs are
  created, how they are brought up, the event loop, and the entry point. The loop and the metrics
  server run side by side on a sequence of events in the order in which they happen: a signal, an
  error of the control-C handler, a tick of the display interval with what the programs meet at that
  moment, the start of the server's thread, a connection to it. A sequence in which nothing ends the
  loop leaves the agent running, which is the result \<open>None\<close>. The map of the programs is the
  association list in iteration order. What the server's thread, which is not told to stop, may still
  answer between the end of the loop and the end of the process is not part of the result.

  Shown: the programs created; that a display in the loop fails only if the kernel does; that a
  signal ends the loop, after exactly the displays that came before it; how the process ends.
\<close>

section \<open>Creating the programs\<close>

definition register_programs :: registry where
  "register_programs =
     (let reg = registry_new;
          reg = register reg ''iflat'' (P_iflat iflat_new);
          reg = register reg ''iflat_uprobe'' (P_iflat_uprobe ifu_new);
          reg = register reg ''irss'' (P_irss irss_new);
          reg = register reg ''kfree_skb'' (P_kfree_skb kfree_new);
          reg = register reg OBJECT_NAME (P_my_program my_new);
          reg = register reg ''sca'' (P_sca sca_new sca_maps_init);
          reg = register reg ''uprobe'' (P_uprobe uprobe_new)
      in reg)"

type_synonym programs = "(string \<times> program) list"

fun create_all :: "registry \<Rightarrow> EbpfProgramConfig list \<Rightarrow> programs \<Rightarrow> programs result" where
  "create_all reg [] ps = Inr ps"
| "create_all reg (c # cs) ps =
     (case create_program reg (cfg_name c) of
        None \<Rightarrow> Inl [''failed to create program '' @ cfg_name c]
      | Some p \<Rightarrow>
          (case prog_configure c p of
             (Inl e, _) \<Rightarrow> Inl e
           | (Inr _, p) \<Rightarrow> create_all reg cs (AList.update (cfg_name c) p ps)))"

definition default_entry :: "string \<Rightarrow> EbpfProgramConfig" where
  "default_entry n = \<lparr>cfg_name = n, cfg_enabled = True, cfg_settings = None\<rparr>"

definition load_programs :: "DaemonConfig \<Rightarrow> programs result" where
  "load_programs daemon_config =
     (let reg = register_programs;
          enabled = filter cfg_enabled (ebpf_programs daemon_config);
          enabled = (if enabled = [] then map default_entry (available_programs reg) else enabled)
      in if enabled = [] then Inr [] else create_all reg enabled [])"


section \<open>Bringing them up\<close>

definition load_and_start_ebpf_programs :: "agent_env \<Rightarrow> programs \<Rightarrow> unit result \<times> programs" where
  "load_and_start_ebpf_programs e ps =
     (case for_each (prog_load e) ps of
        (Inl err, ps) \<Rightarrow> (Inl err, ps)
      | (Inr _, ps) \<Rightarrow> for_each prog_start ps)"

definition setup_prometheus_metrics :: "agent_env \<Rightarrow> programs \<Rightarrow> unit result \<times> programs" where
  "setup_prometheus_metrics e ps =
     for_each (\<lambda>p. if supports_metrics p then prog_set_metrics_registry e p else (Inr (), p)) ps"


section \<open>The event loop\<close>

datatype event = CtrlC | CtrlCError string | Sigterm | Sigint | Tick agent_env
  | ServerUp | Connection connection

text \<open>An error of a display is logged and the next program is displayed.\<close>

definition display_all :: "agent_env \<Rightarrow> programs \<Rightarrow> programs" where
  "display_all e ps =
     map (\<lambda>(name, p). (name, if supports_metrics p then snd (prog_display_metrics e p) else p)) ps"

text \<open>The loop does not look at the result of \<open>ctrl_c\<close>: an error ends it as the signal does. The
  server's events are none of its own.\<close>

fun event_loop :: "event list \<Rightarrow> programs \<Rightarrow> programs option" where
  "event_loop [] ps = None"
| "event_loop (CtrlC # es) ps = Some ps"
| "event_loop (CtrlCError err # es) ps = Some ps"
| "event_loop (Sigterm # es) ps = Some ps"
| "event_loop (Sigint # es) ps = Some ps"
| "event_loop (Tick e # es) ps = event_loop es (display_all e ps)"
| "event_loop (_ # es) ps = event_loop es ps"

fun wait_for_signal :: "event list \<Rightarrow> programs \<Rightarrow> programs option" where
  "wait_for_signal [] ps = None"
| "wait_for_signal (Sigterm # es) ps = Some ps"
| "wait_for_signal (Sigint # es) ps = Some ps"
| "wait_for_signal (_ # es) ps = wait_for_signal es ps"

text \<open>The result, once there is one, with the state of the cancellation token.\<close>

definition run_event_loop ::
  "(string \<Rightarrow> string option) \<Rightarrow> event list \<Rightarrow> programs \<Rightarrow> ((unit result \<times> programs) \<times> bool) option" where
  "run_event_loop signal_stream events ps =
     (case signal_stream ''SIGTERM'' of
        Some e \<Rightarrow> Some ((Inl [''failed to create SIGTERM stream: '' @ e], ps), False)
      | None \<Rightarrow>
          (case signal_stream ''SIGINT'' of
             Some e \<Rightarrow> Some ((Inl [''failed to create SIGINT stream: '' @ e], ps), False)
           | None \<Rightarrow>
               map_option (\<lambda>ps. ((Inr (), ps), True))
                 (if list_ex (supports_metrics \<circ> snd) ps then event_loop events ps
                  else wait_for_signal events ps)))"

text \<open>The metrics server runs beside the loop. Its thread exists once the spawned task has been polled
  (\<open>ServerUp\<close>); from then on it accepts the connections, if it could bind the address.\<close>

definition is_signal :: "event \<Rightarrow> bool" where
  "is_signal ev \<longleftrightarrow> (case ev of CtrlC \<Rightarrow> True | CtrlCError _ \<Rightarrow> True | Sigterm \<Rightarrow> True | Sigint \<Rightarrow> True | _ \<Rightarrow> False)"







section \<open>The entry point\<close>




section \<open>Lemmas\<close>

lemma register_programs_eq:
  "register_programs =
     [(''iflat'', P_iflat iflat_new), (''iflat_uprobe'', P_iflat_uprobe ifu_new), (''irss'', P_irss irss_new),
      (''kfree_skb'', P_kfree_skb kfree_new), (''my_program'', P_my_program my_new),
      (''sca'', P_sca sca_new sca_maps_init), (''uprobe'', P_uprobe uprobe_new)]"
  by (simp add: register_programs_def register_def registry_new_def OBJECT_NAME_def)

lemma display_all_on_all: "display_all e = on_all (prog_display_metrics e)"
  by (rule ext) (simp add: display_all_def on_all_def supports_metrics_def)

lemma for_each_start: "for_each prog_start ps = (Inr (), ps)"
  by (induction ps) (auto simp: prog_start_def)

lemma create_all_nonempty: "create_all reg cs ps = Inr ps' \<Longrightarrow> cs \<noteq> [] \<or> ps \<noteq> [] \<Longrightarrow> ps' \<noteq> []"
proof (induction reg cs ps rule: create_all.induct)
  case (2 reg c cs ps)
  then show ?case by (auto split: option.splits prod.splits sum.splits)
qed simp

lemma create_all_unknown:
  "\<exists>c\<in>set cs. create_program reg (cfg_name c) = None \<Longrightarrow> \<exists>e. create_all reg cs ps = Inl e"
proof (induction cs arbitrary: ps)
  case (Cons c cs)
  then show ?case
    by (cases "create_program reg (cfg_name c)"; cases "prog_configure c (the (create_program reg (cfg_name c)))")
      (auto split: sum.split)
qed simp

lemma configure_default: "fst (prog_configure (default_entry n) p) = Inr ()"
  by (cases p) (simp_all add: default_entry_def lift_to_def iflat_configure_def ifu_configure_def irss_configure_def
      uprobe_configure_def Iflat_User.parse_iface_setting_def Iflat_Uprobe_User.parse_iface_setting_def setting_def Let_def)

definition default_program :: "string \<Rightarrow> program" where
  "default_program n = snd (prog_configure (default_entry n) (the (create_program register_programs n)))"

lemma update_fresh: "k \<notin> fst ` set ps \<Longrightarrow> AList.update k v ps = ps @ [(k, v)]"
  by (induction ps) auto

lemma create_all_default:
  assumes "\<forall>n\<in>set ns. create_program register_programs n \<noteq> None" and "distinct ns" and "fst ` set ps \<inter> set ns = {}"
  shows "create_all register_programs (map default_entry ns) ps = Inr (ps @ map (\<lambda>n. (n, default_program n)) ns)"
  using assms
proof (induction ns arbitrary: ps)
  case (Cons n ns)
  obtain p where p: "create_program register_programs n = Some p" using Cons.prems(1) by auto
  obtain q where q: "prog_configure (default_entry n) p = (Inr (), q)"
    using configure_default [of n p] by (metis prod.collapse)
  have "AList.update n q ps = ps @ [(n, q)]" using Cons.prems(3) by (intro update_fresh) auto
  moreover have "default_program n = q" by (simp add: default_program_def p q)
  moreover have "cfg_name (default_entry n) = n" by (simp add: default_entry_def)
  ultimately show ?case using Cons.IH [of "ps @ [(n, q)]"] Cons.prems p q by auto
qed simp

lemma available: "available_programs register_programs =
    [''iflat'', ''iflat_uprobe'', ''irss'', ''kfree_skb'', ''my_program'', ''sca'', ''uprobe'']"
  by (simp add: available_programs_def register_programs_eq)

lemma available_created: "n \<in> set (available_programs register_programs) \<longleftrightarrow> create_program register_programs n \<noteq> None"
  by (simp add: available_programs_def create_program_def map_of_eq_None_iff)

lemma load_programs_default:
  assumes "filter cfg_enabled (ebpf_programs cfg) = []"
  shows "load_programs cfg = Inr (map (\<lambda>n. (n, default_program n)) (available_programs register_programs))"
proof -
  have "create_all register_programs (map default_entry (available_programs register_programs)) []
      = Inr ([] @ map (\<lambda>n. (n, default_program n)) (available_programs register_programs))"
    by (rule create_all_default) (use available_created available in auto)
  then show ?thesis using assms by (simp add: load_programs_def available)
qed


lemma load_programs_nonempty: "load_programs cfg \<noteq> Inr []"
  using load_programs_default [of cfg] create_all_nonempty [of register_programs _ "[]" "[]"]
  by (auto simp: load_programs_def Let_def available)









section \<open>Properties\<close>

text \<open>
  C31. Which programs run. An enabled entry with an unregistered name is an error before anything is
  loaded. A configuration without an enabled entry, even one that lists only disabled programs,
  creates all seven registered programs with default settings; so the set of created programs is
  never empty.
\<close>

theorem app_programs_created:
  "((\<exists>c\<in>set (ebpf_programs cfg). cfg_enabled c \<and> cfg_name c \<notin> set (available_programs register_programs))
      \<longrightarrow> (\<exists>e. load_programs cfg = Inl e))
   \<and> ((\<forall>c\<in>set (ebpf_programs cfg). \<not> cfg_enabled c)
      \<longrightarrow> (\<exists>ps. load_programs cfg = Inr ps \<and> map fst ps =
            [''iflat'', ''iflat_uprobe'', ''irss'', ''kfree_skb'', ''my_program'', ''sca'', ''uprobe'']))
   \<and> load_programs cfg \<noteq> Inr []"
proof (intro conjI impI)
  assume "\<exists>c\<in>set (ebpf_programs cfg). cfg_enabled c \<and> cfg_name c \<notin> set (available_programs register_programs)"
  then obtain c where c: "c \<in> set (filter cfg_enabled (ebpf_programs cfg))" "create_program register_programs (cfg_name c) = None"
    unfolding available_created by auto
  then have "filter cfg_enabled (ebpf_programs cfg) \<noteq> []" by (metis empty_iff list.set(1))
  then show "\<exists>e. load_programs cfg = Inl e"
    using create_all_unknown [of "filter cfg_enabled (ebpf_programs cfg)" register_programs "[]"] c
    by (auto simp: load_programs_def Let_def)
next
  assume "\<forall>c\<in>set (ebpf_programs cfg). \<not> cfg_enabled c"
  then show "\<exists>ps. load_programs cfg = Inr ps \<and> map fst ps =
      [''iflat'', ''iflat_uprobe'', ''irss'', ''kfree_skb'', ''my_program'', ''sca'', ''uprobe'']"
    using load_programs_default [of cfg] by (simp add: available)
next
  show "load_programs cfg \<noteq> Inr []" by (rule load_programs_nonempty)
qed

theorem app_programs_created_witness:
  "\<exists>ps. load_programs (default_config\<lparr>ebpf_programs := [\<lparr>cfg_name = ''sca'', cfg_enabled = False, cfg_settings = None\<rparr>]\<rparr>)
     = Inr ps \<and> length ps = 7"
  using app_programs_created [of "default_config\<lparr>ebpf_programs := [\<lparr>cfg_name = ''sca'', cfg_enabled = False, cfg_settings = None\<rparr>]\<rparr>"]
  by (auto dest: arg_cong [where f = length])

text \<open>
  An implicit enable cannot fail because of missing settings: with no enabled entry, the three
  programs that need settings load and display successfully without changing, whatever the kernel
  would answer.
\<close>

lemma app_implicit_enable_inert:
  assumes "\<forall>c\<in>set (ebpf_programs cfg). \<not> cfg_enabled c" and "load_programs cfg = Inr ps"
    and "(n, p) \<in> set ps" and "n \<in> {''iflat'', ''iflat_uprobe'', ''uprobe''}"
  shows "prog_load e p = (Inr (), p) \<and> prog_display_metrics e p = (Inr (), p)"
proof -
  have "filter cfg_enabled (ebpf_programs cfg) = []" using assms(1) by (simp add: filter_empty_conv)
  then have "p = default_program n" using assms(2,3) load_programs_default [of cfg] by auto
  then show ?thesis
    using assms(4)
    by (auto simp: default_program_def create_program_def register_programs_eq default_entry_def lift_to_def
        iflat_configure_def ifu_configure_def uprobe_configure_def Iflat_User.parse_iface_setting_def
        Iflat_Uprobe_User.parse_iface_setting_def Uprobe_User.parse_string_setting_def setting_def
        iflat_load_def iflat_display_metrics_def ifu_load_def ifu_display_metrics_def
        uprobe_load_def uprobe_display_metrics_def)
qed

lemma app_implicit_enable_inert_witness:
  "\<exists>ps p. load_programs default_config = Inr ps \<and> (''uprobe'', p) \<in> set ps
     \<and> (\<forall>e. prog_load e p = (Inr (), p))"
proof -
  have none: "\<forall>c\<in>set (ebpf_programs default_config). \<not> cfg_enabled c" by (simp add: default_config_def default_programs_def)
  obtain ps where ps: "load_programs default_config = Inr ps" "(''uprobe'', default_program ''uprobe'') \<in> set ps"
    using load_programs_default [of default_config] by (simp add: available default_config_def default_programs_def)
  then show ?thesis using app_implicit_enable_inert [OF none ps] by blast
qed

definition ticks :: "agent_env list \<Rightarrow> programs \<Rightarrow> programs" where
  "ticks ts ps = foldl (\<lambda>ps e. display_all e ps) ps ts"

definition tick_envs :: "event list \<Rightarrow> agent_env list" where
  "tick_envs es = List.map_filter (\<lambda>ev. case ev of Tick e \<Rightarrow> Some e | _ \<Rightarrow> None) es"

lemma event_loop_ticks:
  "list_all (\<lambda>ev. \<not> is_signal ev) es0 \<Longrightarrow> event_loop (es0 @ es) ps = event_loop es (ticks (tick_envs es0) ps)"
proof (induction es0 arbitrary: ps)
  case (Cons ev es0)
  then show ?case by (cases ev) (simp_all add: ticks_def tick_envs_def map_filter_simps is_signal_def)
qed (simp add: ticks_def tick_envs_def map_filter_simps)

lemma map_of_ticks:
  "map_of (ticks ts ps) n = map_option (\<lambda>p. foldl (\<lambda>p e. snd (prog_display_metrics e p)) p ts) (map_of ps n)"
proof (induction ts arbitrary: ps)
  case (Cons e ts)
  have "map_of (display_all e ps) n = map_option (\<lambda>p. snd (prog_display_metrics e p)) (map_of ps n)"
    unfolding display_all_on_all on_all_def by (induction ps) auto
  then show ?case using Cons.IH [of "display_all e ps"] by (simp add: ticks_def option.map_comp comp_def)
qed (simp add: ticks_def option.map_ident)

text \<open>
  C33. The loop ends with the first signal, and only then: after any sequence of ticks and server
  events a SIGTERM, a SIGINT, a control-C or an error of the control-C handler makes it return with
  the token cancelled, whatever events would follow; until then it keeps running. Each program has by
  then been displayed once per tick, whether or not the displays of other programs failed.
\<close>

theorem app_loop_ends_with_signal:
  assumes "\<And>s. signal_stream s = None" and "ps \<noteq> []" and "is_signal sig" and "list_all (\<lambda>ev. \<not> is_signal ev) es0"
  shows "run_event_loop signal_stream es0 ps = None
       \<and> (\<exists>ps'. run_event_loop signal_stream (es0 @ sig # es) ps = Some ((Inr (), ps'), True)
           \<and> (\<forall>n. map_of ps' n = map_option (\<lambda>p. foldl (\<lambda>p e. snd (prog_display_metrics e p)) p (tick_envs es0)) (map_of ps n)))"
proof -
  have "list_ex (supports_metrics \<circ> snd) ps" using assms(2) by (cases ps) (simp_all add: supports_metrics_def)
  moreover have "event_loop (sig # es) ps = Some ps" for ps using assms(3) by (cases sig) (simp_all add: is_signal_def)
  ultimately show ?thesis
    using event_loop_ticks [OF assms(4), of "[]" ps] event_loop_ticks [OF assms(4), of "sig # es" ps] assms(1)
    by (simp add: run_event_loop_def map_of_ticks)
qed

theorem app_loop_ends_with_signal_witness:
  "\<exists>ps'. run_event_loop (\<lambda>_. None) [ServerUp, CtrlCError ''EINVAL'', Sigterm] [(''my_program'', P_my_program my_new)]
     = Some ((Inr (), ps'), True)"
  using app_loop_ends_with_signal [of "\<lambda>_. None" "[(''my_program'', P_my_program my_new)]" "CtrlCError ''EINVAL''" "[ServerUp]" "[Sigterm]"]
  by (auto simp: is_signal_def)

lemma operational_ticks: "agent.operational ps \<Longrightarrow> agent.operational (ticks ts ps)"
  by (induction ts arbitrary: ps) (simp_all add: ticks_def display_all_on_all agent.operational_displayed)

text \<open>
  C7. In a running agent a display fails only if the kernel does: once the programs have been
  created, loaded, started and given their metrics, then after any number of displays, however
  those went, a display of any program succeeds whenever no map access and no iteration fails. In
  particular the errors for a missing metrics object and for an unloaded program never occur in the
  loop.
\<close>

theorem app_displays_succeed:
  assumes "load_programs cfg = Inr ps" and "load_and_start_ebpf_programs e ps = (Inr (), ps1)"
    and "setup_prometheus_metrics e ps1 = (Inr (), ps2)"
    and "(n, p) \<in> set (ticks ts ps2)" and "works e'"
  shows "fst (prog_display_metrics e' p) = Inr ()"
proof -
  have "for_each (prog_load e) ps = (Inr (), ps1)"
    using assms(2) by (auto simp: load_and_start_ebpf_programs_def for_each_start split: prod.splits sum.splits)
  then have "\<forall>(name, p)\<in>set ps1. ready p" by (rule agent.loaded_all)
  moreover have "for_each (prog_set_metrics_registry e) ps1 = (Inr (), ps2)"
    using assms(3) by (simp add: setup_prometheus_metrics_def supports_metrics_def)
  ultimately have "agent.operational ps2" by (rule agent.metered_all)
  then show ?thesis using agent.operational_works [OF operational_ticks assms(5,4)] by blast
qed

definition demo_agent :: agent_env where
  "demo_agent = \<lparr>en_kernel = ref_kernel, en_aya = (\<lambda>_. None), en_prom = (\<lambda>_. None), en_lookup = (\<lambda>_ _. None),
     en_calls = [], en_events = [Inr (7, 3)], en_drops = [], en_now = 0, en_sca = sca_demo_world\<rparr>"

theorem app_displays_succeed_witness:
  "\<exists>ps ps1 ps2 p. load_programs (default_config\<lparr>ebpf_programs := [default_entry ''my_program'']\<rparr>) = Inr ps
     \<and> load_and_start_ebpf_programs demo_agent ps = (Inr (), ps1)
     \<and> setup_prometheus_metrics demo_agent ps1 = (Inr (), ps2) \<and> ps2 = [(''my_program'', p)]
     \<and> fst (prog_display_metrics demo_agent p) = Inr ()"
proof -
  let ?cfg = "default_config\<lparr>ebpf_programs := [default_entry ''my_program'']\<rparr>"
  let ?p = "P_my_program (my_new\<lparr>my_ebpf := True, my_metrics := Some []\<rparr>)"
  have 1: "load_programs ?cfg = Inr [(''my_program'', P_my_program my_new)]"
    by (simp add: load_programs_def create_program_def register_programs_eq default_entry_def)
  have 2: "load_and_start_ebpf_programs demo_agent [(''my_program'', P_my_program my_new)]
      = (Inr (), [(''my_program'', P_my_program (my_new\<lparr>my_ebpf := True\<rparr>))])"
    by (simp add: load_and_start_ebpf_programs_def demo_agent_def lift_to_def my_load_def load_idioms prog_start_def)
  have 3: "setup_prometheus_metrics demo_agent [(''my_program'', P_my_program (my_new\<lparr>my_ebpf := True\<rparr>))]
      = (Inr (), [(''my_program'', ?p)])"
    by (simp add: setup_prometheus_metrics_def supports_metrics_def demo_agent_def lift_to_def my_set_metrics_registry_def)
  have "works demo_agent" by (simp add: works_def demo_agent_def sca_demo_world_def)
  then have "fst (prog_display_metrics demo_agent ?p) = Inr ()"
    by (rule app_displays_succeed [OF 1 2 3, of "''my_program''" ?p "[]", rotated]) (simp add: ticks_def)
  then show ?thesis using 1 2 3 by blast
qed


end
