(* ===== verification/App_Host.thy ===== *)
theory App_Host
  imports App
begin

text \<open>
  What the agent does to its process beside the programs (\<open>src/bpfagent/src/app.rs\<close>): the limit on
  locked memory, raised before the programs are loaded, and the task that drains the log buffer of
  each loaded program. Neither can fail the run, and the result of neither reaches the programs, so
  \<open>App.run\<close> is stated without them.

  Shown: after the programs are loaded, every one that its settings did not switch off and that the
  log library accepts has a log task; a task drains its buffer once for every time it is readable
  and goes on after an error.
\<close>

section \<open>Locked memory\<close>

record rlimit =
  rlim_cur :: u64
  rlim_max :: u64

definition RLIM_INFINITY :: u64 where "RLIM_INFINITY = -1"

text \<open>\<open>setrlimit\<close> gives 0 or fails and changes nothing; a failure is only logged.\<close>

definition bump_memlock_rlimit :: "(rlimit \<Rightarrow> i32) \<Rightarrow> rlimit \<Rightarrow> rlimit" where
  "bump_memlock_rlimit setrlimit cur =
     (let rlim = \<lparr>rlim_cur = RLIM_INFINITY, rlim_max = RLIM_INFINITY\<rparr>; ret = setrlimit rlim
      in if ret \<noteq> 0 then cur else rlim)"

lemma bump_memlock_raises:
  "rlim_cur cur \<le> rlim_cur (bump_memlock_rlimit setrlimit cur)
     \<and> rlim_max cur \<le> rlim_max (bump_memlock_rlimit setrlimit cur)"
  by (simp add: bump_memlock_rlimit_def Let_def RLIM_INFINITY_def word_order.extremum)


section \<open>Log tasks\<close>

fun ebpf_mut :: "program \<Rightarrow> bool" where
  "ebpf_mut (P_iflat p) = iflat_ebpf p"
| "ebpf_mut (P_iflat_uprobe p) = ifu_ebpf p"
| "ebpf_mut (P_irss p) = irss_ebpf p"
| "ebpf_mut (P_kfree_skb p) = kf_ebpf p"
| "ebpf_mut (P_my_program p) = my_ebpf p"
| "ebpf_mut (P_sca p s) = sca_ebpf p"
| "ebpf_mut (P_uprobe p) = up_ebpf p"

text \<open>The log library: whether a logger can be made for a program and watched for input, and the
  results of waiting until it is readable.\<close>

record log_host =
  logger_init :: "string \<Rightarrow> string option"
  with_interest :: "string \<Rightarrow> string option"
  readable :: "string \<Rightarrow> string option list"

datatype log_action = Flush | ClearReady | SleepMs nat

fun drain :: "string option list \<Rightarrow> log_action list" where
  "drain [] = []"
| "drain (None # rs) = Flush # ClearReady # drain rs"
| "drain (Some e # rs) = SleepMs 100 # drain rs"

text \<open>The task that is spawned, if one is: what it does as far as it is observed.\<close>

definition setup_ebpf_logger :: "log_host \<Rightarrow> string \<Rightarrow> program \<Rightarrow> log_action list option" where
  "setup_ebpf_logger h name p =
     (if ebpf_mut p
      then (case logger_init h name of
              Some e \<Rightarrow> None
            | None \<Rightarrow> Some (case with_interest h name of Some e \<Rightarrow> [] | None \<Rightarrow> drain (readable h name)))
      else None)"

definition setup_ebpf_loggers :: "log_host \<Rightarrow> programs \<Rightarrow> (string \<times> log_action list) list" where
  "setup_ebpf_loggers h ps =
     concat (map (\<lambda>(name, p). case setup_ebpf_logger h name p of None \<Rightarrow> [] | Some t \<Rightarrow> [(name, t)]) ps)"

lemma drain_flushes:
  "length (filter (\<lambda>a. a = Flush) (drain rs)) = length (filter (\<lambda>r. r = None) rs)"
  by (induction rs rule: drain.induct) auto

fun switched_off :: "program \<Rightarrow> bool" where
  "switched_off (P_iflat p) = (\<not> iflat_enabled p)"
| "switched_off (P_iflat_uprobe p) = (\<not> ifu_enabled p)"
| "switched_off (P_uprobe p) = (\<not> up_enabled p)"
| "switched_off _ = False"

lemma ready_logs: "ready p \<Longrightarrow> \<not> switched_off p \<Longrightarrow> ebpf_mut p"
  by (cases p) auto

text \<open>After the programs are loaded every one that is not switched off has its log drained.\<close>

lemma loaded_programs_log:
  assumes "for_each (prog_load e) ps = (Inr (), ps')" and "(name, p) \<in> set ps'" and "\<not> switched_off p"
    and "logger_init h name = None" and "with_interest h name = None"
  shows "(name, drain (readable h name)) \<in> set (setup_ebpf_loggers h ps')"
proof -
  have "ebpf_mut p" using agent.loaded_all [OF assms(1)] assms(2,3) ready_logs by blast
  then have "setup_ebpf_logger h name p = Some (drain (readable h name))"
    using assms(4,5) by (simp add: setup_ebpf_logger_def)
  then show ?thesis using assms(2) by (force simp: setup_ebpf_loggers_def)
qed

end
