(* ===== verification/Build.thy ===== *)
theory Build
  imports App
begin

text \<open>
  The build script of the agent (\<open>src/bpfagent/build.rs\<close>): it has the eBPF crates of the workspace
  built and compiles every C source below \<open>ebpf/\<close>, both into \<open>OUT_DIR\<close>, from where each program
  handler embeds its object. \<open>OUT_DIR\<close> is a map from file names to objects. A path is the list of
  its components, as cargo gives them: absolute and without \<open>.\<close> or \<open>..\<close>. What \<open>cargo metadata\<close>,
  \<open>aya_build\<close>, the file system and \<open>clang\<close> do are fields of \<open>build_env\<close>; the lines printed for cargo are
  left out.

  Shown: a build that succeeds has compiled every C source and provides the object of every program
  the agent registers; a C source replaces an earlier object of its name.
\<close>

type_synonym file_path = "string list"

datatype object = RustObject string | CObject file_path

type_synonym out_dir = "string \<rightharpoonup> object"

record package =
  pkg_name :: string
  manifest_path :: file_path

datatype clang_status = NotRun string | Status bool

record build_env =
  cargo_metadata :: "package list result"
  build_ebpf :: "(string \<times> file_path) list \<Rightarrow> out_dir \<Rightarrow> out_dir result"
  env_var :: "string \<Rightarrow> file_path option"
  is_dir :: "file_path \<Rightarrow> bool"
  read_dir :: "file_path \<Rightarrow> string + (string + string) list"
  clang :: "file_path \<Rightarrow> clang_status"


section \<open>Paths\<close>

definition parent :: "file_path \<Rightarrow> file_path option" where
  "parent p = (if p = [] then None else Some (butlast p))"

text \<open>\<open>OsStr::to_str\<close>, and the division of a file name at its last dot; a name whose only dot is its
  first character has no extension.\<close>

definition to_str :: "string \<Rightarrow> string option" where
  "to_str s = (if from_utf8_lossy s = s then Some s else None)"

definition split_name :: "string \<Rightarrow> string \<times> string option" where
  "split_name n =
     (let ext = rev (takeWhile (\<lambda>c. c \<noteq> CHR ''.'') (rev n));
          rest = rev (dropWhile (\<lambda>c. c \<noteq> CHR ''.'') (rev n))
      in if length rest \<le> 1 then (n, None) else (butlast rest, Some ext))"

definition file_name :: "file_path \<Rightarrow> string option" where
  "file_name p = (if p = [] then None else Some (last p))"

definition extension :: "file_path \<Rightarrow> string option" where
  "extension p = Option.bind (file_name p) (\<lambda>n. snd (split_name n))"

definition file_stem :: "file_path \<Rightarrow> string option" where
  "file_stem p = map_option (\<lambda>n. fst (split_name n)) (file_name p)"

definition c_source :: "file_path \<Rightarrow> bool" where
  "c_source p \<longleftrightarrow> Option.bind (extension p) to_str = Some ''c''"


section \<open>C programs\<close>

text \<open>The two loops over directories. An entry that cannot be read ends the build.\<close>

fun plugin_files :: "file_path \<Rightarrow> (string + string) list \<Rightarrow> file_path list result" where
  "plugin_files dir [] = Inr []"
| "plugin_files dir (Inl e # fs) = Inl [e]"
| "plugin_files dir (Inr n # fs) =
     (case plugin_files dir fs of
        Inl e \<Rightarrow> Inl e
      | Inr sources \<Rightarrow> Inr (if c_source (dir @ [n]) then (dir @ [n]) # sources else sources))"

fun plugin_sources :: "build_env \<Rightarrow> file_path \<Rightarrow> (string + string) list \<Rightarrow> file_path list result" where
  "plugin_sources B dir [] = Inr []"
| "plugin_sources B dir (Inl e # ds) = Inl [e]"
| "plugin_sources B dir (Inr n # ds) =
     (if \<not> is_dir B (dir @ [n]) then plugin_sources B dir ds
      else
        (case read_dir B (dir @ [n]) of
           Inl e \<Rightarrow> Inl [e]
         | Inr fs \<Rightarrow>
             (case plugin_files (dir @ [n]) fs of
                Inl e \<Rightarrow> Inl e
              | Inr sources \<Rightarrow>
                  (case plugin_sources B dir ds of
                     Inl e \<Rightarrow> Inl e
                   | Inr rest \<Rightarrow> Inr (sources @ rest)))))"

definition find_sources :: "build_env \<Rightarrow> file_path \<Rightarrow> file_path list result" where
  "find_sources B ebpf_dir =
     (if is_dir B ebpf_dir
      then (case read_dir B ebpf_dir of Inl e \<Rightarrow> Inl [e] | Inr ds \<Rightarrow> plugin_sources B ebpf_dir ds)
      else Inr [])"

definition show_path :: "file_path \<Rightarrow> string" where
  "show_path p = concat (map (\<lambda>n. CHR ''/'' # from_utf8_lossy n) p)"

fun compile_all :: "build_env \<Rightarrow> file_path list \<Rightarrow> out_dir \<Rightarrow> out_dir result" where
  "compile_all B [] out = Inr out"
| "compile_all B (src # sources) out =
     (case Option.bind (file_stem src) to_str of
        None \<Rightarrow> Inl [''bad C eBPF file name: '' @ show_path src]
      | Some stem \<Rightarrow>
          (case clang B src of
             NotRun e \<Rightarrow> Inl [''failed to run clang for '' @ show_path src, e]
           | Status success \<Rightarrow>
               if \<not> success then Inl [''clang failed for '' @ show_path src]
               else compile_all B sources (out(stem \<mapsto> CObject src))))"

definition build_c_ebpf_programs :: "build_env \<Rightarrow> out_dir \<Rightarrow> out_dir result" where
  "build_c_ebpf_programs B out =
     (case env_var B ''CARGO_MANIFEST_DIR'' of
        None \<Rightarrow> Inl [''environment variable not found'']
      | Some manifest_dir \<Rightarrow>
          (case parent manifest_dir of
             None \<Rightarrow> Inl [''no parent for package manifest dir'']
           | Some dir \<Rightarrow>
               (case find_sources B (dir @ [''ebpf'']) of
                  Inl e \<Rightarrow> Inl e
                | Inr sources \<Rightarrow>
                    if sources = [] then Inr out
                    else
                      (case env_var B ''OUT_DIR'' of
                         None \<Rightarrow> Inl [''environment variable not found'']
                       | Some _ \<Rightarrow> compile_all B sources out))))"


section \<open>Entry point\<close>

definition EBPF_PACKAGES :: "string list" where
  "EBPF_PACKAGES = [''iflat-ebpf'', ''iflat_uprobe-ebpf'', ''irss-ebpf'', ''kfree_skb-ebpf'', ''my_program-ebpf'',
     ''sca-ebpf'', ''uprobe-ebpf'']"

fun select_packages :: "package list \<Rightarrow> string list \<Rightarrow> file_path list \<Rightarrow> (string list \<times> file_path list) result" where
  "select_packages [] ns root_dirs = Inr (ns, root_dirs)"
| "select_packages (p # ps) ns root_dirs =
     (if pkg_name p \<in> set EBPF_PACKAGES
      then (case parent (manifest_path p) of
              None \<Rightarrow> Inl [''no parent for manifest'']
            | Some root_dir \<Rightarrow> select_packages ps (ns @ [pkg_name p]) (root_dirs @ [root_dir]))
      else select_packages ps ns root_dirs)"

definition main :: "build_env \<Rightarrow> out_dir \<Rightarrow> out_dir result" where
  "main B out =
     (case cargo_metadata B of
        Inl e \<Rightarrow> Inl (''MetadataCommand::exec'' # e)
      | Inr packages \<Rightarrow>
          (case select_packages packages [] [] of
             Inl e \<Rightarrow> Inl e
           | Inr (ns, root_dirs) \<Rightarrow>
               (let ebpf_packages = zip ns root_dirs
                in if ebpf_packages = [] then Inl [''No eBPF packages found'']
                   else (case build_ebpf B ebpf_packages out of
                           Inl e \<Rightarrow> Inl e
                         | Inr out \<Rightarrow> build_c_ebpf_programs B out))))"


section \<open>What a successful build did\<close>

lemma select_packages_ok:
  "select_packages ps ns root_dirs = Inr (ns', root_dirs') \<Longrightarrow>
     ns' = ns @ filter (\<lambda>n. n \<in> set EBPF_PACKAGES) (map pkg_name ps)
     \<and> (length ns = length root_dirs \<longrightarrow> length ns' = length root_dirs')"
  by (induction ps arbitrary: ns root_dirs) (fastforce split: if_splits option.splits)+

lemma plugin_files_ok:
  "plugin_files dir fs = Inr sources \<Longrightarrow>
     set sources = {dir @ [n] | n. Inr n \<in> set fs \<and> c_source (dir @ [n])}"
  by (induction dir fs arbitrary: sources rule: plugin_files.induct) (auto split: sum.splits if_splits)

lemma plugin_sources_ok:
  "plugin_sources B dir ds = Inr sources \<Longrightarrow>
     set sources = {dir @ [d, n] | d n fs. Inr d \<in> set ds \<and> is_dir B (dir @ [d]) \<and> read_dir B (dir @ [d]) = Inr fs
       \<and> Inr n \<in> set fs \<and> c_source (dir @ [d, n])}"
proof (induction B dir ds arbitrary: sources rule: plugin_sources.induct)
  case (3 B dir n ds)
  show ?case
  proof (cases "is_dir B (dir @ [n])")
    case False
    then show ?thesis using "3.IH"(1) "3.prems" by auto
  next
    case True
    then obtain fs xs ys where fs: "read_dir B (dir @ [n]) = Inr fs" "plugin_files (dir @ [n]) fs = Inr xs"
      and ys: "plugin_sources B dir ds = Inr ys" and sources: "sources = xs @ ys"
      using "3.prems" by (auto split: sum.splits)
    have xs: "set xs = {dir @ [n, m] | m. Inr m \<in> set fs \<and> c_source (dir @ [n, m])}"
      using plugin_files_ok [OF fs(2)] by simp
    have "set ys = {dir @ [d, m] | d m fs. Inr d \<in> set ds \<and> is_dir B (dir @ [d]) \<and> read_dir B (dir @ [d]) = Inr fs
       \<and> Inr m \<in> set fs \<and> c_source (dir @ [d, m])}"
      using "3.IH"(2) True fs ys by simp
    then show ?thesis unfolding sources set_append xs using True fs(1) by auto
  qed
qed simp_all

text \<open>What is in \<open>OUT_DIR\<close> afterwards: under a stem, the last source that has it.\<close>

definition stem :: "file_path \<Rightarrow> string" where
  "stem p = fst (split_name (last p))"

lemma compile_all_ok:
  "compile_all B sources out = Inr out' \<Longrightarrow>
     out' n = (case find (\<lambda>p. stem p = n) (rev sources) of None \<Rightarrow> out n | Some p \<Rightarrow> Some (CObject p))
     \<and> (\<forall>p\<in>set sources. clang B p = Status True)"
proof (induction B sources out rule: compile_all.induct)
  case (2 B src sources out)
  then obtain st where st: "Option.bind (file_stem src) to_str = Some st" and clang: "clang B src = Status True"
    and rest: "compile_all B sources (out(st \<mapsto> CObject src)) = Inr out'"
    by (auto split: option.splits clang_status.splits if_splits)
  have "st = stem src"
    using st by (auto simp: file_stem_def file_name_def stem_def to_str_def split: if_splits)
  moreover have "find P (xs @ [x]) = (case find P xs of None \<Rightarrow> if P x then Some x else None | Some y \<Rightarrow> Some y)"
    for P and xs :: "file_path list" and x by (induction xs) auto
  ultimately show ?case using "2.IH" [OF st clang _ rest] clang by (auto split: option.splits)
qed simp

lemma build_c_ok:
  assumes "build_c_ebpf_programs B out = Inr out'"
  shows "\<exists>dir sources. env_var B ''CARGO_MANIFEST_DIR'' = Some dir \<and> dir \<noteq> []
    \<and> find_sources B (butlast dir @ [''ebpf'']) = Inr sources \<and> compile_all B sources out = Inr out'"
  using assms
  by (auto simp: build_c_ebpf_programs_def parent_def split: option.splits sum.splits if_splits)

lemma find_rev_stem:
  assumes "p \<in> set sources"
  shows "\<exists>q\<in>set sources. find (\<lambda>p'. stem p' = stem p) (rev sources) = Some q \<and> stem q = stem p"
proof (cases "find (\<lambda>p'. stem p' = stem p) (rev sources)")
  case None
  then show ?thesis using assms by (auto simp: find_None_iff)
next
  case (Some q)
  then show ?thesis by (metis (mono_tags, lifting) find_Some_iff nth_mem set_rev)
qed

lemma compile_all_keeps: "compile_all B sources out = Inr out' \<Longrightarrow> out n \<noteq> None \<Longrightarrow> out' n \<noteq> None"
  using compile_all_ok [of B sources out out' n] by (auto split: option.splits)

text \<open>Sources of the same name in two plugins share one object, that of the later.\<close>

lemma same_stem_replaced:
  assumes "compile_all B (before @ [p, q]) out = Inr out'" and "stem p = stem q"
  shows "out' (stem p) = Some (CObject q)"
  using compile_all_ok [OF assms(1), of "stem p"] assms(2) by simp

lemma main_ok:
  assumes "main B out = Inr out'" and "cargo_metadata B = Inr packages"
  shows "\<exists>ns root_dirs out1. build_ebpf B (zip ns root_dirs) out = Inr out1 \<and> length ns = length root_dirs
    \<and> ns = filter (\<lambda>n. n \<in> set EBPF_PACKAGES) (map pkg_name packages) \<and> ns \<noteq> []
    \<and> build_c_ebpf_programs B out1 = Inr out'"
proof -
  obtain ns root_dirs out1 where sel: "select_packages packages [] [] = Inr (ns, root_dirs)"
    and rest: "zip ns root_dirs \<noteq> []" "build_ebpf B (zip ns root_dirs) out = Inr out1"
      "build_c_ebpf_programs B out1 = Inr out'"
    using assms by (auto simp: main_def Let_def split: sum.splits if_splits)
  then show ?thesis using select_packages_ok [OF sel] by (intro exI [of _ ns] exI [of _ root_dirs] exI [of _ out1]) auto
qed

text \<open>The documented effect of \<open>aya_build::build_ebpf\<close>: it fails or leaves the binaries of every package
  in \<open>OUT_DIR\<close>; \<open>bins\<close> are the names of the binaries in the manifest of a package.\<close>

definition builds_binaries :: "(string \<Rightarrow> string list) \<Rightarrow> build_env \<Rightarrow> bool" where
  "builds_binaries bins B \<longleftrightarrow>
     (\<forall>ps out out'. build_ebpf B ps out = Inr out' \<longrightarrow>
        (\<forall>(name, root_dir)\<in>set ps. \<forall>b\<in>set (bins name). out' b \<noteq> None))"

text \<open>The \<open>[[bin]]\<close> entries of \<open>src/ebpf/*/Cargo.toml\<close>.\<close>

definition manifest_bins :: "string \<Rightarrow> string list" where
  "manifest_bins name = map snd (filter (\<lambda>(p, _). p = name)
     [(''iflat-ebpf'', ''iflat''), (''iflat_uprobe-ebpf'', ''iflat_uprobe''), (''irss-ebpf'', ''irss''),
      (''kfree_skb-ebpf'', ''kfree_skb''), (''my_program-ebpf'', ''my_program''), (''sca-ebpf'', ''sca''),
      (''uprobe-ebpf'', ''uprobe'')])"

lemma registered_built: "available_programs register_programs = concat (map manifest_bins EBPF_PACKAGES)"
  by (simp add: register_programs_eq available_programs_def manifest_bins_def EBPF_PACKAGES_def)

definition plugin_source :: "build_env \<Rightarrow> file_path \<Rightarrow> file_path \<Rightarrow> bool" where
  "plugin_source B dir p \<longleftrightarrow>
     (\<exists>ds d fs n. p = dir @ [d, n] \<and> is_dir B dir \<and> read_dir B dir = Inr ds \<and> Inr d \<in> set ds
        \<and> is_dir B (dir @ [d]) \<and> read_dir B (dir @ [d]) = Inr fs \<and> Inr n \<in> set fs \<and> c_source p)"

lemma find_sources_ok:
  assumes "find_sources B dir = Inr sources"
  shows "plugin_source B dir p \<longleftrightarrow> p \<in> set sources"
  using assms by (auto simp: find_sources_def plugin_source_def split: if_splits sum.splits dest!: plugin_sources_ok)


section \<open>Properties\<close>

text \<open>
  C32. A build that succeeds leaves an object for every program the agent can load: when the workspace
  has the eBPF packages the script names, with the binaries of their manifests, each name in the
  registry has an object in \<open>OUT_DIR\<close>; and every C source of a plugin directory, and nothing else,
  was compiled, its stem naming an object compiled from a source of that stem.
\<close>

theorem build_provides_objects:
  assumes "main B out = Inr out'" and "cargo_metadata B = Inr packages"
    and "set EBPF_PACKAGES \<subseteq> pkg_name ` set packages" and "builds_binaries manifest_bins B"
    and "env_var B ''CARGO_MANIFEST_DIR'' = Some dir"
  shows "(\<forall>name\<in>set (available_programs register_programs). out' name \<noteq> None)
    \<and> (\<forall>p. plugin_source B (butlast dir @ [''ebpf'']) p \<longrightarrow> clang B p = Status True
         \<and> (\<exists>q. out' (stem p) = Some (CObject q) \<and> stem q = stem p \<and> plugin_source B (butlast dir @ [''ebpf'']) q))"
proof -
  obtain ns root_dirs out1 where built: "build_ebpf B (zip ns root_dirs) out = Inr out1" "length ns = length root_dirs"
    and ns: "ns = filter (\<lambda>n. n \<in> set EBPF_PACKAGES) (map pkg_name packages)"
    and c: "build_c_ebpf_programs B out1 = Inr out'"
    using main_ok [OF assms(1,2)] by blast
  obtain sources where src: "find_sources B (butlast dir @ [''ebpf'']) = Inr sources"
    and comp: "compile_all B sources out1 = Inr out'"
    using build_c_ok [OF c] assms(5) by auto
  have "out1 name \<noteq> None" if reg: "name \<in> set (available_programs register_programs)" for name
  proof -
    obtain pkg where pkg: "pkg \<in> set EBPF_PACKAGES" "name \<in> set (manifest_bins pkg)"
      using reg unfolding registered_built by auto
    then have "pkg \<in> set ns" using assms(3) by (auto simp: ns)
    then obtain d where "(pkg, d) \<in> set (zip ns root_dirs)"
      using built(2) by (metis in_set_impl_in_set_zip1 surj_pair)
    then show ?thesis using assms(4) built(1) pkg(2) unfolding builds_binaries_def by blast
  qed
  moreover have "clang B p = Status True
      \<and> (\<exists>q. out' (stem p) = Some (CObject q) \<and> stem q = stem p \<and> plugin_source B (butlast dir @ [''ebpf'']) q)"
    if "p \<in> set sources" for p
    using find_rev_stem [OF that] compile_all_ok [OF comp, of "stem p"] that find_sources_ok [OF src] by auto
  ultimately show ?thesis using compile_all_keeps [OF comp] find_sources_ok [OF src] by blast
qed

definition demo_build :: build_env where
  "demo_build =
     \<lparr>cargo_metadata = Inr (map (\<lambda>n. \<lparr>pkg_name = n, manifest_path = [''ws'', n, ''Cargo.toml'']\<rparr>) (''bpfagent'' # EBPF_PACKAGES)),
      build_ebpf = (\<lambda>ps out. Inr (foldr (\<lambda>(n, _) out b. if b \<in> set (manifest_bins n) then Some (RustObject n) else out b) ps out)),
      env_var = map_of [(''CARGO_MANIFEST_DIR'', [''ws'', ''bpfagent'']), (''OUT_DIR'', [''out''])],
      is_dir = (\<lambda>p. p \<in> {[''ws'', ''ebpf''], [''ws'', ''ebpf'', ''my_program'']}),
      read_dir = (\<lambda>p. if p = [''ws'', ''ebpf''] then Inr [Inr ''README.md'', Inr ''my_program'']
                      else Inr [Inr ''Cargo.toml'', Inr ''my_program.c'']),
      clang = (\<lambda>_. Status True)\<rparr>"

lemma demo_builds: "builds_binaries manifest_bins demo_build"
proof -
  have "foldr (\<lambda>(n, _) out b. if b \<in> set (manifest_bins n) then Some (RustObject n) else out b) ps out b \<noteq> None"
    if "(name, root_dir) \<in> set ps" "b \<in> set (manifest_bins name)" for ps name b and root_dir :: file_path and out
    using that by (induction ps) auto
  then show ?thesis unfolding builds_binaries_def demo_build_def by auto
qed

theorem build_provides_objects_witness:
  "\<exists>out'. main demo_build Map.empty = Inr out' \<and> out' ''sca'' \<noteq> None \<and> (\<exists>q. out' ''my_program'' = Some (CObject q))"
proof -
  have c: "c_source [''ws'', ''ebpf'', ''my_program'', ''my_program.c'']"
      "\<not> c_source [''ws'', ''ebpf'', ''my_program'', ''Cargo.toml'']" "stem [''ws'', ''ebpf'', ''my_program'', ''my_program.c''] = ''my_program''"
      "Option.bind (file_stem [''ws'', ''ebpf'', ''my_program'', ''my_program.c'']) to_str = Some ''my_program''"
    by (simp_all add: c_source_def extension_def file_name_def split_name_def to_str_def stem_def file_stem_def Let_def)
  obtain out' where run: "main demo_build Map.empty = Inr out'"
    by (simp add: main_def demo_build_def parent_def EBPF_PACKAGES_def Let_def build_c_ebpf_programs_def find_sources_def c)
  have "plugin_source demo_build [''ws'', ''ebpf''] [''ws'', ''ebpf'', ''my_program'', ''my_program.c'']"
    using c(1) by (auto simp: plugin_source_def demo_build_def)
  moreover have "''sca'' \<in> set (available_programs register_programs)"
    by (simp add: register_programs_eq available_programs_def)
  ultimately show ?thesis
    using build_provides_objects [OF run _ _ demo_builds, of _ "[''ws'', ''bpfagent'']"] run c(3)
    by (force simp: demo_build_def)
qed

end
