(* ===== verification/Wire.thy ===== *)
theory Wire
  imports Packet User_Mem "HOL-Library.While_Combinator"
begin

text \<open>
  What the traffic simulators (\<open>src/bpfagent/examples\<close>) use to build packets: integers as byte
  sequences, writes into a slice, and the Internet checksum of RFC 1071
  (\<open>add_checksum_words\<close>, \<open>fold_checksum\<close>, \<open>internet_checksum\<close> of \<open>iflat_sim.rs\<close>). A write outside
  the buffer panics in Rust and is \<open>None\<close> here. The folding loop is kept as a loop, so a checksum
  is \<open>None\<close> if it does not end.

  Shown: encodings and decodings are inverse; consecutive writes make up the concatenation; the
  folding loop always ends; a packet with its checksum in place verifies.
\<close>

unbundle bit_operations_syntax


section \<open>Integers as bytes\<close>

definition to_be_bytes :: "nat \<Rightarrow> 'a::len word \<Rightarrow> u8 list" where
  "to_be_bytes n w = rev (to_le_bytes n w)"

lemma length_to_bytes [simp]:
  "length (to_le_bytes n w) = n"
  "length (to_be_bytes n w) = n"
  by (simp_all add: to_be_bytes_def to_le_bytes_def)

lemma to_be_bytes_zero: "to_be_bytes n (0 :: 'a::len word) = replicate n 0"
  by (simp add: to_be_bytes_def to_le_bytes_def map_replicate_const)

lemma to_be_bytes_2: "to_be_bytes 2 (w :: u16) = [ucast (drop_bit 8 w), ucast w]"
  by (simp add: to_be_bytes_def to_le_bytes_def upt_rec)

lemma bit_to_from_le_bytes:
  "bit (from_le_bytes (to_le_bytes n w) :: 'a::len word) i \<longleftrightarrow> bit (w :: 'a word) i \<and> i < 8 * n"
proof (induction n arbitrary: w i)
  case 0
  then show ?case by (simp add: to_le_bytes_def)
next
  case (Suc n)
  have "bit (from_le_bytes (to_le_bytes (Suc n) w) :: 'a word) i
      \<longleftrightarrow> (8 \<le> i \<and> i < LENGTH('a) \<and> bit (drop_bit 8 w) (i - 8) \<and> i - 8 < 8 * n)
        \<or> (i < LENGTH('a) \<and> i < 8 \<and> bit w i)"
    using Suc.IH [of "drop_bit 8 w" "i - 8"]
    by (auto simp: to_le_bytes_Suc from_le_bytes_Cons push_byte_def bit_simps)
  then show ?case
    using bit_imp_le_length [of w i] by (auto simp: bit_simps)
qed

lemma from_le_to_le_bytes [simp]:
  assumes "LENGTH('a::len) \<le> 8 * n"
  shows "from_le_bytes (to_le_bytes n w) = (w :: 'a word)"
  using assms by (intro bit_word_eqI) (simp add: bit_to_from_le_bytes)

lemma from_be_to_be_bytes [simp]:
  assumes "LENGTH('a::len) \<le> 8 * n"
  shows "from_be_bytes (to_be_bytes n w) = (w :: 'a word)"
  using from_le_to_le_bytes [OF assms, of w] by (simp add: to_be_bytes_def from_le_bytes_def)

text \<open>\<open>slice.get(a..b)\<close>\<close>

definition get_slice :: "'a list \<Rightarrow> nat \<Rightarrow> nat \<Rightarrow> 'a list option" where
  "get_slice xs a b = (if a \<le> b \<and> b \<le> length xs then Some (take (b - a) (drop a xs)) else None)"


section \<open>Writing into a slice\<close>

text \<open>\<open>buf[off..off + n].copy_from_slice(bs)\<close> with \<open>n = bs.len()\<close>, and several of them in a row.\<close>

definition put_at :: "u8 list \<Rightarrow> nat \<Rightarrow> u8 list \<Rightarrow> u8 list option" where
  "put_at buf off bs =
     (if off + length bs \<le> length buf then Some (take off buf @ bs @ drop (off + length bs) buf) else None)"

fun put_all :: "u8 list \<Rightarrow> (nat \<times> u8 list) list \<Rightarrow> u8 list option" where
  "put_all buf [] = Some buf"
| "put_all buf ((off, bs) # ws) =
     do {
       buf \<leftarrow> put_at buf off bs;
       put_all buf ws
     }"

fun contiguous :: "nat \<Rightarrow> (nat \<times> u8 list) list \<Rightarrow> bool" where
  "contiguous off [] \<longleftrightarrow> True"
| "contiguous off ((o', bs) # ws) \<longleftrightarrow> o' = off \<and> contiguous (off + length bs) ws"

lemma put_all_contiguous:
  assumes "contiguous off ws" and "off + length (concat (map snd ws)) \<le> length buf"
  shows "put_all buf ws = Some (take off buf @ concat (map snd ws) @ drop (off + length (concat (map snd ws))) buf)"
  using assms
proof (induction off ws arbitrary: buf rule: contiguous.induct)
  case (2 off o' bs ws)
  let ?buf = "take off buf @ bs @ drop (off + length bs) buf"
  have len: "length ?buf = length buf" and put: "put_at buf off bs = Some ?buf"
    using "2.prems" by (simp_all add: put_at_def)
  have "put_all ?buf ws = Some (take (off + length bs) ?buf @ concat (map snd ws)
      @ drop (off + length bs + length (concat (map snd ws))) ?buf)"
    using "2.prems" len by (intro "2.IH") simp_all
  moreover have "off \<le> length buf" using "2.prems" by simp
  ultimately show ?case using put "2.prems"(1) by (simp add: add.assoc add.commute)
qed simp

lemma put_all_append: "put_all buf (xs @ ys) = Option.bind (put_all buf xs) (\<lambda>buf. put_all buf ys)"
  by (induction buf xs rule: put_all.induct) (simp_all split: Option.bind_split)

text \<open>Fields written once, in order and without gaps from the start of the buffer.\<close>

lemma put_all_prefix:
  assumes "contiguous 0 ws" and "length (concat (map snd ws)) = n" and "n \<le> length pkt"
  shows "put_all pkt ws = Some (concat (map snd ws) @ take m (drop n pkt) @ drop (n + m) pkt)"
proof -
  have "drop n pkt = take m (drop n pkt) @ drop (n + m) pkt"
    by (metis append_take_drop_id drop_drop add.commute)
  then show ?thesis using put_all_contiguous [of 0 ws pkt] assms by simp
qed

text \<open>Writing over a part of the right length.\<close>

lemma put_at_replace:
  assumes "length a = off" and "length b = length bs"
  shows "put_at (a @ b @ c) off bs = Some (a @ bs @ c)"
  using assms by (simp add: put_at_def)


lemma get_slice_middle: "length a = off \<Longrightarrow> length b = n \<Longrightarrow> get_slice (a @ b @ c) off (off + n) = Some b"
  by (simp add: get_slice_def)


section \<open>Structures in memory\<close>

text \<open>
  The memory layout of a \<open>repr(C)\<close> structure: every field starts at the next multiple of its
  alignment. \<open>pad\<close> stands for the bytes between fields, which have no defined value.
\<close>

definition padding :: "nat \<Rightarrow> nat \<Rightarrow> nat" where
  "padding off align = (align - off mod align) mod align"

fun repr_c :: "u8 \<Rightarrow> nat \<Rightarrow> (nat \<times> u8 list) list \<Rightarrow> u8 list" where
  "repr_c pad off [] = []"
| "repr_c pad off ((align, bs) # fs) =
     replicate (padding off align) pad @ bs @ repr_c pad (off + padding off align + length bs) fs"

text \<open>\<open>libc::iovec\<close> and \<open>libc::msghdr\<close>, with no control data.\<close>

definition iovec_bytes :: "u64 \<Rightarrow> u64 \<Rightarrow> u8 list" where
  "iovec_bytes base len = repr_c 0 0 [(8, to_le_bytes 8 base), (8, to_le_bytes 8 len)]"

definition msghdr_bytes :: "u8 \<Rightarrow> u64 \<Rightarrow> u32 \<Rightarrow> u64 \<Rightarrow> u64 \<Rightarrow> i32 \<Rightarrow> u8 list" where
  "msghdr_bytes pad name namelen iov iovlen flags =
     repr_c pad 0
       [(8, to_le_bytes 8 name), (4, to_le_bytes 4 namelen), (8, to_le_bytes 8 iov), (8, to_le_bytes 8 iovlen),
        (8, to_le_bytes 8 (0 :: u64)), (8, to_le_bytes 8 (0 :: u64)), (4, to_le_bytes 4 flags),
        (8, [])]"

lemma field_le_bytes:
  fixes w :: "'a::len word"
  assumes "take n (drop off bs) = to_le_bytes n w" and "LENGTH('a) \<le> 8 * n"
  shows "field off n bs = w"
  using assms by (simp add: field_def)

lemma read_bytes_append:
  "read_bytes mem a (m + n) =
     do {
       xs \<leftarrow> read_bytes mem a m;
       ys \<leftarrow> read_bytes mem (a + of_nat m) n;
       Some (xs @ ys)
     }"
  by (induction m arbitrary: a) (auto simp: add.assoc split: Option.bind_splits)

lemma read_bytes_part:
  assumes "read_bytes mem a k = Some bs" and "m + n \<le> k"
  shows "read_bytes mem (a + of_nat m) n = Some (take n (drop m bs))"
proof -
  obtain xs ys zs where 1: "read_bytes mem a m = Some xs" "read_bytes mem (a + of_nat m) n = Some ys"
      "bs = xs @ ys @ zs"
    using assms read_bytes_append [of mem a m "n + (k - m - n)"]
      read_bytes_append [of mem "a + of_nat m" n "k - m - n"]
    by (auto split: Option.bind_splits)
  then show ?thesis using length_read_bytes [OF 1(1)] length_read_bytes [OF 1(2)] by simp
qed


section \<open>The Internet checksum\<close>

fun add_checksum_words :: "u32 \<Rightarrow> u8 list \<Rightarrow> u32" where
  "add_checksum_words acc (a # b # bs) = add_checksum_words (acc + ucast (from_be_bytes [a, b] :: u16)) bs"
| "add_checksum_words acc [b] = acc + push_bit 8 (ucast b)"
| "add_checksum_words acc [] = acc"

definition fold_loop :: "u32 \<Rightarrow> u32 option" where
  "fold_loop = while_option (\<lambda>acc. drop_bit 16 acc \<noteq> 0) (\<lambda>acc. (acc AND 0xffff) + drop_bit 16 acc)"

definition fold_checksum :: "u32 \<Rightarrow> u16 option" where
  "fold_checksum acc = map_option (\<lambda>acc. NOT (ucast acc)) (fold_loop acc)"

definition internet_checksum :: "u8 list \<Rightarrow> u16 option" where
  "internet_checksum data = fold_checksum (add_checksum_words 0 data)"

text \<open>
  The same over natural numbers: the sum of the 16-bit words, and its representative in the
  one's complement arithmetic, which is zero only for zero.
\<close>

fun word_sum :: "u8 list \<Rightarrow> nat" where
  "word_sum (a # b # bs) = unat a * 256 + unat b + word_sum bs"
| "word_sum [b] = unat b * 256"
| "word_sum [] = 0"

definition ones :: "nat \<Rightarrow> nat" where
  "ones n = (if n = 0 then 0 else (n - 1) mod 65535 + 1)"

lemma unat_less_exp: "unat (w :: 'a::len word) < 2 ^ LENGTH('a)"
  by (rule unsigned_less)

lemma word_sum_bound: "word_sum bs \<le> 65535 * length bs"
proof (induction bs rule: word_sum.induct)
  case (1 a b bs)
  then show ?case using unat_less_exp [of a] unat_less_exp [of b] by simp
next
  case (2 b)
  then show ?case using unat_less_exp [of b] by simp
qed simp

lemma word_sum_append: "even (length a) \<Longrightarrow> word_sum (a @ b) = word_sum a + word_sum b"
  by (induction a rule: word_sum.induct) simp_all

lemma unat_be_word: "unat (ucast (from_be_bytes [a, b] :: u16) :: u32) = unat a * 256 + unat b"
proof -
  have "push_bit 8 (ucast a :: u16) AND ucast b = 0"
    by (rule bit_word_eqI) (auto simp: bit_simps dest: byte_bit)
  then have "(from_be_bytes [a, b] :: u16) = push_bit 8 (ucast a) + ucast b"
    by (simp add: from_be_bytes_def push_byte_def flip: disjunctive_add_eq_or)
  then show ?thesis
    using unat_less_exp [of a] unat_less_exp [of b]
    by (simp add: unsigned_ucast_eq unat_word_ariths take_bit_eq_mod push_bit_eq_mult)
qed

lemma unat_high_byte: "unat (push_bit 8 (ucast (b :: u8)) :: u32) = unat b * 256"
  using unat_less_exp [of b] by (simp add: unsigned_ucast_eq unat_word_ariths take_bit_eq_mod push_bit_eq_mult)

lemma unat_add_checksum_words:
  assumes "unat acc + word_sum bs < 2 ^ 32"
  shows "unat (add_checksum_words acc bs) = unat acc + word_sum bs"
  using assms
proof (induction acc bs rule: add_checksum_words.induct)
  case (1 acc a b bs)
  then have "unat (acc + ucast (from_be_bytes [a, b] :: u16)) = unat acc + (unat a * 256 + unat b)"
    by (subst unat_plus_no_overflow) (simp_all add: unat_be_word)
  then show ?case using 1 by simp
next
  case (2 acc b)
  then show ?case by (subst add_checksum_words.simps, subst unat_plus_no_overflow) (simp_all add: unat_high_byte)
qed simp

lemma ones_fold:
  assumes "65536 \<le> n"
  shows "ones (n mod 65536 + n div 65536) = ones n" and "n mod 65536 + n div 65536 < n"
proof -
  define q r where "q = n div 65536" and "r = n mod 65536"
  have n: "n = 65536 * q + r" by (simp add: q_def r_def)
  have q: "0 < q" using assms by (simp add: q_def div_greater_zero_iff)
  have "n - 1 = 65535 * q + (r + q - 1)" using n q by linarith
  then have "(n - 1) mod 65535 = (r + q - 1) mod 65535" by (simp only: mod_mult_self4 mod_mult_self2 add.commute)
  then show "ones (n mod 65536 + n div 65536) = ones n"
    using q assms by (simp add: ones_def flip: q_def r_def)
  show "n mod 65536 + n div 65536 < n" unfolding q_def [symmetric] r_def [symmetric] using n q by linarith
qed

lemma ones_id: "n < 65536 \<Longrightarrow> ones n = n"
  by (auto simp: ones_def)

lemma unat_fold_step:
  "unat (((s :: u32) AND 0xffff) + drop_bit 16 s) = unat s mod 65536 + unat s div 65536"
proof -
  have low: "unat (s AND 0xffff) = unat s mod 65536"
  proof -
    have "s AND 0xffff = take_bit 16 s" by (simp only: take_bit_eq_mask) (simp add: mask_eq_exp_minus_1)
    then show ?thesis by (simp only: unsigned_take_bit_eq) (simp add: take_bit_eq_mod)
  qed
  have high: "unat (drop_bit 16 s) = unat s div 65536"
    using unat_less_exp [of s]
    by (simp only: unsigned_drop_bit_eq) (simp add: drop_bit_eq_div take_bit_eq_mod)
  show ?thesis using low high unat_less_exp [of s]
    by (subst unat_plus_no_overflow) (simp_all, linarith?)
qed

lemma drop_16_eq_0: "drop_bit 16 (s :: u32) = 0 \<longleftrightarrow> unat s < 65536"
proof -
  have "drop_bit 16 s = 0 \<longleftrightarrow> unat (drop_bit 16 s) = 0" by (simp add: unat_eq_0)
  also have "\<dots> \<longleftrightarrow> unat s < 65536" 

    using unat_less_exp [of s]
    by (simp only: unsigned_drop_bit_eq) (simp add: drop_bit_eq_div div_eq_0_iff take_bit_eq_mod)
  finally show ?thesis .
qed

text \<open>The folding loop ends on every sum, with its one's complement representative.\<close>

lemma fold_loop_eq: "fold_loop s = Some (of_nat (ones (unat s)))"
proof -
  let ?b = "\<lambda>acc :: u32. drop_bit 16 acc \<noteq> 0" and ?c = "\<lambda>acc :: u32. (acc AND 0xffff) + drop_bit 16 acc"
  let ?P = "\<lambda>acc. ones (unat acc) = ones (unat s)"
  have step: "?P (?c acc) \<and> unat (?c acc) < unat acc" if "?P acc" "?b acc" for acc
    using that ones_fold [of "unat acc"] by (simp add: unat_fold_step drop_16_eq_0)
  then obtain t where t: "while_option ?b ?c s = Some t"
    using measure_while_option_Some [of ?P ?b ?c unat s] by blast
  have "?P t" using while_option_rule [of ?P ?b ?c s t] step t by blast
  moreover have "unat t < 65536" using while_option_stop [OF t] by (simp add: drop_16_eq_0)
  ultimately have "t = of_nat (ones (unat s))"
    by (auto simp: word_unat_eq_iff unat_of_nat ones_id)
  then show ?thesis by (simp only: fold_loop_def t)
qed

lemma ones_less: "ones n < 65536"
proof -
  have "(n - 1) mod 65535 < 65535" by simp
  then show ?thesis by (simp add: ones_def)
qed

lemma fold_checksum_eq: "fold_checksum s = Some (NOT (of_nat (ones (unat s))))"
proof -
  have "ucast (of_nat (ones (unat s)) :: u32) = (of_nat (ones (unat s)) :: u16)"
    using ones_less [of "unat s"] by (simp add: word_unat_eq_iff unsigned_ucast_eq unat_of_nat take_bit_eq_mod)
  then show ?thesis by (simp add: fold_checksum_def fold_loop_eq)
qed

lemma unat_fold_checksum:
  assumes "fold_checksum s = Some c"
  shows "unat c = 65535 - ones (unat s)"
proof -
  have "c = of_nat (65535 - ones (unat s))"
    using assms ones_less [of "unat s"]
    by (auto simp: fold_checksum_eq not_eq_complement of_nat_diff)
  then show ?thesis by (simp add: unat_of_nat)
qed

text \<open>A sum that includes its own checksum folds to zero.\<close>

lemma ones_complement: "ones (n + (65535 - ones n)) = 65535"
proof (cases "n = 0")
  case False
  define q r where "q = (n - 1) div 65535" and "r = (n - 1) mod 65535"
  have n: "n = 65535 * q + r + 1" and r: "r < 65535" using False by (simp_all add: q_def r_def)
  have "ones n = r + 1" using False by (simp add: ones_def r_def)
  then have "n + (65535 - ones n) = 65535 * (q + 1)" using n r by simp
  moreover have "ones (65535 * (q + 1)) = 65535"
  proof -
    have "65535 * (q + 1) - 1 = 65535 * q + 65534" by simp
    then have "(65535 * (q + 1) - 1) mod 65535 = 65534" by (simp only: mod_mult_self4) simp
    then show ?thesis by (simp add: ones_def)
  qed
  ultimately show ?thesis by simp
qed (simp add: ones_def)

lemma fold_checksum_verifies:
  assumes "fold_checksum s = Some c" and "unat s' = unat s + unat c"
  shows "fold_checksum s' = Some 0"
proof -
  have "ones (unat s') = 65535"
    using assms(2) unat_fold_checksum [OF assms(1)] by (simp add: ones_complement)
  then show ?thesis by (simp add: fold_checksum_eq not_eq_complement)
qed

text \<open>
  A buffer whose checksum field was zero when the checksum was taken verifies once it is filled
  in, whatever sum was added before it.
\<close>

lemma word_sum_be_bytes: "word_sum (to_be_bytes 2 (c :: u16)) = unat c"
proof -
  have "to_be_bytes 2 c = [ucast (drop_bit 8 c), ucast c]" by (simp add: to_be_bytes_def to_le_bytes_def upt_rec)
  moreover have "unat c div 256 * 256 + unat c mod 256 = unat c" by (rule div_mult_mod_eq)
  moreover have "unat (ucast (drop_bit 8 c) :: u8) = unat c div 256"
  proof -
    have "unat (ucast (drop_bit 8 c) :: u8) = take_bit 8 (unat (drop_bit 8 c))" by (simp only: unsigned_ucast_eq) simp
    also have "unat (drop_bit 8 c) = unat c div 256"
      using unat_less_exp [of c] by (simp only: unsigned_drop_bit_eq) (simp add: drop_bit_eq_div take_bit_eq_mod)
    also have "take_bit 8 (unat c div 256) = unat c div 256"
      using unat_less_exp [of c] by (simp add: take_bit_eq_mod)
    finally show ?thesis .
  qed
  moreover have "unat (ucast c :: u8) = unat c mod 256" by (simp add: unsigned_ucast_eq take_bit_eq_mod)
  ultimately show ?thesis by simp
qed

lemma checksum_verifies:
  assumes "fold_checksum (add_checksum_words s (pre @ [0, 0] @ post)) = Some c"
    and "even (length pre)" and "unat s + word_sum (pre @ [0, 0] @ post) + 65535 < 2 ^ 32"
  shows "fold_checksum (add_checksum_words s (pre @ to_be_bytes 2 c @ post)) = Some 0"
proof -
  have *: "word_sum (pre @ to_be_bytes 2 c @ post) = word_sum (pre @ [0, 0] @ post) + unat c"
    using assms(2) by (simp add: word_sum_append word_sum_be_bytes)
  have "unat (add_checksum_words s (pre @ to_be_bytes 2 c @ post))
      = unat s + (word_sum (pre @ [0, 0] @ post) + unat c)"
    using assms(3) unat_less_exp [of c] by (subst unat_add_checksum_words) (simp_all add: *)
  moreover have "unat (add_checksum_words s (pre @ [0, 0] @ post)) = unat s + word_sum (pre @ [0, 0] @ post)"
    using assms(3) by (subst unat_add_checksum_words) simp_all
  ultimately show ?thesis by (intro fold_checksum_verifies [OF assms(1)]) simp
qed

text \<open>
  C36. The folding loop of the checksum ends for every accumulator, with the representative of the
  accumulator modulo \<open>65535\<close> that is zero only for zero, and the checksum is its complement.
\<close>

theorem fold_checksum_ends:
  "\<exists>t. fold_loop acc = Some t \<and> unat t < 65536 \<and> unat t mod 65535 = unat acc mod 65535
     \<and> (unat t = 0 \<longleftrightarrow> acc = 0) \<and> fold_checksum acc = Some (NOT (ucast t))"
proof (intro exI conjI)
  let ?t = "of_nat (ones (unat acc)) :: u32"
  have t: "unat ?t = ones (unat acc)" using ones_less [of "unat acc"] by (simp add: unat_of_nat)
  show "fold_loop acc = Some ?t" by (rule fold_loop_eq)
  then show "fold_checksum acc = Some (NOT (ucast ?t))" by (simp add: fold_checksum_def)
  show "unat ?t < 65536" by (simp only: t ones_less)
  show "unat ?t mod 65535 = unat acc mod 65535" by (simp only: t) (simp add: ones_def mod_Suc_eq)
  have "ones (unat acc) = 0 \<longleftrightarrow> unat acc = 0" by (simp add: ones_def)
  then show "unat ?t = 0 \<longleftrightarrow> acc = 0" by (simp only: t unat_eq_0)
qed

end
