(* ===== verification/Sim_Host.thy ===== *)
theory Sim_Host
  imports Rust_Std "HOL-Library.Sublist"
begin

text \<open>
  The host as the two network simulators (\<open>iflat_sim.rs\<close>, \<open>iflat_uprobe_sim.rs\<close>) use it. Each
  action on it (an external command, a device, a child process) is a value; how the host answers
  is a parameter that may depend on everything done before. A simulator's \<open>main\<close> is a list of
  steps: one whose failure is fatal (\<open>run\<close>, \<open>create_tun\<close>, \<open>spawn_sender\<close>) or one whose outcome is
  ignored (\<open>run_ignore\<close>). \<open>SpawnSender\<close> runs the simulator's own binary with \<open>--sender\<close> in the
  network namespace. Running the steps yields the actions in order and the fatal message, if
  any, after which the process exits.

  Shown: a run without a fatal error performs exactly the actions of its steps; a run with one
  performs a prefix of them.
\<close>

unbundle bit_operations_syntax

datatype host_action =
  HostCommand string "string list"
| OpenTunDevice
| TunSetIff string u16
| WriteSysctl string string
| BindSocket string
| SetNonblocking string
| CurrentExe
| SpawnSender string
| RunReceiver
| KillSender
| WaitSender
| CloseTun

datatype response = Success | OsError string | Unsuccessful string

type_synonym host = "host_action list \<Rightarrow> host_action \<Rightarrow> response"

datatype sim_step = Require host_action "response \<Rightarrow> string" | BestEffort host_action

fun step_action :: "sim_step \<Rightarrow> host_action" where
  "step_action (Require a _) = a"
| "step_action (BestEffort a) = a"

fun run_sim :: "host \<Rightarrow> host_action list \<Rightarrow> sim_step list \<Rightarrow> host_action list \<times> string option" where
  "run_sim H tr [] = (tr, None)"
| "run_sim H tr (Require a fatal # ss) =
     (case H tr a of
        Success \<Rightarrow> run_sim H (tr @ [a]) ss
      | r \<Rightarrow> (tr @ [a], Some (fatal r)))"
| "run_sim H tr (BestEffort a # ss) = run_sim H (tr @ [a]) ss"

fun response_text :: "response \<Rightarrow> string" where
  "response_text Success = []"
| "response_text (OsError e) = e"
| "response_text (Unsuccessful e) = e"

definition run :: "string \<Rightarrow> string list \<Rightarrow> sim_step" where
  "run cmd argv =
     Require (HostCommand cmd argv)
       (\<lambda>r. case r of
              OsError e \<Rightarrow> ''failed to run '' @ cmd @ '': '' @ e @ '' (installed? in PATH?)''
            | Unsuccessful stderr \<Rightarrow>
                cmd @ '' '' @ join '' '' argv @ '' failed: '' @ trim (from_utf8_lossy stderr)
            | Success \<Rightarrow> [])"

definition run_ignore :: "string \<Rightarrow> string list \<Rightarrow> sim_step" where
  "run_ignore cmd argv = BestEffort (HostCommand cmd argv)"

definition IFF_TUN :: u16 where "IFF_TUN = 0x0001"
definition IFF_NO_PI :: u16 where "IFF_NO_PI = 0x1000"

definition create_tun :: "string \<Rightarrow> sim_step list" where
  "create_tun name =
     [Require OpenTunDevice (\<lambda>r. ''open /dev/net/tun failed (need root, TUN module loaded): '' @ response_text r),
      Require (TunSetIff name (IFF_TUN OR IFF_NO_PI)) (\<lambda>r. ''TUNSETIFF '' @ name @ '' failed: '' @ response_text r)]"

definition spawn_sender :: "string \<Rightarrow> sim_step list" where
  "spawn_sender netns =
     [Require CurrentExe (\<lambda>r. ''current_exe failed: '' @ response_text r),
      Require (SpawnSender netns)
        (\<lambda>r. ''failed to spawn sender: '' @ response_text r)]"

definition shut_down :: "sim_step list \<Rightarrow> sim_step list" where
  "shut_down teardown = [BestEffort KillSender, BestEffort WaitSender] @ teardown @ [BestEffort CloseTun]"

text \<open>\<open>monotonic_ns\<close>, from the seconds and nanoseconds of \<open>clock_gettime\<close>.\<close>

definition monotonic_ns :: "u64 \<Rightarrow> u64 \<Rightarrow> u64" where
  "monotonic_ns tv_sec tv_nsec = tv_sec * 1000000000 + tv_nsec"

text \<open>The command line of both: \<open>--sender\<close> anywhere, or the optional delay as first argument.\<close>

datatype 'r sim_main = SenderRole | Fatal string | Simulate 'r

definition simulator_main :: "string \<Rightarrow> (u64 \<Rightarrow> sim_step list) \<Rightarrow> host \<Rightarrow> bool \<Rightarrow> string list
    \<Rightarrow> (host_action list \<times> string option) sim_main" where
  "simulator_main need_root steps H is_root argv =
     (if ''--sender'' \<in> set argv then SenderRole
      else
        (case (if 1 < length argv then map_option Some (parse_u64 (argv ! 1)) else Some None) of
           None \<Rightarrow> Fatal (''invalid NETEM_DELAY_MS '' @ [CHR 0x27] @ argv ! 1 @ [CHR 0x27])
         | Some delay \<Rightarrow>
             if \<not> is_root then Fatal need_root
             else Simulate (run_sim H [] (steps (unwrap_or delay 0)))))"


section \<open>Runs\<close>

lemma run_sim_ok:
  assumes "run_sim H tr ss = (tr', None)"
  shows "tr' = tr @ map step_action ss"
  using assms by (induction H tr ss rule: run_sim.induct) (auto split: response.splits)

lemma run_sim_fatal:
  assumes "run_sim H tr ss = (tr', Some m)"
  shows "\<exists>pre a f post. ss = pre @ Require a f # post \<and> tr' = tr @ map step_action pre @ [a]"
  using assms
proof (induction H tr ss rule: run_sim.induct)
  case (2 H tr a fatal ss)
  show ?case
  proof (cases "H tr a")
    case Success
    then obtain pre b f post where "ss = pre @ Require b f # post" "tr' = (tr @ [a]) @ map step_action pre @ [b]"
      using 2 by auto
    then show ?thesis by (intro exI [of _ "Require a fatal # pre"] exI [of _ b] exI [of _ f] exI [of _ post]) simp
  qed (use 2 in \<open>auto intro!: exI [of _ "[]"]\<close>)
next
  case (3 H tr a ss)
  then obtain pre b f post where "ss = pre @ Require b f # post" "tr' = (tr @ [a]) @ map step_action pre @ [b]"
    by auto
  then show ?case by (intro exI [of _ "BestEffort a # pre"] exI [of _ b] exI [of _ f] exI [of _ post]) simp
qed simp

text \<open>A fatal error does not happen among steps whose outcome is ignored.\<close>

lemma run_sim_fatal_before:
  assumes "run_sim H [] (ss @ map BestEffort as) = (tr, Some m)"
  shows "prefix tr (map step_action ss)"
proof -
  obtain pre a f post where 1: "ss @ map BestEffort as = pre @ Require a f # post" "tr = map step_action pre @ [a]"
    using run_sim_fatal [OF assms] by auto
  have "length pre < length ss"
  proof (rule ccontr)
    assume "\<not> length pre < length ss"
    then have "(ss @ map BestEffort as) ! length pre \<in> BestEffort ` set as"
      using arg_cong [OF 1(1), of length] by (auto simp: nth_append)
    then show False using 1(1) by (auto simp: nth_append)
  qed
  then have "ss = pre @ Require a f # take (length ss - length pre - 1) post"
    using arg_cong [OF 1(1), of "take (length ss)"] by (simp add: take_Cons')
  then have "map step_action ss = tr @ map step_action (take (length ss - length pre - 1) post)"
    using 1(2) by (metis append.assoc append_Cons append_Nil list.simps(9) map_append step_action.simps(1))
  then show ?thesis by simp
qed

lemma subseq_before: "x \<in> set ys \<Longrightarrow> subseq xs zs \<Longrightarrow> subseq (x # xs) (ys @ zs)"
  using list_emb_append_mono [of "(=)" "[x]" ys xs zs] by (simp add: subseq_singleton_left)

lemma run_sim_all_success: "run_sim (\<lambda>_ _. Success) tr ss = (tr @ map step_action ss, None)"
proof (induction ss arbitrary: tr)
  case (Cons st ss)
  then show ?case by (cases st) simp_all
qed simp

lemma simulator_main_Simulate:
  assumes "simulator_main need_root steps H is_root argv = Simulate (tr, fatal)"
  obtains delay where "run_sim H [] (steps delay) = (tr, fatal)"
  using assms by (auto simp: simulator_main_def split: if_splits option.splits)


section \<open>Simulators that clean up\<close>

text \<open>
  The contract of a simulator's set-up and tear-down: whatever \<open>topology\<close> creates outside the
  process is removed by \<open>stale\<close>, before, and by \<open>down\<close>, after; the receiver is not started by the
  steps that prepare the run.
\<close>

definition lifecycle :: "sim_step list \<Rightarrow> sim_step list \<Rightarrow> sim_step list \<Rightarrow> sim_step list \<Rightarrow> host_action list \<Rightarrow> sim_step list" where
  "lifecycle stale prepare topology launch down =
     stale @ prepare @ topology @ launch @ [BestEffort RunReceiver] @ shut_down (map BestEffort down)"

locale simulator_topology =
  fixes stale prepare :: "sim_step list"
    and topology :: "u64 \<Rightarrow> sim_step list"
    and launch :: "sim_step list"
    and down :: "host_action list"
    and created :: "(host_action \<times> host_action) list"
  assumes stale_removes: "(c, r) \<in> set created \<Longrightarrow> BestEffort r \<in> set stale"
    and topology_creates: "(c, r) \<in> set created \<Longrightarrow> c \<in> step_action ` set (topology delay)"
    and down_removes: "(c, r) \<in> set created \<Longrightarrow> r \<in> set down"
    and not_receiving: "RunReceiver \<notin> step_action ` set (stale @ prepare @ topology delay @ launch)"
begin

lemma removed_in_order:
  assumes "(c, r) \<in> set created"
  shows "subseq [r, c, RunReceiver, KillSender, WaitSender, r, CloseTun]
    (map step_action (lifecycle stale prepare (topology delay) launch down))"
proof -
  let ?finish = "[RunReceiver, KillSender, WaitSender, r, CloseTun]"
  have "subseq [r, CloseTun] (down @ [CloseTun])"
    using down_removes [OF assms] by (intro subseq_before) simp_all
  then have "subseq ?finish ([RunReceiver, KillSender, WaitSender] @ down @ [CloseTun])" by simp
  then have launched: "subseq ?finish (map step_action launch @ [RunReceiver, KillSender, WaitSender] @ down @ [CloseTun])"
    by (rule list_emb_append2)
  have "c \<in> set (map step_action (topology delay))" using topology_creates [OF assms] by simp
  then have "subseq (c # ?finish) (map step_action (topology delay)
      @ map step_action launch @ [RunReceiver, KillSender, WaitSender] @ down @ [CloseTun])"
    using launched by (rule subseq_before)
  then have tail: "subseq (c # ?finish) (map step_action prepare @ map step_action (topology delay)
      @ map step_action launch @ [RunReceiver, KillSender, WaitSender] @ down @ [CloseTun])"
    by (rule list_emb_append2)
  have "r \<in> set (map step_action stale)" using stale_removes [OF assms] by force
  from subseq_before [OF this tail] show ?thesis
    by (simp add: lifecycle_def shut_down_def comp_def)
qed

lemma fatal_early:
  assumes "run_sim H [] (lifecycle stale prepare (topology delay) launch down) = (tr, Some m)"
  shows "RunReceiver \<notin> set tr"
proof -
  let ?before = "stale @ prepare @ topology delay @ launch"
  let ?after = "[RunReceiver, KillSender, WaitSender] @ down @ [CloseTun]"
  have "lifecycle stale prepare (topology delay) launch down = ?before @ map BestEffort ?after"
    by (simp add: lifecycle_def shut_down_def)
  then have "prefix tr (map step_action ?before)" using run_sim_fatal_before assms by metis
  then have "set tr \<subseteq> step_action ` set ?before" using set_mono_prefix by fastforce
  then show ?thesis using not_receiving by blast
qed

lemma tears_down:
  assumes "run_sim H [] (lifecycle stale prepare (topology delay) launch down) = (tr, fatal)"
  shows "(fatal = None \<longrightarrow>
           (\<forall>(c, r)\<in>set created. subseq [r, c, RunReceiver, KillSender, WaitSender, r, CloseTun] tr))
    \<and> (fatal \<noteq> None \<longrightarrow> RunReceiver \<notin> set tr)"
proof (cases fatal)
  case None
  then have "tr = map step_action (lifecycle stale prepare (topology delay) launch down)"
    using run_sim_ok assms by fastforce
  then show ?thesis using None removed_in_order by auto
qed (use fatal_early assms in blast)

end

end
