(* ===== verification/Iflat_Sim.thy ===== *)
theory Iflat_Sim
  imports Wire Iflat_Ebpf Sim_Host
begin

text \<open>
  The traffic simulator of \<open>iflat\<close> (\<open>src/bpfagent/examples/iflat_sim.rs\<close>): the sender, which
  rotates through UDP, crafted TCP and crafted ICMP packets, the receiver, which reads them back
  behind the NAT and prints the latency it sees, and the set-up and tear-down of the topology.
  Random numbers and clock readings are arguments; the kernel between the two ends is described
  by what it may rewrite in a packet.

  Shown: crafted packets are never written outside the buffer and their checksums verify; every
  packet the sender emits is recognised behind the NAT, by the receiver and by the agent, under
  the same tag; the latency the agent measures is never above the one the simulator prints; the
  printed statistics are those of the latencies seen; what a run creates it removes.
\<close>

unbundle bit_operations_syntax

definition DEST_IP :: "u8 list" where "DEST_IP = [10, 200, 0, 2]"
definition DEST_PORT :: u16 where "DEST_PORT = 5000"
definition TCP_DEST_PORT :: u16 where "TCP_DEST_PORT = 5001"
definition VETH_NS_IP_OCTETS :: "u8 list" where "VETH_NS_IP_OCTETS = [192, 168, 100, 2]"
definition MSG_SIZE :: nat where "MSG_SIZE = 64"

lemmas sim_consts = DEST_IP_def DEST_PORT_def TCP_DEST_PORT_def VETH_NS_IP_OCTETS_def MSG_SIZE_def


section \<open>Crafted packets\<close>

definition tcp_checksum :: "u8 list \<Rightarrow> u8 list \<Rightarrow> u8 list \<Rightarrow> u16 option" where
  "tcp_checksum src_ip dst_ip segment =
     (let acc = add_checksum_words 0 src_ip;
          acc = add_checksum_words acc dst_ip;
          acc = acc + ucast IPPROTO_TCP;
          acc = acc + of_nat (length segment);
          acc = add_checksum_words acc segment
      in fold_checksum acc)"

text \<open>The writes of the IPv4 header, which both functions share.\<close>

definition ip_header_writes :: "nat \<Rightarrow> u8 \<Rightarrow> (nat \<times> u8 list) list" where
  "ip_header_writes total_len protocol =
     [(0, [0x45]), (1, [0]), (2, to_be_bytes 2 (of_nat total_len :: u16)), (4, to_be_bytes 2 (0 :: u16)),
      (6, to_be_bytes 2 (0x4000 :: u16)), (8, [64]), (9, [protocol]), (10, to_be_bytes 2 (0 :: u16)),
      (12, VETH_NS_IP_OCTETS), (16, DEST_IP)]"

definition payload_writes :: "nat \<Rightarrow> u32 \<Rightarrow> u64 \<Rightarrow> (nat \<times> u8 list) list" where
  "payload_writes payload tag sent_ns =
     [(payload, to_be_bytes 4 tag), (payload + 4, to_be_bytes 8 sent_ns)]"

definition craft_tcp_segment :: "u16 \<Rightarrow> u32 \<Rightarrow> u8 list \<Rightarrow> u32 \<Rightarrow> u64 \<Rightarrow> (nat \<times> u8 list) option" where
  "craft_tcp_segment rnd_port rnd_seq pkt tag sent_ns =
     (let ip_hlen = 20; tcp_hlen = 20; total_len = ip_hlen + tcp_hlen + MSG_SIZE;
          tcp = ip_hlen; sport = rnd_port OR 0x4000; payload = tcp + tcp_hlen
      in do {
        pkt \<leftarrow> put_all pkt (ip_header_writes total_len IPPROTO_TCP);
        pkt \<leftarrow> put_all pkt
          [(tcp, to_be_bytes 2 sport), (tcp + 2, to_be_bytes 2 TCP_DEST_PORT), (tcp + 4, to_be_bytes 4 rnd_seq),
           (tcp + 8, to_be_bytes 4 (0 :: u32)), (tcp + 12, [push_bit 4 (of_nat (tcp_hlen div 4))]),
           (tcp + 13, [0x02]), (tcp + 14, to_be_bytes 2 (64240 :: u16)), (tcp + 16, to_be_bytes 2 (0 :: u16)),
           (tcp + 18, to_be_bytes 2 (0 :: u16))];
        pkt \<leftarrow> put_all pkt (payload_writes payload tag sent_ns);
        segment \<leftarrow> get_slice pkt tcp (tcp + tcp_hlen + MSG_SIZE);
        cksum \<leftarrow> tcp_checksum VETH_NS_IP_OCTETS DEST_IP segment;
        pkt \<leftarrow> put_at pkt (tcp + 16) (to_be_bytes 2 cksum);
        Some (total_len, pkt)
      })"

definition craft_icmp_echo :: "u16 \<Rightarrow> u8 list \<Rightarrow> u32 \<Rightarrow> u64 \<Rightarrow> u16 \<Rightarrow> (nat \<times> u8 list) option" where
  "craft_icmp_echo rnd_id pkt tag sent_ns seq =
     (let ip_hlen = 20; icmp_hlen = 8; total_len = ip_hlen + icmp_hlen + MSG_SIZE;
          icmp = ip_hlen; payload = icmp + icmp_hlen
      in do {
        pkt \<leftarrow> put_all pkt (ip_header_writes total_len IPPROTO_ICMP);
        pkt \<leftarrow> put_all pkt
          [(icmp, [ICMP_ECHO]), (icmp + 1, [0]), (icmp + 2, to_be_bytes 2 (0 :: u16)),
           (icmp + 4, to_be_bytes 2 rnd_id), (icmp + 6, to_be_bytes 2 seq)];
        pkt \<leftarrow> put_all pkt (payload_writes payload tag sent_ns);
        message \<leftarrow> get_slice pkt icmp (icmp + icmp_hlen + MSG_SIZE);
        cksum \<leftarrow> internet_checksum message;
        pkt \<leftarrow> put_at pkt (icmp + 2) (to_be_bytes 2 cksum);
        Some (total_len, pkt)
      })"

section \<open>The sender\<close>

text \<open>
  The random numbers and the clock reading of one cycle. \<open>SendUdp\<close> is \<open>udp.send_to(&buf, DEST)\<close>,
  \<open>SendRaw\<close> is \<open>sendto()\<close> of the first \<open>len\<close> bytes on the raw socket; a failed send is only
  logged.
\<close>

record draw =
  drawn_tag :: u32
  drawn_ns :: u64
  drawn_port :: u16
  drawn_seq :: u32
  drawn_id :: u16

datatype emission = SendUdp "u8 list" | SendRaw "u8 list"
datatype sender_output = Emit emission | DatagramsSent u64

definition sender_cycle :: "u64 \<Rightarrow> draw \<Rightarrow> emission option" where
  "sender_cycle cycle d =
     (if cycle mod 3 = 0 then do {
        buf \<leftarrow> put_at (replicate MSG_SIZE 0) 0 (to_be_bytes 4 (drawn_tag d));
        buf \<leftarrow> put_at buf 4 (to_be_bytes 8 (drawn_ns d));
        Some (SendUdp buf)
      }
      else do {
        (len, pkt) \<leftarrow>
          (if cycle mod 3 = 1
           then craft_tcp_segment (drawn_port d) (drawn_seq d) (replicate 128 0) (drawn_tag d) (drawn_ns d)
           else craft_icmp_echo (drawn_id d) (replicate 128 0) (drawn_tag d) (drawn_ns d) (ucast cycle));
        Some (SendRaw (take len pkt))
      })"

fun sender_loop :: "u64 \<Rightarrow> draw list \<Rightarrow> sender_output list option" where
  "sender_loop cycle [] = Some []"
| "sender_loop cycle (d # ds) =
     do {
       e \<leftarrow> sender_cycle cycle d;
       let cycle = cycle + 1;
       rest \<leftarrow> sender_loop cycle ds;
       Some (Emit e # (if cycle mod 10 = 0 then [DatagramsSent cycle] else []) @ rest)
     }"

text \<open>The arguments are the outcomes of \<open>bind\<close> and \<open>socket\<close>; an error is fatal.\<close>

definition run_sender :: "string option \<Rightarrow> string option \<Rightarrow> draw list \<Rightarrow> string + sender_output list option" where
  "run_sender udp_error raw_error ds =
     (case udp_error of
        Some e \<Rightarrow> Inl (''sender UDP bind failed: '' @ e)
      | None \<Rightarrow>
          (case raw_error of
             Some e \<Rightarrow> Inl (''sender raw socket() failed (need root/CAP_NET_RAW): '' @ e)
           | None \<Rightarrow> Inr (sender_loop 0 ds)))"


section \<open>The receiver\<close>

definition parse_packet :: "u8 list \<Rightarrow> (u32 \<times> u64 \<times> string) option" where
  "parse_packet pkt =
     do {
       version_ihl \<leftarrow> deref pkt 0;
       if drop_bit 4 version_ihl \<noteq> 4 then None
       else do {
         let ihl = unat (version_ihl AND 0x0f) * 4;
         if ihl < 20 then None
         else do {
           dest \<leftarrow> get_slice pkt 16 20;
           if dest \<noteq> DEST_IP then None
           else do {
             protocol \<leftarrow> deref pkt 9;
             (l4_hlen, name) \<leftarrow>
               (if protocol = IPPROTO_UDP then do {
                  port \<leftarrow> get_slice pkt (ihl + 2) (ihl + 4);
                  if from_be_bytes port = DEST_PORT then Some (8, ''udp'') else None
                }
                else if protocol = IPPROTO_TCP then do {
                  port \<leftarrow> get_slice pkt (ihl + 2) (ihl + 4);
                  if from_be_bytes port = TCP_DEST_PORT then do {
                    data_offset \<leftarrow> deref pkt (ihl + 12);
                    let hlen = unat (drop_bit 4 data_offset) * 4;
                    if hlen < 20 then None else Some (hlen, ''tcp'')
                  }
                  else None
                }
                else if protocol = IPPROTO_ICMP then do {
                  icmp_type \<leftarrow> deref pkt ihl;
                  if icmp_type = ICMP_ECHO then Some (8, ''icmp'') else None
                }
                else None);
             payload \<leftarrow> get_slice pkt (ihl + l4_hlen) (length pkt);
             tag \<leftarrow> get_slice payload 0 4;
             ts \<leftarrow> get_slice payload 4 12;
             Some (from_be_bytes tag, from_be_bytes ts, name)
           }
         }
       }
     }"

text \<open>
  One turn of the loop of \<open>run_receiver\<close>: \<open>poll()\<close> timed out, \<open>read()\<close> returned nothing, or it
  returned a packet, cut to the size of the buffer, at the given time. A turn yields the line it
  prints; the division by the number of samples panics on zero.
\<close>

record rx_stats =
  rx_samples :: u64
  sum_us :: u64
  min_us :: u64
  max_us :: u64

datatype rx_event = PollIdle | ReadNothing | ReadPacket "u8 list" u64

datatype rx_line = RxLine (line_proto: string) (line_tag: u32) (line_latency: u64) (line_avg: u64) (line_stats: rx_stats)

definition rx_init :: rx_stats where
  "rx_init = \<lparr>rx_samples = 0, sum_us = 0, min_us = 0xffffffffffffffff, max_us = 0\<rparr>"

definition receive_packet :: "rx_stats \<Rightarrow> u8 list \<Rightarrow> u64 \<Rightarrow> (rx_stats \<times> rx_line list) option" where
  "receive_packet s pkt now =
     (case parse_packet (take 2048 pkt) of
        None \<Rightarrow> Some (s, [])
      | Some (tag, sent_ns, proto) \<Rightarrow>
          (let latency_us = saturating_sub now sent_ns div 1000;
               s = \<lparr>rx_samples = rx_samples s + 1, sum_us = sum_us s + latency_us,
                    min_us = min (min_us s) latency_us, max_us = max (max_us s) latency_us\<rparr>
           in do {
             avg \<leftarrow> checked_div (sum_us s) (rx_samples s);
             Some (s, [RxLine proto tag latency_us avg s])
           }))"

fun run_receiver :: "rx_stats \<Rightarrow> rx_event list \<Rightarrow> (rx_stats \<times> rx_line list) option" where
  "run_receiver s [] = Some (s, [])"
| "run_receiver s (PollIdle # es) = run_receiver s es"
| "run_receiver s (ReadNothing # es) = run_receiver s es"
| "run_receiver s (ReadPacket pkt now # es) =
     do {
       (s, out) \<leftarrow> receive_packet s pkt now;
       (s, rest) \<leftarrow> run_receiver s es;
       Some (s, out @ rest)
     }"


section \<open>Topology\<close>

definition NETNS :: string where "NETNS = ''iflat-sim''"
definition VETH_HOST :: string where "VETH_HOST = ''veth-iflat0''"
definition VETH_NS :: string where "VETH_NS = ''veth-iflat1''"
definition VETH_HOST_IP :: string where "VETH_HOST_IP = ''192.168.100.1''"
definition VETH_NS_IP :: string where "VETH_NS_IP = ''192.168.100.2''"
definition TUN_IP :: string where "TUN_IP = ''10.200.0.1''"
definition NFT_TABLE :: string where "NFT_TABLE = ''iflat-sim''"

definition cleanup_stale :: "sim_step list" where
  "cleanup_stale =
     [run_ignore ''nft'' [''delete'', ''table'', ''inet'', NFT_TABLE],
      run_ignore ''ip'' [''netns'', ''delete'', NETNS],
      run_ignore ''ip'' [''link'', ''delete'', VETH_HOST]]"

definition setup_topology :: "u64 \<Rightarrow> sim_step list" where
  "setup_topology netem_delay_ms =
     [run ''ip'' [''netns'', ''add'', NETNS],
      run ''ip'' [''link'', ''add'', VETH_HOST, ''type'', ''veth'', ''peer'', ''name'', VETH_NS],
      run ''ip'' [''link'', ''set'', VETH_NS, ''netns'', NETNS],
      run ''ip'' [''addr'', ''add'', VETH_HOST_IP @ ''/24'', ''dev'', VETH_HOST],
      run ''ip'' [''link'', ''set'', VETH_HOST, ''up''],
      run ''ip'' [''netns'', ''exec'', NETNS, ''ip'', ''link'', ''set'', ''lo'', ''up''],
      run ''ip'' [''netns'', ''exec'', NETNS, ''ip'', ''addr'', ''add'', VETH_NS_IP @ ''/24'', ''dev'', VETH_NS],
      run ''ip'' [''netns'', ''exec'', NETNS, ''ip'', ''link'', ''set'', VETH_NS, ''up''],
      run ''ip'' [''netns'', ''exec'', NETNS, ''ip'', ''route'', ''add'', ''default'', ''via'', VETH_HOST_IP]]
   @ (if 0 < netem_delay_ms
      then [run ''ip'' [''netns'', ''exec'', NETNS, ''tc'', ''qdisc'', ''add'', ''dev'', VETH_NS, ''root'',
                        ''netem'', ''delay'', to_string netem_delay_ms @ ''ms'']]
      else [])
   @ [Require (WriteSysctl ''/proc/sys/net/ipv4/ip_forward'' [CHR ''1'', CHR 0x0A])
        (\<lambda>r. ''failed to enable ip_forward: '' @ response_text r),
      run ''nft'' [''add'', ''table'', ''inet'', NFT_TABLE],
      run ''nft'' [''add chain inet '' @ NFT_TABLE
                   @ '' postrouting { type nat hook postrouting priority 100 ; }''],
      run ''nft'' [''add rule inet '' @ NFT_TABLE
                   @ '' postrouting oifname '' @ [CHR 0x22] @ ''tun0'' @ [CHR 0x22] @ '' masquerade'']]"

definition teardown :: "sim_step list" where
  "teardown =
     [run_ignore ''nft'' [''delete'', ''table'', ''inet'', NFT_TABLE],
      run_ignore ''ip'' [''netns'', ''delete'', NETNS]]"

definition main_steps :: "u64 \<Rightarrow> sim_step list" where
  "main_steps netem_delay_ms =
     cleanup_stale
   @ create_tun ''tun0''
   @ [run ''ip'' [''addr'', ''add'', TUN_IP @ ''/24'', ''dev'', ''tun0''],
      run ''ip'' [''link'', ''set'', ''tun0'', ''up'']]
   @ setup_topology netem_delay_ms
   @ spawn_sender NETNS
   @ [BestEffort RunReceiver]
   @ shut_down teardown"

definition main :: "host \<Rightarrow> bool \<Rightarrow> string list \<Rightarrow> (host_action list \<times> string option) sim_main" where
  "main = simulator_main ''must run as root (creates netns/veth/tun and nftables rules)'' main_steps"


section \<open>What is crafted\<close>

text \<open>What the two functions build: the headers, and the payload with the tag and the time.\<close>

definition crafted_ip :: "nat \<Rightarrow> u8 \<Rightarrow> u8 list" where
  "crafted_ip total_len protocol = concat (map snd (ip_header_writes total_len protocol))"

definition crafted_tcp :: "u16 \<Rightarrow> u32 \<Rightarrow> u16 \<Rightarrow> u8 list" where
  "crafted_tcp rnd_port rnd_seq cksum =
     to_be_bytes 2 (rnd_port OR 0x4000) @ to_be_bytes 2 TCP_DEST_PORT @ to_be_bytes 4 rnd_seq
     @ to_be_bytes 4 (0 :: u32) @ [0x50, 0x02] @ to_be_bytes 2 (64240 :: u16) @ to_be_bytes 2 cksum @ [0, 0]"

definition crafted_icmp :: "u16 \<Rightarrow> u16 \<Rightarrow> u16 \<Rightarrow> u8 list" where
  "crafted_icmp rnd_id seq cksum = [ICMP_ECHO, 0] @ to_be_bytes 2 cksum @ to_be_bytes 2 rnd_id @ to_be_bytes 2 seq"

definition crafted_payload :: "u32 \<Rightarrow> u64 \<Rightarrow> u8 list \<Rightarrow> u8 list" where
  "crafted_payload tag sent_ns filler = to_be_bytes 4 tag @ to_be_bytes 8 sent_ns @ filler"

lemma length_crafted [simp]:
  "length (crafted_ip total_len protocol) = 20"
  "length (crafted_tcp rnd_port rnd_seq c) = 20"
  "length (crafted_icmp rnd_id seq c) = 8"
  "length (crafted_payload tag sent_ns filler) = 12 + length filler"
  by (simp_all add: crafted_ip_def ip_header_writes_def crafted_tcp_def crafted_icmp_def
      crafted_payload_def sim_consts)

definition tcp_writes :: "u16 \<Rightarrow> u32 \<Rightarrow> (nat \<times> u8 list) list" where
  "tcp_writes rnd_port rnd_seq =
     [(20, to_be_bytes 2 (rnd_port OR 0x4000)), (22, to_be_bytes 2 TCP_DEST_PORT), (24, to_be_bytes 4 rnd_seq),
      (28, to_be_bytes 4 (0 :: u32)), (32, [0x50]), (33, [0x02]), (34, to_be_bytes 2 (64240 :: u16)),
      (36, to_be_bytes 2 (0 :: u16)), (38, to_be_bytes 2 (0 :: u16))]"

definition icmp_writes :: "u16 \<Rightarrow> u16 \<Rightarrow> (nat \<times> u8 list) list" where
  "icmp_writes rnd_id seq =
     [(20, [ICMP_ECHO]), (21, [0]), (22, to_be_bytes 2 (0 :: u16)), (24, to_be_bytes 2 rnd_id),
      (26, to_be_bytes 2 seq)]"

lemma tcp_written:
  assumes "52 \<le> length pkt"
  shows "put_all pkt (ip_header_writes 104 IPPROTO_TCP @ tcp_writes rnd_port rnd_seq @ payload_writes 40 tag sent_ns)
    = Some (crafted_ip 104 IPPROTO_TCP @ crafted_tcp rnd_port rnd_seq 0
            @ crafted_payload tag sent_ns (take 52 (drop 52 pkt)) @ drop 104 pkt)"
proof -
  let ?ws = "ip_header_writes 104 IPPROTO_TCP @ tcp_writes rnd_port rnd_seq @ payload_writes 40 tag sent_ns"
  have "contiguous 0 ?ws" by (simp add: ip_header_writes_def tcp_writes_def payload_writes_def sim_consts)
  moreover have cat: "concat (map snd ?ws)
      = crafted_ip 104 IPPROTO_TCP @ crafted_tcp rnd_port rnd_seq 0 @ crafted_payload tag sent_ns []"
    by (simp add: crafted_ip_def tcp_writes_def crafted_tcp_def payload_writes_def crafted_payload_def
        to_be_bytes_zero eval_nat_numeral)
  moreover have "length (concat (map snd ?ws)) = 52" unfolding cat by simp
  ultimately show ?thesis
    using assms put_all_prefix [of ?ws 52 pkt 52] by (simp add: crafted_payload_def)
qed

lemma icmp_written:
  assumes "40 \<le> length pkt"
  shows "put_all pkt (ip_header_writes 92 IPPROTO_ICMP @ icmp_writes rnd_id seq @ payload_writes 28 tag sent_ns)
    = Some (crafted_ip 92 IPPROTO_ICMP @ crafted_icmp rnd_id seq 0
            @ crafted_payload tag sent_ns (take 52 (drop 40 pkt)) @ drop 92 pkt)"
proof -
  let ?ws = "ip_header_writes 92 IPPROTO_ICMP @ icmp_writes rnd_id seq @ payload_writes 28 tag sent_ns"
  have "contiguous 0 ?ws" by (simp add: ip_header_writes_def icmp_writes_def payload_writes_def sim_consts)
  moreover have cat: "concat (map snd ?ws)
      = crafted_ip 92 IPPROTO_ICMP @ crafted_icmp rnd_id seq 0 @ crafted_payload tag sent_ns []"
    by (simp add: crafted_ip_def icmp_writes_def crafted_icmp_def payload_writes_def crafted_payload_def
        to_be_bytes_zero eval_nat_numeral)
  moreover have "length (concat (map snd ?ws)) = 40" unfolding cat by simp
  ultimately show ?thesis
    using assms put_all_prefix [of ?ws 40 pkt 52] by (simp add: crafted_payload_def)
qed

text \<open>The crafted packets, on every buffer that can hold them.\<close>

lemma checksums_exist:
  "\<exists>c. tcp_checksum src dst seg = Some c" "\<exists>c. internet_checksum seg = Some c"
  by (simp_all add: tcp_checksum_def internet_checksum_def fold_checksum_eq Let_def)

lemma craft_tcp_segment_eq:
  assumes "104 \<le> length pkt" and payload_def: "payload = crafted_payload tag sent_ns (take 52 (drop 52 pkt))"
  shows "\<exists>c. tcp_checksum VETH_NS_IP_OCTETS DEST_IP (crafted_tcp rnd_port rnd_seq 0 @ payload) = Some c
    \<and> craft_tcp_segment rnd_port rnd_seq pkt tag sent_ns
        = Some (104, crafted_ip 104 IPPROTO_TCP @ crafted_tcp rnd_port rnd_seq c @ payload @ drop 104 pkt)"
proof -
  obtain c where c: "tcp_checksum VETH_NS_IP_OCTETS DEST_IP (crafted_tcp rnd_port rnd_seq 0 @ payload) = Some c"
    using checksums_exist by blast
  let ?ip = "crafted_ip 104 IPPROTO_TCP" and ?tcp = "crafted_tcp rnd_port rnd_seq"
  have len: "length payload = 64" using assms(1) by (simp add: payload_def)
  have slice: "get_slice (?ip @ ?tcp 0 @ payload @ drop 104 pkt) 20 104 = Some (?tcp 0 @ payload)"
    using get_slice_middle [of ?ip 20 "?tcp 0 @ payload" 84 "drop 104 pkt"] len by simp
  have put: "put_at (?ip @ ?tcp 0 @ payload @ drop 104 pkt) 36 (to_be_bytes 2 c) = Some (?ip @ ?tcp c @ payload @ drop 104 pkt)"
    using put_at_replace [of "?ip @ take 16 (?tcp 0)" 36 "to_be_bytes 2 (0 :: u16)" "to_be_bytes 2 c" "[0, 0] @ payload @ drop 104 pkt"]
    by (simp add: crafted_tcp_def)
  have "put_all pkt (ip_header_writes 104 IPPROTO_TCP @ tcp_writes rnd_port rnd_seq @ payload_writes 40 tag sent_ns)
    = Some (?ip @ ?tcp 0 @ payload @ drop 104 pkt)"
    using assms(1) tcp_written [of pkt] by (simp add: payload_def)
  moreover have "craft_tcp_segment rnd_port rnd_seq pkt tag sent_ns =
      do {
        pkt \<leftarrow> put_all pkt (ip_header_writes 104 IPPROTO_TCP @ tcp_writes rnd_port rnd_seq @ payload_writes 40 tag sent_ns);
        segment \<leftarrow> get_slice pkt 20 104;
        cksum \<leftarrow> tcp_checksum VETH_NS_IP_OCTETS DEST_IP segment;
        pkt \<leftarrow> put_at pkt 36 (to_be_bytes 2 cksum);
        Some (104, pkt)
      }"
    by (simp add: craft_tcp_segment_def MSG_SIZE_def put_all_append tcp_writes_def)
  ultimately show ?thesis using slice put c by simp
qed

lemma craft_icmp_echo_eq:
  assumes "92 \<le> length pkt" and payload_def: "payload = crafted_payload tag sent_ns (take 52 (drop 40 pkt))"
  shows "\<exists>c. internet_checksum (crafted_icmp rnd_id seq 0 @ payload) = Some c
    \<and> craft_icmp_echo rnd_id pkt tag sent_ns seq
        = Some (92, crafted_ip 92 IPPROTO_ICMP @ crafted_icmp rnd_id seq c @ payload @ drop 92 pkt)"
proof -
  obtain c where c: "internet_checksum (crafted_icmp rnd_id seq 0 @ payload) = Some c"
    using checksums_exist by blast
  let ?ip = "crafted_ip 92 IPPROTO_ICMP" and ?icmp = "crafted_icmp rnd_id seq"
  have len: "length payload = 64" using assms(1) by (simp add: payload_def)
  have slice: "get_slice (?ip @ ?icmp 0 @ payload @ drop 92 pkt) 20 92 = Some (?icmp 0 @ payload)"
    using get_slice_middle [of ?ip 20 "?icmp 0 @ payload" 72 "drop 92 pkt"] len by simp
  have put: "put_at (?ip @ ?icmp 0 @ payload @ drop 92 pkt) 22 (to_be_bytes 2 c) = Some (?ip @ ?icmp c @ payload @ drop 92 pkt)"
    using put_at_replace [of "?ip @ [ICMP_ECHO, 0]" 22 "to_be_bytes 2 (0 :: u16)" "to_be_bytes 2 c"
        "to_be_bytes 2 rnd_id @ to_be_bytes 2 seq @ payload @ drop 92 pkt"]
    by (simp add: crafted_icmp_def)
  have "put_all pkt (ip_header_writes 92 IPPROTO_ICMP @ icmp_writes rnd_id seq @ payload_writes 28 tag sent_ns)
    = Some (?ip @ ?icmp 0 @ payload @ drop 92 pkt)"
    using assms(1) icmp_written [of pkt] by (simp add: payload_def)
  moreover have "craft_icmp_echo rnd_id pkt tag sent_ns seq =
      do {
        pkt \<leftarrow> put_all pkt (ip_header_writes 92 IPPROTO_ICMP @ icmp_writes rnd_id seq @ payload_writes 28 tag sent_ns);
        message \<leftarrow> get_slice pkt 20 92;
        cksum \<leftarrow> internet_checksum message;
        pkt \<leftarrow> put_at pkt 22 (to_be_bytes 2 cksum);
        Some (92, pkt)
      }"
    by (simp add: craft_icmp_echo_def MSG_SIZE_def put_all_append icmp_writes_def)
  ultimately show ?thesis using slice put c by simp
qed

text \<open>The checksums in the packets verify, as the receiving side computes them.\<close>

lemma tcp_checksum_alt:
  "tcp_checksum src dst seg = fold_checksum (add_checksum_words
     (add_checksum_words (add_checksum_words 0 src) dst + ucast IPPROTO_TCP + of_nat (length seg)) seg)"
  by (simp add: tcp_checksum_def Let_def)

lemma crafted_tcp_verifies:
  assumes "tcp_checksum VETH_NS_IP_OCTETS DEST_IP (crafted_tcp rnd_port rnd_seq 0 @ payload) = Some c"
    and "length payload = 64"
  shows "tcp_checksum VETH_NS_IP_OCTETS DEST_IP (crafted_tcp rnd_port rnd_seq c @ payload) = Some 0"
proof -
  let ?s = "add_checksum_words (add_checksum_words 0 VETH_NS_IP_OCTETS) DEST_IP + ucast IPPROTO_TCP + of_nat 84 :: u32"
  let ?pre = "take 16 (crafted_tcp rnd_port rnd_seq 0)"
  have s: "unat ?s \<le> 100000"
    by (simp add: sim_consts iflat_consts from_be_bytes_def push_byte_def)
  have split: "crafted_tcp rnd_port rnd_seq k @ payload = ?pre @ to_be_bytes 2 k @ ([0, 0] @ payload)" for k
    by (simp add: crafted_tcp_def)
  have "fold_checksum (add_checksum_words ?s (?pre @ [0, 0] @ ([0, 0] @ payload))) = Some c"
    using assms split [of 0] by (simp add: tcp_checksum_alt to_be_bytes_zero numeral_2_eq_2)
  then have "fold_checksum (add_checksum_words ?s (?pre @ to_be_bytes 2 c @ ([0, 0] @ payload))) = Some 0"
    using s assms(2) word_sum_bound [of "?pre @ [0, 0] @ [0, 0] @ payload"] by (intro checksum_verifies) simp_all
  then show ?thesis using assms(2) by (simp add: tcp_checksum_alt split [of c])
qed

lemma crafted_icmp_verifies:
  assumes "internet_checksum (crafted_icmp rnd_id seq 0 @ payload) = Some c" and "length payload = 64"
  shows "internet_checksum (crafted_icmp rnd_id seq c @ payload) = Some 0"
proof -
  let ?post = "to_be_bytes 2 rnd_id @ to_be_bytes 2 seq @ payload"
  have split: "crafted_icmp rnd_id seq k @ payload = [ICMP_ECHO, 0] @ to_be_bytes 2 k @ ?post" for k
    by (simp add: crafted_icmp_def)
  have "fold_checksum (add_checksum_words 0 ([ICMP_ECHO, 0] @ [0, 0] @ ?post)) = Some c"
    using assms split [of 0] by (simp add: internet_checksum_def to_be_bytes_zero numeral_2_eq_2)
  then have "fold_checksum (add_checksum_words 0 ([ICMP_ECHO, 0] @ to_be_bytes 2 c @ ?post)) = Some 0"
    using assms(2) word_sum_bound [of "[ICMP_ECHO, 0] @ [0, 0] @ ?post"] by (intro checksum_verifies) simp_all
  then show ?thesis by (simp only: internet_checksum_def split)
qed


section \<open>Test packets on their way\<close>

text \<open>
  The headers the sender's packets have: built by the kernel for UDP, crafted for TCP and ICMP.
  On the way the kernel fills in length, identification and checksum of the IP header of raw
  packets (\<open>raw(7)\<close>), and the NAT of the simulated router rewrites TTL, source address and checksums of the IP header, and source port or ICMP
  identifier and checksum of the transport header.
\<close>

definition test_l4 :: "string \<Rightarrow> u8 \<Rightarrow> u8 list \<Rightarrow> bool" where
  "test_l4 name protocol l4 \<longleftrightarrow>
     (if protocol = IPPROTO_UDP
      then name = ''udp'' \<and> length l4 = UDP_HLEN \<and> [l4 ! 2, l4 ! 3] = to_be_bytes 2 DEST_PORT
      else if protocol = IPPROTO_TCP
      then name = ''tcp'' \<and> 20 \<le> length l4 \<and> length l4 = unat (drop_bit 4 (l4 ! 12)) * 4
             \<and> [l4 ! 2, l4 ! 3] = to_be_bytes 2 TCP_DEST_PORT
      else protocol = IPPROTO_ICMP \<and> name = ''icmp'' \<and> length l4 = ICMP_HLEN \<and> l4 ! 0 = ICMP_ECHO)"

definition test_headers :: "string \<Rightarrow> u8 list \<Rightarrow> u8 list \<Rightarrow> bool" where
  "test_headers name ip l4 \<longleftrightarrow>
     ipv4_header ip \<and> take 4 (drop 16 ip) = DEST_IP \<and> test_l4 name (ip ! 9) l4"

definition rewritten :: "nat set \<Rightarrow> u8 list \<Rightarrow> u8 list \<Rightarrow> bool" where
  "rewritten I a b \<longleftrightarrow> length b = length a \<and> (\<forall>i<length a. i \<notin> I \<longrightarrow> b ! i = a ! i)"

definition masqueraded :: "u8 list \<Rightarrow> u8 list \<Rightarrow> u8 list \<Rightarrow> u8 list \<Rightarrow> bool" where
  "masqueraded ip l4 ip' l4' \<longleftrightarrow>
     rewritten {8, 10, 11, 12, 13, 14, 15} ip ip'
     \<and> rewritten (if ip ! 9 = IPPROTO_UDP then {0, 1, 6, 7}
                  else if ip ! 9 = IPPROTO_TCP then {0, 1, 16, 17} else {2, 3, 4, 5}) l4 l4'"

fun on_wire :: "emission \<Rightarrow> u8 list \<Rightarrow> u8 list \<Rightarrow> u8 list \<Rightarrow> bool" where
  "on_wire (SendUdp buf) ip l4 payload \<longleftrightarrow>
     payload = buf \<and> ipv4_header ip \<and> ip ! 9 = IPPROTO_UDP \<and> take 4 (drop 16 ip) = DEST_IP
     \<and> length l4 = 8 \<and> [l4 ! 2, l4 ! 3] = to_be_bytes 2 DEST_PORT"
| "on_wire (SendRaw pkt) ip l4 payload \<longleftrightarrow>
     (\<exists>ip0. pkt = ip0 @ l4 @ payload \<and> rewritten {2, 3, 4, 5, 10, 11} ip0 ip
        \<and> well_formed_datagram ip0 l4 payload)"

lemma rewritten_nth: "rewritten I a b \<Longrightarrow> i < length a \<Longrightarrow> i \<notin> I \<Longrightarrow> b ! i = a ! i"
  by (simp add: rewritten_def)

lemma rewritten_slice:
  assumes "rewritten I a b" and "\<And>i. off \<le> i \<Longrightarrow> i < off + n \<Longrightarrow> i \<notin> I"
  shows "take n (drop off b) = take n (drop off a)"
  using assms by (intro nth_equalityI) (auto simp: rewritten_def)

text \<open>Rewriting outside the fields the parsers look at keeps a test packet one.\<close>

lemma test_l4_rewritten:
  assumes "test_l4 name protocol l4" and "rewritten J l4 l4'"
    and "J \<inter> (if protocol = IPPROTO_UDP \<or> protocol = IPPROTO_TCP then {2, 3, 12} else {0}) = {}"
  shows "test_l4 name protocol l4'"
proof -
  have len: "length l4' = length l4" using assms(2) by (simp add: rewritten_def)
  have l4: "l4' ! i = l4 ! i" if "i < length l4" "i \<notin> J" for i
    using that by (rule rewritten_nth [OF assms(2)])
  have l40: "l4' ! 0 = l4 ! 0" if "length l4 = 8" "0 \<notin> J"
    using that by (intro l4) auto
  show ?thesis
    using assms(1,3) len l40 l4 [of 2] l4 [of 3] l4 [of 12]
    by (cases "protocol = IPPROTO_UDP"; cases "protocol = IPPROTO_TCP") (auto simp: iflat_consts test_l4_def)
qed

lemma test_headers_rewritten:
  assumes "test_headers name ip l4" and "rewritten I ip ip'" and "I \<inter> {0, 9, 16, 17, 18, 19} = {}"
    and "test_l4 name (ip ! 9) l4'"
  shows "test_headers name ip' l4'"
proof -
  have len: "20 \<le> length ip" "length ip' = length ip"
    using assms(1,2) by (simp_all add: test_headers_def ipv4_header_def rewritten_def)
  then have ip: "ip' ! 0 = ip ! 0" "ip' ! 9 = ip ! 9"
    using assms(3) by (intro rewritten_nth [OF assms(2)]; force)+
  have dest: "take 4 (drop 16 ip') = take 4 (drop 16 ip)"
  proof (rule rewritten_slice [OF assms(2)])
    fix i :: nat assume "16 \<le> i" "i < 16 + 4"
    then have "i = 16 \<or> i = 17 \<or> i = 18 \<or> i = 19" by linarith
    then show "i \<notin> I" using assms(3) by blast
  qed
  show ?thesis
    using assms(1,4) len ip dest by (simp add: test_headers_def ipv4_header_def)
qed

lemma test_headers_masqueraded:
  assumes "test_headers name ip l4" and "masqueraded ip l4 ip' l4'"
  shows "test_headers name ip' l4'"
proof (rule test_headers_rewritten [OF assms(1)])
  show "rewritten {8, 10, 11, 12, 13, 14, 15} ip ip'" using assms(2) by (simp add: masqueraded_def)
  show "test_l4 name (ip ! 9) l4'"
  proof (rule test_l4_rewritten)
    show "test_l4 name (ip ! 9) l4" using assms(1) by (simp add: test_headers_def)
    show "rewritten (if ip ! 9 = IPPROTO_UDP then {0, 1, 6, 7}
                  else if ip ! 9 = IPPROTO_TCP then {0, 1, 16, 17} else {2, 3, 4, 5}) l4 l4'"
      using assms(2) by (simp add: masqueraded_def)
  qed simp
qed simp

lemma test_headers_well_formed:
  "test_headers name ip l4 \<Longrightarrow> 4 \<le> length payload \<Longrightarrow> well_formed_datagram ip l4 payload"
  by (auto simp: test_headers_def test_l4_def well_formed_datagram_def l4_header_def KEY_SIZE_def split: if_splits)

lemma crafted_test_headers:
  "test_headers ''tcp'' (crafted_ip n IPPROTO_TCP) (crafted_tcp rnd_port rnd_seq c)"
  "test_headers ''icmp'' (crafted_ip n IPPROTO_ICMP) (crafted_icmp rnd_id seq c)"
  by (simp_all add: test_headers_def test_l4_def ipv4_header_def crafted_ip_def ip_header_writes_def
      crafted_tcp_def crafted_icmp_def to_be_bytes_2 to_be_bytes_zero sim_consts iflat_consts nth_append)

text \<open>A packet is a datagram in one way only.\<close>

lemma datagram_unique:
  assumes "ip @ l4 @ payload = ip' @ l4' @ payload'"
    and "well_formed_datagram ip l4 payload" and "well_formed_datagram ip' l4' payload'"
  shows "ip = ip' \<and> l4 = l4' \<and> payload = payload'"
proof -
  have ne: "ip \<noteq> []" "ip' \<noteq> []" using assms(2,3) by (auto simp: well_formed_datagram_def ipv4_header_def)
  then have "ip ! 0 = ip' ! 0" using arg_cong [OF assms(1), of "\<lambda>p. p ! 0"] by (simp add: nth_append)
  then have "length ip = length ip'" using assms(2,3) by (simp add: well_formed_datagram_def ipv4_header_def)
  then have ip: "ip = ip'" and rest: "l4 @ payload = l4' @ payload'" using assms(1) by simp_all
  have "length l4 = length l4'"
    using assms(2,3) ip arg_cong [OF rest, of "\<lambda>p. p ! 12"]
    by (auto simp: well_formed_datagram_def l4_header_def iflat_consts nth_append)
  then show ?thesis using ip rest by simp
qed

lemma parse_packet_test:
  assumes "test_headers name ip l4" and "payload = crafted_payload tag sent_ns filler"
  shows "parse_packet (ip @ l4 @ payload) = Some (tag, sent_ns, name)"
proof -
  have ip: "20 \<le> length ip" "drop_bit 4 (ip ! 0) = 4" "unat (ip ! 0 AND 0x0f) * 4 = length ip" "take 4 (drop 16 ip) = DEST_IP"
    using assms(1) by (simp_all add: test_headers_def ipv4_header_def)
  let ?p = "ip @ l4 @ payload"
  have head: "deref ?p 0 = Some (ip ! 0)" "deref ?p 9 = Some (ip ! 9)" "get_slice ?p 16 20 = Some DEST_IP"
    using ip by (auto simp: deref_def nth_append get_slice_def)
  have pay: "get_slice ?p (length ip + length l4) (length ?p) = Some payload"
    using get_slice_middle [of "ip @ l4" "length ip + length l4" payload "length payload" "[]"] by (simp add: add.assoc)
  have fields: "get_slice payload 0 4 = Some (to_be_bytes 4 tag)" "get_slice payload 4 12 = Some (to_be_bytes 8 sent_ns)"
    by (simp_all add: assms(2) crafted_payload_def get_slice_def)
  have l4: "deref ?p (length ip + i) = Some (l4 ! i)" if "i < length l4" for i
    using that by (simp add: deref_def nth_append)
  have port: "get_slice ?p (length ip + 2) (length ip + 4) = Some [l4 ! 2, l4 ! 3]" if "4 \<le> length l4"
    using that by (auto simp: get_slice_def numeral_eq_Suc take_Suc_conv_app_nth)
  have test: "test_l4 name (ip ! 9) l4" using assms(1) by (simp add: test_headers_def)
  consider "ip ! 9 = IPPROTO_UDP" | "ip ! 9 = IPPROTO_TCP" | "ip ! 9 \<noteq> IPPROTO_UDP" "ip ! 9 \<noteq> IPPROTO_TCP" by blast
  then show ?thesis
  proof cases
    case 1
    then show ?thesis using test ip head pay fields port by (simp add: parse_packet_def test_l4_def UDP_HLEN_def)
  next
    case 2
    then have "IPPROTO_TCP \<noteq> IPPROTO_UDP" by (simp add: iflat_consts)
    then show ?thesis using 2 test ip head pay fields port l4 [of 12] by (simp add: parse_packet_def test_l4_def)
  next
    case 3
    then have "deref ?p (length ip) = Some ICMP_ECHO" using test l4 [of 0] by (simp add: test_l4_def iflat_consts)
    then show ?thesis using 3 test ip head pay fields by (simp add: parse_packet_def test_l4_def ICMP_HLEN_def)
  qed
qed

text \<open>Conversely, whatever the receiver takes for a test packet has that tag for the agent too.\<close>

lemma get_slice_eq_Some: "get_slice xs a b = Some ys \<longleftrightarrow> a \<le> b \<and> b \<le> length xs \<and> ys = take (b - a) (drop a xs)"
  by (auto simp: get_slice_def)

lemma parse_packet_agent_tag:
  assumes "parse_packet p = Some (tag, ts, name)"
  shows "iflat_tx_tag p = Some tag"
proof -
  let ?ihl = "unat (p ! 0 AND 0x0f) * 4"
  obtain hlen where len: "20 \<le> length p" and ver: "drop_bit 4 (p ! 0) = 4" "20 \<le> ?ihl"
    and l4: "l4_header_len p ?ihl (p ! 9) = Some (Some hlen)"
    and fits: "?ihl + hlen + 12 \<le> length p"
    and tag: "tag = from_be_bytes (take 4 (drop (?ihl + hlen) p))"
    using assms
    by (auto simp: parse_packet_def get_slice_eq_Some deref_eq_Some_iff l4_header_len_def Let_def iflat_consts
        split: Option.bind_splits if_splits)
  then show ?thesis by (simp add: iflat_tx_tag_def parse_payload_tag_eq KEY_SIZE_def)
qed


section \<open>What the sender emits\<close>

definition cycle_proto :: "u64 \<Rightarrow> string" where
  "cycle_proto cycle = (if cycle mod 3 = 0 then ''udp'' else if cycle mod 3 = 1 then ''tcp'' else ''icmp'')"

definition test_payload :: "u32 \<Rightarrow> u64 \<Rightarrow> u8 list" where
  "test_payload tag sent_ns = crafted_payload tag sent_ns (replicate 52 0)"

lemma length_test_payload [simp]: "length (test_payload tag sent_ns) = 64"
  by (simp add: test_payload_def)

lemma sender_cycle_udp:
  assumes "cycle mod 3 = 0"
  shows "sender_cycle cycle d = Some (SendUdp (test_payload (drawn_tag d) (drawn_ns d)))"
proof -
  have "put_all (replicate 64 0) [(0, to_be_bytes 4 (drawn_tag d)), (4, to_be_bytes 8 (drawn_ns d))]
      = Some (test_payload (drawn_tag d) (drawn_ns d))"
    by (subst put_all_contiguous [of 0]) (simp_all add: test_payload_def crafted_payload_def)
  then show ?thesis using assms by (auto simp: sender_cycle_def MSG_SIZE_def bind_eq_Some_conv)
qed

lemma sender_cycle_tcp:
  assumes "cycle mod 3 = 1"
  shows "\<exists>c. sender_cycle cycle d = Some (SendRaw (crafted_ip 104 IPPROTO_TCP
        @ crafted_tcp (drawn_port d) (drawn_seq d) c @ test_payload (drawn_tag d) (drawn_ns d)))
      \<and> tcp_checksum VETH_NS_IP_OCTETS DEST_IP
          (crafted_tcp (drawn_port d) (drawn_seq d) c @ test_payload (drawn_tag d) (drawn_ns d)) = Some 0"
proof -
  have "test_payload (drawn_tag d) (drawn_ns d)
      = crafted_payload (drawn_tag d) (drawn_ns d) (take 52 (drop 52 (replicate 128 0)))"
    by (simp add: test_payload_def)
  then show ?thesis
    using assms craft_tcp_segment_eq [of "replicate 128 0" _ "drawn_tag d" "drawn_ns d" "drawn_port d" "drawn_seq d"]
      crafted_tcp_verifies [of "drawn_port d" "drawn_seq d" "test_payload (drawn_tag d) (drawn_ns d)"]
    by (auto simp: sender_cycle_def)
qed

lemma sender_cycle_icmp:
  assumes "cycle mod 3 \<noteq> 0" and "cycle mod 3 \<noteq> 1"
  shows "\<exists>c. sender_cycle cycle d = Some (SendRaw (crafted_ip 92 IPPROTO_ICMP
        @ crafted_icmp (drawn_id d) (ucast cycle) c @ test_payload (drawn_tag d) (drawn_ns d)))
      \<and> internet_checksum (crafted_icmp (drawn_id d) (ucast cycle) c @ test_payload (drawn_tag d) (drawn_ns d)) = Some 0"
proof -
  have "test_payload (drawn_tag d) (drawn_ns d)
      = crafted_payload (drawn_tag d) (drawn_ns d) (take 52 (drop 40 (replicate 128 0)))"
    by (simp add: test_payload_def)
  then show ?thesis
    using assms craft_icmp_echo_eq [of "replicate 128 0" _ "drawn_tag d" "drawn_ns d" "drawn_id d" "ucast cycle"]
      crafted_icmp_verifies [of "drawn_id d" "ucast cycle" "test_payload (drawn_tag d) (drawn_ns d)"]
    by (auto simp: sender_cycle_def)
qed

lemma raw_on_wire:
  assumes "on_wire (SendRaw (ip0 @ l40 @ payload0)) ip l4 payload" and "test_headers name ip0 l40"
    and "4 \<le> length payload0"
  shows "test_headers name ip l4 \<and> payload = payload0"
proof -
  obtain ip1 where 1: "ip0 @ l40 @ payload0 = ip1 @ l4 @ payload" "rewritten {2, 3, 4, 5, 10, 11} ip1 ip"
      "well_formed_datagram ip1 l4 payload"
    using assms(1) by auto
  then have eq: "ip1 = ip0" "l4 = l40" "payload = payload0"
    using datagram_unique [OF 1(1) test_headers_well_formed [OF assms(2,3)] 1(3)] by simp_all
  have "test_l4 name (ip0 ! 9) l40" using assms(2) by (simp add: test_headers_def)
  then have "test_headers name ip l40"
    using 1(2) eq test_headers_rewritten [OF assms(2), of "{2, 3, 4, 5, 10, 11}" ip l40] by simp
  then show ?thesis using eq by simp
qed

lemma sender_cycle_on_wire:
  obtains e where "sender_cycle cycle d = Some e"
    and "\<And>ip l4 payload. on_wire e ip l4 payload \<Longrightarrow>
           test_headers (cycle_proto cycle) ip l4 \<and> payload = test_payload (drawn_tag d) (drawn_ns d)"
proof -
  consider "cycle mod 3 = 0" | "cycle mod 3 = 1" | "cycle mod 3 \<noteq> 0" "cycle mod 3 \<noteq> 1" by blast
  then show ?thesis
  proof cases
    case 1
    then show ?thesis using sender_cycle_udp [of cycle d]
      by (intro that) (auto simp: test_headers_def test_l4_def cycle_proto_def UDP_HLEN_def)
  next
    case 2
    then have proto: "cycle_proto cycle = ''tcp''" by (simp add: cycle_proto_def)
    obtain ip0 l40 where "sender_cycle cycle d = Some (SendRaw (ip0 @ l40 @ test_payload (drawn_tag d) (drawn_ns d)))"
        "test_headers ''tcp'' ip0 l40"
      using sender_cycle_tcp [OF 2, of d] crafted_test_headers(1) by blast
    then show ?thesis using raw_on_wire [of ip0 l40] by (intro that) (auto simp: proto simp del: on_wire.simps)
  next
    case 3
    then have proto: "cycle_proto cycle = ''icmp''" by (simp add: cycle_proto_def)
    obtain ip0 l40 where "sender_cycle cycle d = Some (SendRaw (ip0 @ l40 @ test_payload (drawn_tag d) (drawn_ns d)))"
        "test_headers ''icmp'' ip0 l40"
      using sender_cycle_icmp [OF 3, of d] crafted_test_headers(2) by blast
    then show ?thesis using raw_on_wire [of ip0 l40] by (intro that) (auto simp: proto simp del: on_wire.simps)
  qed
qed

text \<open>The fields of a test packet are far below the size of the receiver's buffer.\<close>

lemma test_headers_length:
  assumes "test_headers name ip l4"
  shows "length ip \<le> 60" and "length l4 \<le> 60"
proof -
  have "unat (b AND 0x0f) \<le> 15" and "unat (drop_bit 4 b) \<le> 15" for b :: u8
  proof -
    have "b AND 0x0f \<le> 0x0f" by (rule word_and_le1)
    then show "unat (b AND 0x0f) \<le> 15" by (simp add: word_le_nat_alt)
    show "unat (drop_bit 4 b) \<le> 15"
      using unat_less_exp [of b]
      by (simp only: unsigned_drop_bit_eq) (simp add: drop_bit_eq_div take_bit_eq_mod)
  qed
  then show "length ip \<le> 60" and "length l4 \<le> 60"
    using assms by (auto simp: test_headers_def ipv4_header_def test_l4_def iflat_consts split: if_splits)
qed

lemma receive_test_packet:
  assumes "test_headers name ip l4" and "sent_ns \<le> now" and "rx_samples s + 1 \<noteq> 0"
  shows "\<exists>s' avg. receive_packet s (datagram ip l4 (test_payload tag sent_ns)) now
           = Some (s', [RxLine name tag ((now - sent_ns) div 1000) avg s'])"
proof -
  let ?p = "datagram ip l4 (test_payload tag sent_ns)"
  have "take 2048 ?p = ?p" using test_headers_length [OF assms(1)] by (simp add: datagram_def)
  moreover have "parse_packet ?p = Some (tag, sent_ns, name)"
    using parse_packet_test [OF assms(1)] by (simp add: datagram_def test_payload_def)
  ultimately show ?thesis
    using assms(2,3) by (simp add: receive_packet_def Let_def checked_div_def saturating_sub_def)
qed


section \<open>The printed statistics\<close>

text \<open>The specification: over the latencies of the test packets read so far.\<close>

fun seen_latencies :: "rx_event list \<Rightarrow> u64 list" where
  "seen_latencies [] = []"
| "seen_latencies (ReadPacket pkt now # es) =
     (case parse_packet (take 2048 pkt) of
        None \<Rightarrow> seen_latencies es
      | Some (tag, sent_ns, proto) \<Rightarrow> saturating_sub now sent_ns div 1000 # seen_latencies es)"
| "seen_latencies (_ # es) = seen_latencies es"

definition stats_of :: "u64 list \<Rightarrow> rx_stats" where
  "stats_of ls =
     \<lparr>rx_samples = of_nat (length ls), sum_us = sum_list ls,
      min_us = Min (insert 0xffffffffffffffff (set ls)), max_us = Max (insert 0 (set ls))\<rparr>"

definition prints_prefix :: "u64 list \<Rightarrow> rx_line \<Rightarrow> bool" where
  "prints_prefix ls l \<longleftrightarrow>
     (\<exists>n. 0 < n \<and> n \<le> length ls \<and> line_stats l = stats_of (take n ls)
        \<and> line_avg l = sum_list (take n ls) div of_nat n)"

lemma rx_init_eq: "rx_init = stats_of []"
  by (simp add: rx_init_def stats_of_def)

lemma stats_of_snoc:
  "stats_of (ls @ [l]) =
     \<lparr>rx_samples = rx_samples (stats_of ls) + 1, sum_us = sum_us (stats_of ls) + l,
      min_us = min (min_us (stats_of ls)) l, max_us = max (max_us (stats_of ls)) l\<rparr>"
proof -
  have "Max (insert 0 (insert l (set ls))) = max (Max (insert 0 (set ls))) l"
    and "Min (insert 0xffffffffffffffff (insert l (set ls))) = min (Min (insert 0xffffffffffffffff (set ls))) l"
    by (subst insert_commute, subst Max_insert Min_insert; simp add: max.commute min.commute)+
  then show ?thesis by (simp add: stats_of_def add.commute)
qed

lemma run_receiver_eq:
  assumes "length ls + length (seen_latencies es) < 2 ^ 64"
  shows "\<exists>lines. run_receiver (stats_of ls) es = Some (stats_of (ls @ seen_latencies es), lines)
    \<and> map line_latency lines = seen_latencies es
    \<and> list_all (prints_prefix (ls @ seen_latencies es)) lines"
  using assms
proof (induction es arbitrary: ls)
  case (Cons e es)
  show ?case
  proof (cases "\<exists>pkt now tag sent_ns proto. e = ReadPacket pkt now
      \<and> parse_packet (take 2048 pkt) = Some (tag, sent_ns, proto)")
    case True
    then obtain pkt now tag sent_ns proto where e: "e = ReadPacket pkt now"
        "parse_packet (take 2048 pkt) = Some (tag, sent_ns, proto)" by blast
    define l where "l = saturating_sub now sent_ns div 1000"
    let ?avg = "sum_list (ls @ [l]) div of_nat (Suc (length ls))"
    have room: "length (ls @ [l]) + length (seen_latencies es) < 2 ^ 64" using Cons.prems e by simp
    then have "\<not> 2 ^ 64 dvd Suc (length ls)" by (intro nat_dvd_not_less) simp_all
    then have nz: "of_nat (Suc (length ls)) \<noteq> (0 :: u64)" by (simp only: word_of_nat_eq_0_iff) simp
    have step: "receive_packet (stats_of ls) pkt now
        = Some (stats_of (ls @ [l]), [RxLine proto tag l ?avg (stats_of (ls @ [l]))])"
    proof -
      have "sum_us (stats_of (ls @ [l])) = sum_list (ls @ [l])" "rx_samples (stats_of (ls @ [l])) = of_nat (Suc (length ls))"
        by (simp_all add: stats_of_def)
      then show ?thesis
        using nz e(2) by (simp add: receive_packet_def checked_div_def Let_def flip: l_def stats_of_snoc)
    qed
    have first: "prints_prefix (ls @ l # seen_latencies es) (RxLine proto tag l ?avg (stats_of (ls @ [l])))"
      unfolding prints_prefix_def by (rule exI [of _ "Suc (length ls)"]) simp
    obtain lines where "run_receiver (stats_of (ls @ [l])) es = Some (stats_of ((ls @ [l]) @ seen_latencies es), lines)"
      "map line_latency lines = seen_latencies es"
      "list_all (prints_prefix ((ls @ [l]) @ seen_latencies es)) lines"
      using Cons.IH [OF room] by blast
    then show ?thesis using e step first by (simp add: l_def)
  next
    case False
    then have "run_receiver (stats_of ls) (e # es) = run_receiver (stats_of ls) es"
      and "seen_latencies (e # es) = seen_latencies es"
      by (cases e; force simp: receive_packet_def split: option.splits Option.bind_split)+
    then show ?thesis using Cons by simp
  qed
qed simp

lemma unat_sum_list_words:
  "sum_list (map unat ls) < 2 ^ LENGTH('a) \<Longrightarrow> unat (sum_list (ls :: 'a::len word list)) = sum_list (map unat ls)"
  by (induction ls) (simp_all add: unat_plus_no_overflow)

lemma average_between:
  assumes "ls \<noteq> []" and "sum_list (map unat ls) < 2 ^ 64" and "length ls < 2 ^ 64"
  shows "min_us (stats_of ls) \<le> sum_list ls div of_nat (length ls)
    \<and> sum_list ls div of_nat (length ls) \<le> max_us (stats_of ls)"
proof -
  let ?n = "length ls" and ?S = "sum_list (map unat ls)"
  have avg: "unat (sum_list ls div (of_nat ?n :: u64)) = ?S div ?n"
    using assms by (simp add: unat_div unat_sum_list_words unat_of_nat)
  have "min_us (stats_of ls) \<le> x" and "x \<le> max_us (stats_of ls)" if "x \<in> set ls" for x
    using that by (simp_all add: stats_of_def)
  then have x: "unat (min_us (stats_of ls)) \<le> unat x" "unat x \<le> unat (max_us (stats_of ls))" if "x \<in> set ls" for x
    using that by (simp_all add: word_le_nat_alt)
  have "?n * unat (min_us (stats_of ls)) \<le> ?S"
    using x(1) sum_list_mono [of ls "\<lambda>_. unat (min_us (stats_of ls))" unat] by (simp add: sum_list_triv)
  moreover have "?S \<le> ?n * unat (max_us (stats_of ls))"
    using x(2) sum_list_mono [of ls unat "\<lambda>_. unat (max_us (stats_of ls))"] by (simp add: sum_list_triv)
  ultimately have "unat (min_us (stats_of ls)) \<le> ?S div ?n" and "?S div ?n \<le> unat (max_us (stats_of ls))"
    using assms(1) div_le_mono [of "?n * unat (min_us (stats_of ls))" ?S ?n]
      div_le_mono [of ?S "?n * unat (max_us (stats_of ls))" ?n] by simp_all
  then show ?thesis by (simp add: word_le_nat_alt avg)
qed


section \<open>Set-up and tear-down\<close>

text \<open>What the simulator creates outside its own process, with what removes it.\<close>

definition created :: "(host_action \<times> host_action) list" where
  "created =
     [(HostCommand ''ip'' [''netns'', ''add'', NETNS], HostCommand ''ip'' [''netns'', ''delete'', NETNS]),
      (HostCommand ''nft'' [''add'', ''table'', ''inet'', NFT_TABLE],
       HostCommand ''nft'' [''delete'', ''table'', ''inet'', NFT_TABLE])]"

definition main_actions :: "u64 \<Rightarrow> host_action list" where
  "main_actions delay = map step_action (main_steps delay)"

definition tun_steps :: "sim_step list" where
  "tun_steps = create_tun ''tun0''
   @ [run ''ip'' [''addr'', ''add'', TUN_IP @ ''/24'', ''dev'', ''tun0''],
      run ''ip'' [''link'', ''set'', ''tun0'', ''up'']]"

definition down_actions :: "host_action list" where
  "down_actions =
     [HostCommand ''nft'' [''delete'', ''table'', ''inet'', NFT_TABLE],
      HostCommand ''ip'' [''netns'', ''delete'', NETNS]]"

lemma main_steps_eq:
  "main_steps delay = lifecycle cleanup_stale tun_steps (setup_topology delay) (spawn_sender NETNS) down_actions"
  by (simp add: main_steps_def lifecycle_def tun_steps_def teardown_def down_actions_def run_ignore_def)

interpretation iflat_topology:
  simulator_topology cleanup_stale tun_steps setup_topology "spawn_sender NETNS" down_actions created
proof
  show "BestEffort r \<in> set cleanup_stale" if "(c, r) \<in> set created" for c r
    using that by (auto simp: created_def cleanup_stale_def run_ignore_def)
  show "c \<in> step_action ` set (setup_topology delay)" if "(c, r) \<in> set created" for c r delay
    using that by (auto simp: created_def setup_topology_def run_def)
  show "r \<in> set down_actions" if "(c, r) \<in> set created" for c r
    using that by (auto simp: created_def down_actions_def)
  show "RunReceiver \<notin> step_action ` set (cleanup_stale @ tun_steps @ setup_topology delay @ spawn_sender NETNS)" for delay
    by (auto simp: tun_steps_def cleanup_stale_def create_tun_def setup_topology_def spawn_sender_def run_def
        run_ignore_def)
qed


section \<open>Properties\<close>

text \<open>What one cycle has to emit: the payload in a UDP datagram, or a packet whose checksum verifies.\<close>

definition emission_ok :: "u64 \<Rightarrow> draw \<Rightarrow> emission \<Rightarrow> bool" where
  "emission_ok cycle d e =
     (let payload = test_payload (drawn_tag d) (drawn_ns d) in
      case e of
        SendUdp buf \<Rightarrow> cycle mod 3 = 0 \<and> buf = payload
      | SendRaw pkt \<Rightarrow>
          (\<exists>ip l4. pkt = ip @ l4 @ payload \<and> test_headers (cycle_proto cycle) ip l4
             \<and> (if cycle mod 3 = 1 then tcp_checksum VETH_NS_IP_OCTETS DEST_IP (l4 @ payload) = Some 0
                else cycle mod 3 \<noteq> 0 \<and> internet_checksum (l4 @ payload) = Some 0)))"

fun emissions :: "sender_output list \<Rightarrow> emission list" where
  "emissions [] = []"
| "emissions (Emit e # out) = e # emissions out"
| "emissions (DatagramsSent _ # out) = emissions out"

lemma sender_cycle_ok: "\<exists>e. sender_cycle cycle d = Some e \<and> emission_ok cycle d e"
proof -
  consider "cycle mod 3 = 0" | "cycle mod 3 = 1" | "cycle mod 3 \<noteq> 0" "cycle mod 3 \<noteq> 1" by blast
  then show ?thesis
  proof cases
    case 1
    then show ?thesis using sender_cycle_udp [of cycle d] by (simp add: emission_ok_def)
  next
    case 2
    then show ?thesis
      using sender_cycle_tcp [OF 2, of d] crafted_test_headers(1) by (fastforce simp: emission_ok_def cycle_proto_def)
  next
    case 3
    then show ?thesis
      using sender_cycle_icmp [OF 3, of d] crafted_test_headers(2) by (fastforce simp: emission_ok_def cycle_proto_def)
  qed
qed

lemma sender_loop_ok:
  "\<exists>out. sender_loop (of_nat n) ds = Some out
     \<and> list_all2 (\<lambda>(i, d). emission_ok (of_nat i) d) (enumerate n ds) (emissions out)"
proof (induction ds arbitrary: n)
  case (Cons d ds)
  obtain e where "sender_cycle (of_nat n) d = Some e" "emission_ok (of_nat n) d e" using sender_cycle_ok by blast
  moreover obtain out where "sender_loop (of_nat (Suc n)) ds = Some out"
      "list_all2 (\<lambda>(i, d). emission_ok (of_nat i) d) (enumerate (Suc n) ds) (emissions out)"
    using Cons by blast
  ultimately show ?case by (auto simp: Let_def add.commute)
qed simp

text \<open>
  C12. The sender emits one packet in every cycle: no write leaves a buffer and every checksum loop
  ends. UDP, TCP and ICMP packets take turns; each carries the drawn tag and time in the payload,
  a crafted packet has the headers the receiver looks for, and its checksum verifies the way a
  receiver checks it (over the TCP pseudo header, or over the ICMP message).
\<close>

theorem iflat_sim_emits:
  "\<exists>out. run_sender None None ds = Inr (Some out)
     \<and> list_all2 (\<lambda>(i, d). emission_ok (of_nat i) d) (enumerate 0 ds) (emissions out)"
  using sender_loop_ok [of 0 ds] by (simp add: run_sender_def)

text \<open>
  C11. The agent measures inside what the simulator measures: a packet the sender emits, seen by
  the agent's XDP program at \<open>t1\<close>, by its TC program at \<open>t2\<close> behind the NAT, and read by the
  simulator at \<open>t3\<close>, adds exactly \<open>t2 - t1\<close> to the agent's sum, is printed by the simulator under
  the same tag and the protocol of its cycle with the latency since it was sent, and the latency
  of the agent in microseconds is not above the printed one.
\<close>

theorem iflat_sim_bounds_agent:
  assumes "sender_cycle cycle d = Some e" and "on_wire e ip l4 payload" and "masqueraded ip l4 ip' l4'"
    and "length eth = ETH_HLEN" and "read_be_u16 eth 12 = Some (Some ETH_P_IP)"
    and "iflat_inv K s" and "iflat_room K s (eth @ datagram ip l4 payload)"
    and "iflat.undisturbed K (drawn_tag d) (iflat_rx K s (eth @ datagram ip l4 payload) t1) traffic"
    and "s1 = iflat.watch K (iflat_rx K s (eth @ datagram ip l4 payload) t1) traffic"
    and "s2 = iflat_tx K s1 (datagram ip' l4' payload) t2"
    and "drawn_ns d \<le> t1" and "t1 \<le> t2" and "t2 \<le> t3" and "rx_samples rs + 1 \<noteq> 0"
  shows "iflat_total s2 = iflat_total s1 + (t2 - t1) \<and> iflat_samples s2 = iflat_samples s1 + 1
    \<and> (\<exists>rs' avg. receive_packet rs (datagram ip' l4' payload) t3
         = Some (rs', [RxLine (cycle_proto cycle) (drawn_tag d) ((t3 - drawn_ns d) div 1000) avg rs']))
    \<and> (t2 - t1) div 1000 \<le> (t3 - drawn_ns d) div 1000"
proof -
  have test: "test_headers (cycle_proto cycle) ip l4" and pay: "payload = test_payload (drawn_tag d) (drawn_ns d)"
    using sender_cycle_on_wire [of cycle d] assms(1,2) by (metis option.inject)+
  have test': "test_headers (cycle_proto cycle) ip' l4'" by (rule test_headers_masqueraded [OF test assms(3)])
  have tag: "from_be_bytes (take KEY_SIZE payload) = drawn_tag d"
    by (simp add: pay test_payload_def crafted_payload_def KEY_SIZE_def)
  have len: "4 \<le> length payload" by (simp add: pay)
  have "iflat_rx_tag (eth @ datagram ip l4 payload) = Some (drawn_tag d)"
    using iflat_frame_tag [OF assms(4,5) test_headers_well_formed [OF test len]] by (simp add: tag)
  moreover have "iflat_tx_tag (datagram ip' l4' payload) = Some (drawn_tag d)"
    using parse_payload_tag_datagram [OF test_headers_well_formed [OF test' len]]
    by (simp add: iflat_tx_tag_def tag)
  ultimately have agent: "iflat_total s2 = iflat_total s1 + saturating_sub t2 t1 \<and> iflat_samples s2 = iflat_samples s1 + 1"
    using iflat.measured_once [OF assms(6) _ assms(7,8), of "datagram ip' l4' payload" t2] assms(9,10) by simp
  have "unat (t2 - t1) \<le> unat (t3 - drawn_ns d)"
    using assms(11-13) by (simp add: unat_sub word_le_nat_alt)
  then have "(t2 - t1) div 1000 \<le> (t3 - drawn_ns d) div 1000"
    by (simp add: word_le_nat_alt unat_div div_le_mono)
  then show ?thesis
    using agent receive_test_packet [OF test' _ assms(14), of "drawn_ns d" t3 "drawn_tag d"] assms(11-13) pay
    by (auto simp: saturating_sub_def)
qed

text \<open>The witness: the first UDP datagram, with the headers the kernel builds and those behind the NAT.\<close>

definition demo_draw :: draw where
  "demo_draw = \<lparr>drawn_tag = 0xdeadbeef, drawn_ns = 1000, drawn_port = 7, drawn_seq = 9, drawn_id = 11\<rparr>"

definition demo_sim_ip :: "u8 list" where
  "demo_sim_ip = [0x45, 0, 0, 92, 0, 1, 0x40, 0, 64, 17, 0, 0, 192, 168, 100, 2, 10, 200, 0, 2]"

definition demo_sim_ip_nat :: "u8 list" where
  "demo_sim_ip_nat = [0x45, 0, 0, 92, 0, 1, 0x40, 0, 63, 17, 1, 2, 10, 200, 0, 1, 10, 200, 0, 2]"

definition demo_sim_udp :: "u8 list" where "demo_sim_udp = [0x80, 0, 0x13, 0x88, 0, 72, 0, 0]"
definition demo_sim_udp_nat :: "u8 list" where "demo_sim_udp_nat = [0x90, 1, 0x13, 0x88, 0, 72, 3, 4]"

lemma demo_sim_path:
  "on_wire (SendUdp (test_payload 0xdeadbeef 1000)) demo_sim_ip demo_sim_udp (test_payload 0xdeadbeef 1000)"
  "masqueraded demo_sim_ip demo_sim_udp demo_sim_ip_nat demo_sim_udp_nat"
proof -
  show "on_wire (SendUdp (test_payload 0xdeadbeef 1000)) demo_sim_ip demo_sim_udp (test_payload 0xdeadbeef 1000)"
    by (simp add: demo_sim_ip_def demo_sim_udp_def ipv4_header_def iflat_consts sim_consts to_be_bytes_2)
  show "masqueraded demo_sim_ip demo_sim_udp demo_sim_ip_nat demo_sim_udp_nat"
    by (simp add: masqueraded_def rewritten_def demo_sim_ip_def demo_sim_udp_def demo_sim_ip_nat_def
        demo_sim_udp_nat_def iflat_consts All_less_Suc numeral_eq_Suc)
qed

theorem iflat_sim_bounds_agent_witness:
  "let p = datagram demo_sim_ip demo_sim_udp (test_payload 0xdeadbeef 1000);
       q = datagram demo_sim_ip_nat demo_sim_udp_nat (test_payload 0xdeadbeef 1000);
       s2 = iflat_tx ref_kernel (iflat_rx ref_kernel iflat_maps_init (demo_eth @ p) 5000) q 47000
   in iflat_total s2 = 42000 \<and> iflat_samples s2 = 1
      \<and> (\<exists>rs avg. receive_packet rx_init q 61000 = Some (rs, [RxLine ''udp'' 0xdeadbeef 60 avg rs]))"
proof -
  have sent: "sender_cycle 0 demo_draw = Some (SendUdp (test_payload 0xdeadbeef 1000))"
    by (simp add: sender_cycle_udp demo_draw_def)
  have inv: "iflat_inv ref_kernel iflat_maps_init" by simp
  have room: "iflat_room ref_kernel iflat_maps_init p" for p
    by (simp add: iflat_room_def lru_room_def ref_kernel_def keys_def)
  have s1: "iflat_total (iflat_rx ref_kernel iflat_maps_init p t) = 0
      \<and> iflat_samples (iflat_rx ref_kernel iflat_maps_init p t) = 0" for p t
    using iflat.first_totals [OF inv, of p t] by simp
  show ?thesis
    using iflat_sim_bounds_agent [OF sent demo_sim_path demo_well_formed(3,4) inv room _ refl refl,
        of 5000 "[]" 47000 61000 rx_init] s1
    by (simp add: demo_draw_def cycle_proto_def rx_init_def)
qed

text \<open>
  The receiver's statistics are those of the latencies of the test packets it read: it prints
  one line for each, the count, sum, minimum and maximum it keeps are theirs (and the division by
  the count never fails); while their sum fits 64 bits, every printed average lies between the
  printed minimum and maximum.
\<close>

lemma iflat_sim_statistics:
  assumes "sum_list (map unat (seen_latencies es)) < 2 ^ 64" and "length (seen_latencies es) < 2 ^ 64"
  shows "\<exists>lines. run_receiver rx_init es = Some (stats_of (seen_latencies es), lines)
    \<and> map line_latency lines = seen_latencies es
    \<and> (\<forall>l\<in>set lines. min_us (line_stats l) \<le> line_avg l \<and> line_avg l \<le> max_us (line_stats l))"
proof -
  obtain lines where run: "run_receiver rx_init es = Some (stats_of (seen_latencies es), lines)"
    "map line_latency lines = seen_latencies es" "list_all (prints_prefix (seen_latencies es)) lines"
    using run_receiver_eq [of "[]" es] assms(2) by (auto simp: rx_init_eq)
  have "min_us (line_stats l) \<le> line_avg l \<and> line_avg l \<le> max_us (line_stats l)" if "l \<in> set lines" for l
  proof -
    let ?ls = "seen_latencies es"
    obtain n where n: "0 < n" "n \<le> length ?ls" "line_stats l = stats_of (take n ?ls)"
      "line_avg l = sum_list (take n ?ls) div of_nat n"
      using run(3) \<open>l \<in> set lines\<close> by (auto simp: list_all_iff prints_prefix_def)
    have "sum_list (map unat ?ls) = sum_list (map unat (take n ?ls)) + sum_list (map unat (drop n ?ls))"
      by (metis append_take_drop_id map_append sum_list_append)
    then have "sum_list (map unat (take n ?ls)) < 2 ^ 64" using assms(1) by linarith
    moreover have "length (take n ?ls) = n" "take n ?ls \<noteq> []" "n < 2 ^ 64" using n(1,2) assms(2) by auto
    ultimately show ?thesis using average_between [of "take n ?ls"] n(3,4) by metis
  qed
  then show ?thesis using run(1,2) by blast
qed

definition demo_events :: "rx_event list" where
  "demo_events =
     [PollIdle, ReadPacket (datagram demo_sim_ip_nat demo_sim_udp_nat (test_payload 0xdeadbeef 1000)) 61000,
      ReadNothing, ReadPacket [0x60, 0, 0, 0] 62000,
      ReadPacket (datagram demo_sim_ip_nat demo_sim_udp_nat (test_payload 7 2000)) 42000]"

lemma demo_events_latencies: "seen_latencies demo_events = [60, 40]"
proof -
  have "test_headers ''udp'' demo_sim_ip_nat demo_sim_udp_nat"
    by (simp add: test_headers_def test_l4_def ipv4_header_def demo_sim_ip_nat_def demo_sim_udp_nat_def iflat_consts
        sim_consts to_be_bytes_2)
  then have "parse_packet (datagram demo_sim_ip_nat demo_sim_udp_nat (test_payload tag ns)) = Some (tag, ns, ''udp'')" for tag ns
    using parse_packet_test by (simp add: datagram_def test_payload_def)
  moreover have "take 2048 (datagram demo_sim_ip_nat demo_sim_udp_nat (test_payload tag ns))
      = datagram demo_sim_ip_nat demo_sim_udp_nat (test_payload tag ns)" for tag ns
    by (simp add: datagram_def demo_sim_ip_nat_def demo_sim_udp_nat_def)
  moreover have "parse_packet [0x60, 0, 0, 0] = None"
    by (simp add: parse_packet_def)
  ultimately show ?thesis by (simp add: demo_events_def saturating_sub_def)
qed

lemma iflat_sim_statistics_witness:
  "\<exists>st lines. run_receiver rx_init demo_events = Some (st, lines) \<and> map line_latency lines = [60, 40]
     \<and> min_us st = 40 \<and> max_us st = 60 \<and> sum_us st = 100
     \<and> (\<forall>l\<in>set lines. min_us (line_stats l) \<le> line_avg l \<and> line_avg l \<le> max_us (line_stats l))"
  using iflat_sim_statistics [of demo_events]
  by (auto simp: demo_events_latencies stats_of_def)

text \<open>
  A run that ends without a fatal error has removed what it created: for the namespace and for
  the nftables table, the removal of a stale one, the creation, the receiver, the end of the
  sender, the removal and the close of the tun device happen in this order. A fatal error only
  ends a run before the receiver has started, so nothing has been measured then.
\<close>

lemma iflat_sim_tears_down:
  assumes "main H is_root argv = Simulate (tr, fatal)"
  shows "(fatal = None \<longrightarrow>
           (\<forall>(c, r)\<in>set created. subseq [r, c, RunReceiver, KillSender, WaitSender, r, CloseTun] tr))
    \<and> (fatal \<noteq> None \<longrightarrow> RunReceiver \<notin> set tr)"
proof -
  obtain delay where "run_sim H [] (main_steps delay) = (tr, fatal)"
    using assms unfolding main_def by (rule simulator_main_Simulate)
  then show ?thesis unfolding main_steps_eq by (rule iflat_topology.tears_down)
qed

lemma main_quiet_host:
  "main (\<lambda>_ _. Success) True [''iflat_sim''] = Simulate (main_actions 0, None)"
  by (simp add: main_def simulator_main_def main_actions_def run_sim_all_success)

lemma iflat_sim_tears_down_witness:
  "\<exists>tr. main (\<lambda>_ _. Success) True [''iflat_sim''] = Simulate (tr, None)
     \<and> (\<forall>(c, r)\<in>set created. subseq [r, c, RunReceiver, KillSender, WaitSender, r, CloseTun] tr)"
  using iflat_sim_tears_down [OF main_quiet_host] main_quiet_host by blast

text \<open>The forwarding switch of the kernel, in contrast, is set and never reset.\<close>

lemma ip_forward_stays:
  "filter (\<lambda>a. \<exists>f v. a = WriteSysctl f v) (main_actions delay)
     = [WriteSysctl ''/proc/sys/net/ipv4/ip_forward'' [CHR ''1'', CHR 0x0A]]"
  by (simp add: main_actions_def main_steps_def cleanup_stale_def create_tun_def setup_topology_def
      spawn_sender_def shut_down_def teardown_def run_def run_ignore_def)

end
