(* ===== verification/Iflat_Uprobe_Sim.thy ===== *)
theory Iflat_Uprobe_Sim
  imports Wire Iflat_Uprobe_Ebpf Sim_Host
begin

text \<open>
  The traffic simulator of \<open>iflat_uprobe\<close> (\<open>src/bpfagent/examples/iflat_uprobe_sim.rs\<close>): a sender,
  and a receiver that plays the forwarding application: it re-injects each datagram into the tun
  device and hands what comes back to \<open>iflat_uprobe_sim_submit\<close>, the function the agent probes,
  through a structure with the layout of the production one. Random numbers, clock readings,
  what the sockets return and where the allocator puts the payload are arguments. Its copies of
  \<open>add_checksum_words\<close>, \<open>run\<close>, \<open>run_ignore\<close>, \<open>create_tun\<close>, \<open>spawn_sender\<close> and the argument handling are
  those of \<open>iflat_sim.rs\<close> (\<open>Wire\<close>, \<open>Sim_Host\<close>).

  Shown: the re-injected packet has a valid IP checksum and the same tag; with the configuration
  the simulator prints, the agent's pointer chase finds the tag behind the structure, so both legs
  are measured; the table of injections stays bounded; what a run creates it removes.
\<close>

unbundle bit_operations_syntax

definition NETNS :: string where "NETNS = ''iu-sim''"
definition VETH_HOST :: string where "VETH_HOST = ''veth-iu0''"
definition VETH_NS :: string where "VETH_NS = ''veth-iu1''"
definition VETH_HOST_IP :: string where "VETH_HOST_IP = ''192.168.101.1''"
definition VETH_NS_IP :: string where "VETH_NS_IP = ''192.168.101.2''"
definition TUN_IP :: string where "TUN_IP = ''10.200.1.1''"
definition TUN_SRC_IP :: "u8 list" where "TUN_SRC_IP = [10, 200, 1, 2]"
definition TUN_IP_OCTETS :: "u8 list" where "TUN_IP_OCTETS = [10, 200, 1, 1]"
definition LEG1_PORT :: u16 where "LEG1_PORT = 5000"
definition LEG2_PORT :: u16 where "LEG2_PORT = 5001"
definition CRAFTED_SPORT :: u16 where "CRAFTED_SPORT = 5002"
definition MSG_SIZE :: nat where "MSG_SIZE = 64"
definition SIM_PAYLOAD_PTR_OFFSET :: nat where "SIM_PAYLOAD_PTR_OFFSET = 296"

lemmas usim_consts =
  TUN_SRC_IP_def TUN_IP_OCTETS_def LEG2_PORT_def CRAFTED_SPORT_def MSG_SIZE_def SIM_PAYLOAD_PTR_OFFSET_def


section \<open>The structure behind the probed function\<close>

record TxSlotSim =
  slot_state :: u32
  slot_index :: u32
  slot_endpoint :: u32
  slot_burst :: "u8 list"
  dispatch_time :: u64
  enqueued_ncr :: u64
  dispatch_ncr :: u64
  slot_payload :: u64
  payload_capacity :: u32
  payload_length :: u32

definition slot_bytes :: "u8 \<Rightarrow> TxSlotSim \<Rightarrow> u8 list" where
  "slot_bytes pad s =
     repr_c pad 0
       [(4, to_le_bytes 4 (slot_state s)), (4, to_le_bytes 4 (slot_index s)), (4, to_le_bytes 4 (slot_endpoint s)),
        (1, slot_burst s), (8, to_le_bytes 8 (dispatch_time s)), (8, to_le_bytes 8 (enqueued_ncr s)),
        (8, to_le_bytes 8 (dispatch_ncr s)), (8, to_le_bytes 8 (slot_payload s)),
        (4, to_le_bytes 4 (payload_capacity s)), (4, to_le_bytes 4 (payload_length s))]"

text \<open>
  The probed function: \<open>None\<close> as slot is the null pointer, a result \<open>None\<close> an invalid read.
\<close>

definition iflat_uprobe_sim_submit :: "user_mem \<Rightarrow> u32 \<Rightarrow> TxSlotSim option \<Rightarrow> u64 option" where
  "iflat_uprobe_sim_submit mem from_ep slot =
     (case slot of
        None \<Rightarrow> Some 0
      | Some slot \<Rightarrow>
          (let acc = ucast from_ep XOR ucast (slot_state slot) XOR dispatch_time slot in
           if slot_payload slot = 0 then Some acc
           else do {
             bs \<leftarrow> read_bytes mem (slot_payload slot) (min (unat (payload_length slot)) (unat (payload_capacity slot)));
             Some (fold (\<lambda>b acc. word_rotl 5 acc XOR ucast b) bs acc)
           }))"


section \<open>The re-injected packet\<close>

definition internet_checksum :: "u8 list \<Rightarrow> u16 option" where
  "internet_checksum data =
     do {
       acc \<leftarrow> while_option (\<lambda>acc. drop_bit 16 acc \<noteq> 0) (\<lambda>acc. (acc AND 0xffff) + drop_bit 16 acc)
                (add_checksum_words 0 data);
       Some (NOT (ucast acc))
     }"

definition tun_ip_writes :: "nat \<Rightarrow> (nat \<times> u8 list) list" where
  "tun_ip_writes total_len =
     [(0, [0x45]), (1, [0]), (2, to_be_bytes 2 (of_nat total_len :: u16)), (4, to_be_bytes 2 (0 :: u16)),
      (6, to_be_bytes 2 (0x4000 :: u16)), (8, [64]), (9, [IPPROTO_UDP]), (10, to_be_bytes 2 (0 :: u16)),
      (12, TUN_SRC_IP), (16, TUN_IP_OCTETS)]"

definition tun_udp_writes :: "nat \<Rightarrow> nat \<Rightarrow> u8 list \<Rightarrow> (nat \<times> u8 list) list" where
  "tun_udp_writes udp udp_hlen payload =
     [(udp, to_be_bytes 2 CRAFTED_SPORT), (udp + 2, to_be_bytes 2 LEG2_PORT),
      (udp + 4, to_be_bytes 2 (of_nat (udp_hlen + length payload) :: u16)), (udp + 6, to_be_bytes 2 (0 :: u16)),
      (udp + udp_hlen, payload)]"

definition craft_tun_packet :: "u8 list \<Rightarrow> u8 list \<Rightarrow> (nat \<times> u8 list) option" where
  "craft_tun_packet pkt payload =
     (let ip_hlen = 20; udp_hlen = 8; total_len = ip_hlen + udp_hlen + length payload; udp = ip_hlen
      in do {
        pkt \<leftarrow> put_all pkt (tun_ip_writes total_len);
        pkt \<leftarrow> put_all pkt (tun_udp_writes udp udp_hlen payload);
        header \<leftarrow> get_slice pkt 0 ip_hlen;
        cksum \<leftarrow> internet_checksum header;
        pkt \<leftarrow> put_at pkt 10 (to_be_bytes 2 cksum);
        Some (total_len, pkt)
      })"


section \<open>Sender and receiver\<close>

text \<open>One cycle of the sender, from the drawn tag and the clock reading: the buffer it sends to
  \<open>VETH_HOST_IP:LEG1_PORT\<close>.\<close>

definition sender_cycle :: "u32 \<Rightarrow> u64 \<Rightarrow> u8 list option" where
  "sender_cycle tag sent_ns =
     do {
       buf \<leftarrow> put_at (replicate MSG_SIZE 0) 0 (to_be_bytes 4 tag);
       put_at buf 4 (to_be_bytes 8 sent_ns)
     }"

datatype sender_output = SendTo string "u8 list" | DatagramsSent u64

fun sender_loop :: "u64 \<Rightarrow> (u32 \<times> u64) list \<Rightarrow> sender_output list option" where
  "sender_loop cycle [] = Some []"
| "sender_loop cycle ((tag, sent_ns) # ds) =
     do {
       buf \<leftarrow> sender_cycle tag sent_ns;
       let cycle = cycle + 1;
       rest \<leftarrow> sender_loop cycle ds;
       Some (SendTo (VETH_HOST_IP @ '':'' @ to_string LEG1_PORT) buf
             # (if cycle mod 10 = 0 then [DatagramsSent cycle] else []) @ rest)
     }"

definition run_sender :: "string option \<Rightarrow> (u32 \<times> u64) list \<Rightarrow> string + sender_output list option" where
  "run_sender bind_error ds =
     (case bind_error of
        Some e \<Rightarrow> Inl (''sender UDP bind failed: '' @ e)
      | None \<Rightarrow> Inr (sender_loop 0 ds))"

text \<open>
  The receiver. A turn of its loop knows which descriptors are readable, what the sockets return
  (cut to the buffer size), the two clock readings, whether the write to the tun device fails and
  the address of the payload copy. \<open>tun_buf\<close> is \<open>pkt\<close>, which is reused.
\<close>

datatype received = Received "u8 list" | WouldBlock | RecvError string

record app_state =
  injections :: "(u32 \<times> u64) list"
  tun_buf :: "u8 list"

record turn =
  leg1_ready :: "received option"
  inject_ns :: u64
  tun_write_fails :: bool
  leg2_ready :: "received option"
  fn_ns :: u64
  arena_addr :: u64

datatype app_output =
  TunWrite "u8 list"
| CallSubmit TxSlotSim "u8 list"
| Spans u32 "(u64 \<times> u64) option" u64

definition leg1_step :: "turn \<Rightarrow> app_state \<Rightarrow> (app_state \<times> app_output list) option" where
  "leg1_step t s =
     (case leg1_ready t of
        Some (Received bs) \<Rightarrow>
          (let buf = take 2048 bs in
           if length buf = MSG_SIZE then do {
             let tag = from_be_bytes (take 4 buf);
             (len, pkt) \<leftarrow> craft_tun_packet (tun_buf s) buf;
             let s = s\<lparr>tun_buf := pkt\<rparr>;
             Some (if tun_write_fails t then s
                   else s\<lparr>injections := AList.update tag (inject_ns t) (injections s)\<rparr>,
                   [TunWrite (take len pkt)])
           }
           else Some (s, []))
      | _ \<Rightarrow> Some (s, []))"

definition leg2_step :: "turn \<Rightarrow> app_state \<Rightarrow> app_state \<times> app_output list" where
  "leg2_step t s =
     (case leg2_ready t of
        Some (Received bs) \<Rightarrow>
          (let buf = take 2048 bs in
           if length buf = MSG_SIZE then
             (let tag = from_be_bytes (take 4 buf);
                  sent_ns = from_be_bytes (take 8 (drop 4 buf));
                  injected_ns = map_of (injections s) tag;
                  s = s\<lparr>injections := AList.delete tag (injections s)\<rparr>;
                  slot = \<lparr>slot_state = 1, slot_index = 0, slot_endpoint = 0, slot_burst = replicate 256 0,
                          dispatch_time = 0, enqueued_ncr = 0, dispatch_ncr = 0, slot_payload = arena_addr t,
                          payload_capacity = of_nat (length buf), payload_length = of_nat (length buf)\<rparr>;
                  total_us = saturating_sub (fn_ns t) sent_ns div 1000
              in (s, [CallSubmit slot buf,
                      Spans tag
                        (map_option (\<lambda>inj. (saturating_sub inj sent_ns div 1000,
                                            saturating_sub (fn_ns t) inj div 1000)) injected_ns)
                        total_us]))
           else (s, []))
      | _ \<Rightarrow> (s, []))"

definition receiver_turn :: "turn \<Rightarrow> app_state \<Rightarrow> (app_state \<times> app_output list) option" where
  "receiver_turn t s =
     do {
       (s, out1) \<leftarrow> leg1_step t s;
       let (s, out2) = leg2_step t s;
       let s = (if length (injections s) > 1024 then s\<lparr>injections := []\<rparr> else s);
       Some (s, out1 @ out2)
     }"

fun run_receiver :: "app_state \<Rightarrow> turn list \<Rightarrow> (app_state \<times> app_output list) option" where
  "run_receiver s [] = Some (s, [])"
| "run_receiver s (t # ts) =
     do {
       (s, out) \<leftarrow> receiver_turn t s;
       (s, rest) \<leftarrow> run_receiver s ts;
       Some (s, out @ rest)
     }"

definition app_init :: app_state where
  "app_init = \<lparr>injections = [], tun_buf = replicate 2048 0\<rparr>"


section \<open>Topology\<close>

definition cleanup_stale :: "sim_step list" where
  "cleanup_stale =
     [run_ignore ''ip'' [''netns'', ''delete'', NETNS],
      run_ignore ''ip'' [''link'', ''delete'', VETH_HOST]]"

definition setup_topology :: "u64 \<Rightarrow> sim_step list" where
  "setup_topology netem_delay_ms =
     [run ''ip'' [''netns'', ''add'', NETNS],
      run ''ip'' [''link'', ''add'', VETH_HOST, ''type'', ''veth'', ''peer'', ''name'', VETH_NS],
      run ''ip'' [''link'', ''set'', VETH_NS, ''netns'', NETNS],
      run ''ip'' [''addr'', ''add'', VETH_HOST_IP @ ''/24'', ''dev'', VETH_HOST],
      run ''ip'' [''link'', ''set'', VETH_HOST, ''up''],
      run ''ip'' [''netns'', ''exec'', NETNS, ''ip'', ''link'', ''set'', ''lo'', ''up''],
      run ''ip'' [''netns'', ''exec'', NETNS, ''ip'', ''addr'', ''add'', VETH_NS_IP @ ''/24'', ''dev'', VETH_NS],
      run ''ip'' [''netns'', ''exec'', NETNS, ''ip'', ''link'', ''set'', VETH_NS, ''up'']]
   @ (if 0 < netem_delay_ms
      then [run ''ip'' [''netns'', ''exec'', NETNS, ''tc'', ''qdisc'', ''add'', ''dev'', VETH_NS, ''root'',
                        ''netem'', ''delay'', to_string netem_delay_ms @ ''ms'']]
      else [])"

definition teardown :: "sim_step list" where
  "teardown = [run_ignore ''ip'' [''netns'', ''delete'', NETNS]]"

definition main_steps :: "u64 \<Rightarrow> sim_step list" where
  "main_steps netem_delay_ms =
     cleanup_stale
   @ create_tun ''tun0''
   @ [run ''ip'' [''addr'', ''add'', TUN_IP @ ''/24'', ''dev'', ''tun0''],
      run ''ip'' [''link'', ''set'', ''tun0'', ''up'']]
   @ setup_topology netem_delay_ms
   @ [Require (BindSocket (VETH_HOST_IP @ '':'' @ to_string LEG1_PORT))
        (\<lambda>r. ''leg-1 UDP bind failed: '' @ response_text r),
      Require (BindSocket (TUN_IP @ '':'' @ to_string LEG2_PORT))
        (\<lambda>r. ''leg-2 UDP bind failed: '' @ response_text r)]
   @ spawn_sender NETNS
   @ [Require (SetNonblocking ''leg1'') (\<lambda>r. ''set_nonblocking failed: '' @ response_text r),
      Require (SetNonblocking ''leg2'') (\<lambda>r. ''set_nonblocking failed: '' @ response_text r),
      BestEffort RunReceiver]
   @ shut_down teardown"

definition main :: "host \<Rightarrow> bool \<Rightarrow> string list \<Rightarrow> (host_action list \<times> string option) sim_main" where
  "main = simulator_main ''must run as root (creates netns/veth/tun)'' main_steps"

text \<open>The settings that \<open>main\<close> prints for the agent.\<close>

definition printed_config :: UprobeConfig where
  "printed_config = \<lparr>arg_index = 3, payload_ptr_offset = of_nat SIM_PAYLOAD_PTR_OFFSET, tag_offset = 0\<rparr>"


section \<open>What is re-injected\<close>

definition tun_ip :: "nat \<Rightarrow> u16 \<Rightarrow> u8 list" where
  "tun_ip total_len cksum =
     [0x45, 0] @ to_be_bytes 2 (of_nat total_len :: u16) @ [0, 0, 0x40, 0, 64, IPPROTO_UDP] @ to_be_bytes 2 cksum
     @ TUN_SRC_IP @ TUN_IP_OCTETS"

definition tun_udp :: "nat \<Rightarrow> u8 list" where
  "tun_udp n = to_be_bytes 2 CRAFTED_SPORT @ to_be_bytes 2 LEG2_PORT @ to_be_bytes 2 (of_nat n :: u16) @ [0, 0]"

lemma length_tun [simp]: "length (tun_ip n c) = 20" "length (tun_udp n) = 8"
  by (simp_all add: tun_ip_def tun_udp_def usim_consts)

lemma internet_checksum_eq: "internet_checksum data = Wire.internet_checksum data"
  by (simp add: internet_checksum_def Wire.internet_checksum_def fold_checksum_def fold_loop_def map_conv_bind_option comp_def)

lemma tun_written:
  assumes "28 + length payload \<le> length pkt" and "n = 28 + length payload"
  shows "put_all pkt (tun_ip_writes n @ tun_udp_writes 20 8 payload)
    = Some (tun_ip n 0 @ tun_udp (8 + length payload) @ payload @ drop n pkt)"
proof -
  let ?ws = "tun_ip_writes n @ tun_udp_writes 20 8 payload"
  have "contiguous 0 ?ws" by (simp add: tun_ip_writes_def tun_udp_writes_def usim_consts)
  moreover have cat: "concat (map snd ?ws) = tun_ip n 0 @ tun_udp (8 + length payload) @ payload"
    by (simp add: tun_ip_def tun_ip_writes_def tun_udp_def tun_udp_writes_def to_be_bytes_2)
  moreover have "length (concat (map snd ?ws)) = n" unfolding cat using assms(2) by simp
  ultimately show ?thesis
    using assms put_all_prefix [of ?ws n pkt 0] by simp
qed

lemma craft_tun_packet_eq:
  assumes "n = 28 + length payload" and "n \<le> length pkt"
  shows "\<exists>c. craft_tun_packet pkt payload = Some (n, tun_ip n c @ tun_udp (8 + length payload) @ payload @ drop n pkt)
    \<and> internet_checksum (tun_ip n c) = Some 0"
proof -
  obtain c where c: "internet_checksum (tun_ip n 0) = Some c"
    by (simp add: internet_checksum_eq Wire.internet_checksum_def fold_checksum_eq)
  let ?rest = "tun_udp (8 + length payload) @ payload @ drop n pkt"
  let ?pre = "[0x45, 0] @ to_be_bytes 2 (of_nat n :: u16) @ [0, 0, 0x40, 0, 64, IPPROTO_UDP]" and ?post = "TUN_SRC_IP @ TUN_IP_OCTETS"
  have split: "tun_ip n k = ?pre @ to_be_bytes 2 k @ ?post" for k
    by (simp add: tun_ip_def)
  have slice: "get_slice (tun_ip n 0 @ ?rest) 0 20 = Some (tun_ip n 0)"
    using get_slice_middle [of "[]" 0 "tun_ip n 0" 20 ?rest] by simp
  have put: "put_at (tun_ip n 0 @ ?rest) 10 (to_be_bytes 2 c) = Some (tun_ip n c @ ?rest)"
    unfolding split [of 0] split [of c]
    using put_at_replace [of ?pre 10 "to_be_bytes 2 (0 :: u16)" "to_be_bytes 2 c" "?post @ ?rest"] by simp
  have "craft_tun_packet pkt payload =
      do {
        pkt \<leftarrow> put_all pkt (tun_ip_writes n @ tun_udp_writes 20 8 payload);
        header \<leftarrow> get_slice pkt 0 20;
        cksum \<leftarrow> internet_checksum header;
        pkt \<leftarrow> put_at pkt 10 (to_be_bytes 2 cksum);
        Some (n, pkt)
      }"
    by (simp add: craft_tun_packet_def put_all_append assms(1) Let_def)
  then have "craft_tun_packet pkt payload = Some (n, tun_ip n c @ ?rest)"
    using tun_written [of payload pkt n] assms slice put c by simp
  moreover have "internet_checksum (tun_ip n c) = Some 0"
  proof -
    have "fold_checksum (add_checksum_words 0 (?pre @ [0, 0] @ ?post)) = Some c"
      using c split [of 0] by (simp add: internet_checksum_eq Wire.internet_checksum_def to_be_bytes_2)
    then have "fold_checksum (add_checksum_words 0 (?pre @ to_be_bytes 2 c @ ?post)) = Some 0"
      using word_sum_bound [of "?pre @ [0, 0] @ ?post"]
      by (intro checksum_verifies) (simp_all add: usim_consts)
    then show ?thesis by (simp only: internet_checksum_eq Wire.internet_checksum_def split)
  qed
  ultimately show ?thesis by blast
qed

lemma tun_well_formed: "4 \<le> length payload \<Longrightarrow> well_formed_datagram (tun_ip n c) (tun_udp m) payload"
  by (simp add: well_formed_datagram_def ipv4_header_def l4_header_def tun_ip_def tun_udp_def to_be_bytes_2
      usim_consts ifu_consts iflat_consts)

text \<open>The source address of the packet is not one of those taken for an Ethernet header.\<close>

lemma tun_tag:
  assumes "4 \<le> length payload"
  shows "ifu_tag (tun_ip n c @ tun_udp m @ payload) = Some (from_be_bytes (take 4 payload))"
proof -
  have nth: "tun_ip n c ! 9 = 17" "tun_ip n c ! 12 = 10" "tun_ip n c ! 13 = 200"
    by (simp_all add: tun_ip_def to_be_bytes_2 usim_consts ifu_consts)
  have "\<not> looks_ethernet (datagram (tun_ip n c) (tun_udp m) payload)"
    unfolding looks_ethernet_datagram [OF tun_well_formed [OF assms]]
    by (simp add: nth ETH_P_IP_def from_be_bytes_def push_byte_def)
  moreover have "tun_ip n c ! 9 \<noteq> IPPROTO_ICMP" by (simp add: nth iflat_consts)
  ultimately show ?thesis
    using ifu_parse_datagram [OF tun_well_formed [OF assms], of n c "[]" m]
    by (simp add: ifu_tag_def ifu_parse_payload_tag_eq datagram_def KEY_SIZE_def)
qed


section \<open>The pointer chase\<close>

text \<open>The offset the source asserts at compile time, from the layout rules.\<close>

lemma slot_bytes_payload:
  assumes "length (slot_burst s) = 256"
  shows "length (slot_bytes pad s) = 312"
    and "take 8 (drop SIM_PAYLOAD_PTR_OFFSET (slot_bytes pad s)) = to_le_bytes 8 (slot_payload s)"
  using assms by (simp_all add: slot_bytes_def padding_def SIM_PAYLOAD_PTR_OFFSET_def)

lemma chase_finds_tag:
  assumes "map_get (UPROBE_CONFIG_MAP s) UPROBE_CONFIG_KEY = Some printed_config"
    and "arg 2 = Some base" and "base \<noteq> 0" and "length (slot_burst slot) = 256" and "slot_payload slot \<noteq> 0"
    and "read_bytes mem base 312 = Some (slot_bytes pad slot)"
    and "read_bytes mem (slot_payload slot) (length arena) = Some arena" and "4 \<le> length arena"
  shows "ifu_call_tag s (arg, mem) = Some (from_be_bytes (take 4 arena))"
proof -
  have "read_bytes mem (base + 296) 8 = Some (to_le_bytes 8 (slot_payload slot))"
    using read_bytes_part [OF assms(6), of 296 8] slot_bytes_payload(2) [OF assms(4), of pad]
    by (simp add: SIM_PAYLOAD_PTR_OFFSET_def)
  then have "fn_call_payload printed_config mem base = Some (slot_payload slot)"
    by (simp add: fn_call_payload_def printed_config_def SIM_PAYLOAD_PTR_OFFSET_def PAYLOAD_PTR_DIRECT_def)
  moreover have "read_bytes mem (slot_payload slot) 4 = Some (take 4 arena)"
    using read_bytes_part [OF assms(7), of 0 4] assms(8) by simp
  ultimately show ?thesis
    using assms(1-3,5)
    by (simp add: ifu_call_tag_def fn_call_tag_def printed_config_def MAX_ARGS_def KEY_SIZE_def read_tag_bytes_eq
        from_be_bytes_def)
qed

text \<open>The function itself only reads what the caller handed over.\<close>

lemma submit_reads_arena:
  assumes "read_bytes mem (slot_payload slot) (length arena) = Some arena"
    and "unat (payload_length slot) = length arena" and "unat (payload_capacity slot) = length arena"
  shows "iflat_uprobe_sim_submit mem from_ep (Some slot) \<noteq> None"
  using assms by (simp add: iflat_uprobe_sim_submit_def Let_def)


section \<open>Turns of the receiver\<close>

definition app_ok :: "app_state \<Rightarrow> bool" where
  "app_ok s \<longleftrightarrow> length (tun_buf s) = 2048 \<and> length (injections s) \<le> 1024 \<and> distinct (keys (injections s))"

text \<open>What the receiver may hand to the tun device and to the probed function.\<close>

fun output_ok :: "app_output \<Rightarrow> bool" where
  "output_ok (TunWrite p) \<longleftrightarrow>
     (\<exists>c payload. length payload = 64 \<and> p = tun_ip 92 c @ tun_udp 72 @ payload
        \<and> internet_checksum (tun_ip 92 c) = Some 0)"
| "output_ok (CallSubmit slot arena) \<longleftrightarrow>
     length (slot_burst slot) = 256 \<and> length arena = 64 \<and> payload_length slot = 64 \<and> payload_capacity slot = 64"
| "output_ok (Spans _ _ _) \<longleftrightarrow> True"

lemma buffer_holds_message [simp]: "min n 2048 = (64 :: nat) \<longleftrightarrow> n = 64"
  by (simp add: min_def)

lemma leg1_step_test:
  assumes "leg1_ready t = Some (Received buf)" and "length buf = 64" and "length (tun_buf s) = 2048"
  shows "\<exists>c pkt. leg1_step t s
      = Some (s\<lparr>tun_buf := pkt,
                injections := (if tun_write_fails t then injections s
                               else AList.update (from_be_bytes (take 4 buf)) (inject_ns t) (injections s))\<rparr>,
              [TunWrite (tun_ip 92 c @ tun_udp 72 @ buf)])
    \<and> length pkt = 2048 \<and> internet_checksum (tun_ip 92 c) = Some 0"
proof -
  obtain c where "craft_tun_packet (tun_buf s) buf = Some (92, tun_ip 92 c @ tun_udp 72 @ buf @ drop 92 (tun_buf s))"
      "internet_checksum (tun_ip 92 c) = Some 0"
    using craft_tun_packet_eq [of 92 buf "tun_buf s"] assms(2,3) by auto
  then show ?thesis using assms
    by (intro exI [of _ c] exI [of _ "tun_ip 92 c @ tun_udp 72 @ buf @ drop 92 (tun_buf s)"])
      (simp add: leg1_step_def MSG_SIZE_def)
qed

lemma leg1_step_other:
  assumes "\<nexists>buf. leg1_ready t = Some (Received buf) \<and> length buf = 64"
  shows "leg1_step t s = Some (s, [])"
  using assms by (auto simp: leg1_step_def MSG_SIZE_def min_def split: option.split received.split if_splits)

lemma leg2_step_ok:
  assumes "leg2_step t s = (s', out)"
  shows "list_all output_ok out" and "tun_buf s' = tun_buf s"
    and "injections s' = injections s \<or> (\<exists>tag. injections s' = AList.delete tag (injections s))"
  using assms by (auto simp: leg2_step_def MSG_SIZE_def Let_def split: option.splits received.splits if_splits)

lemma receiver_turn_ok:
  assumes "app_ok s"
  shows "\<exists>s' out. receiver_turn t s = Some (s', out) \<and> app_ok s' \<and> list_all output_ok out"
proof -
  obtain s1 out1 where 1: "leg1_step t s = Some (s1, out1)" "list_all output_ok out1"
      "length (tun_buf s1) = 2048" "distinct (keys (injections s1))"
  proof (cases "\<exists>buf. leg1_ready t = Some (Received buf) \<and> length buf = 64")
    case True
    then obtain buf where buf: "leg1_ready t = Some (Received buf)" "length buf = 64" by blast
    then obtain c pkt where "leg1_step t s
      = Some (s\<lparr>tun_buf := pkt,
                injections := (if tun_write_fails t then injections s
                               else AList.update (from_be_bytes (take 4 buf)) (inject_ns t) (injections s))\<rparr>,
              [TunWrite (tun_ip 92 c @ tun_udp 72 @ buf)])"
        "length pkt = 2048" "internet_checksum (tun_ip 92 c) = Some 0"
      using leg1_step_test [OF buf, of s] assms by (auto simp: app_ok_def)
    then show ?thesis using assms buf by (intro that) (auto simp: app_ok_def)
  next
    case False
    then show ?thesis using leg1_step_other [OF False, of s] assms that by (simp add: app_ok_def)
  qed
  obtain s2 out2 where 2: "leg2_step t s1 = (s2, out2)" by (cases "leg2_step t s1")
  note 3 = leg2_step_ok [OF 2]
  have "distinct (keys (injections s2))" using 3(3) 1(4) by auto
  then show ?thesis
    using 1 2 3(1,2) by (auto simp: receiver_turn_def Let_def app_ok_def keys_def)
qed

lemma run_receiver_ok:
  assumes "app_ok s"
  shows "\<exists>s' out. run_receiver s ts = Some (s', out) \<and> app_ok s' \<and> list_all output_ok out"
  using assms
proof (induction ts arbitrary: s)
  case (Cons t ts)
  obtain s1 out1 where "receiver_turn t s = Some (s1, out1)" "app_ok s1" "list_all output_ok out1"
    using receiver_turn_ok [OF Cons.prems] by blast
  moreover obtain s2 out2 where "run_receiver s1 ts = Some (s2, out2)" "app_ok s2" "list_all output_ok out2"
    using Cons.IH [OF \<open>app_ok s1\<close>] by blast
  ultimately show ?case by simp
qed simp


section \<open>Properties\<close>

text \<open>
  C37. Whatever the sockets deliver, the receiver goes on: no write leaves its packet buffer, every
  checksum loop ends, the table of injections never holds more than 1024 tags after a turn, each
  packet it writes to the tun device has the addresses and ports of the second leg and a header
  checksum that verifies, and each structure it hands to the probed function describes a payload
  of 64 bytes.
\<close>

theorem usim_receiver_safe:
  "\<exists>s out. run_receiver app_init ts = Some (s, out) \<and> length (injections s) \<le> 1024 \<and> list_all output_ok out"
proof -
  have "app_ok app_init" by (simp add: app_ok_def app_init_def keys_def)
  from run_receiver_ok [OF this, of ts] show ?thesis by (auto simp: app_ok_def)
qed

lemma sender_cycle_eq: "sender_cycle tag sent_ns = Some (to_be_bytes 4 tag @ to_be_bytes 8 sent_ns @ replicate 52 0)"
proof -
  have "put_all (replicate 64 0) [(0, to_be_bytes 4 tag), (4, to_be_bytes 8 sent_ns)]
      = Some (to_be_bytes 4 tag @ to_be_bytes 8 sent_ns @ replicate 52 0)"
    by (subst put_all_contiguous [of 0]) simp_all
  then show ?thesis by (auto simp: sender_cycle_def MSG_SIZE_def bind_eq_Some_conv)
qed

lemma ethernet_tag:
  assumes "well_formed_datagram ip l4 payload" and "ip ! 9 = IPPROTO_UDP"
    and "length eth = ETH_HLEN" and "from_be_bytes [eth ! 12, eth ! 13] = ETH_P_IP"
  shows "ifu_tag (eth @ datagram ip l4 payload) = Some (from_be_bytes (take 4 payload))"
proof -
  have "ip ! 9 \<noteq> IPPROTO_ICMP" using assms(2) by (simp add: IPPROTO_UDP_def IPPROTO_ICMP_def)
  then show ?thesis
    using ifu_parse_datagram [OF assms(1), of eth] looks_ethernet_frame [OF assms(3,4,1)] assms(3)
    by (simp add: ifu_tag_def ifu_parse_payload_tag_eq KEY_SIZE_def)
qed

text \<open>
  C14. With the settings the simulator prints, the agent measures both legs of every datagram: the
  frame on the first interface, the packet the simulator writes to the tun device and the call of
  the probed function, through the structure and the payload copy in its memory, all have the tag
  the sender drew, so one exact latency is added to each pair of accumulators; and the simulator
  prints its own spans for that tag, from sending to injection and from injection to the call.
\<close>

theorem usim_both_legs_measured:
  assumes "sender_cycle tag sent_ns = Some buf"
    and "well_formed_datagram ip l4 buf" and "ip ! 9 = IPPROTO_UDP"
    and "length eth = ETH_HLEN" and "from_be_bytes [eth ! 12, eth ! 13] = ETH_P_IP"
    and "app_ok a" and "leg1_ready u = Some (Received buf)" and "\<not> tun_write_fails u"
    and "leg1_step u a = Some (a1, [TunWrite p])"
    and "leg2_ready v = Some (Received buf)" and "map_of (injections a2) tag = Some (inject_ns u)"
    and "leg2_step v a2 = (a3, [CallSubmit slot arena, Spans tag' spans total_us])"
    and "ifu_inv K m" and "frame = eth @ datagram ip l4 buf" and "ifu_room1 K m frame"
    and "leg1.undisturbed K tag (ifu_rx1 K m frame t1) es" and "m1 = leg1.watch K (ifu_rx1 K m frame t1) es"
    and "ifu_room2 K m1 p" and "m2 = ifu_rx2 K m1 p t2"
    and "leg2.undisturbed K tag m2 es'" and "m3 = leg2.watch K m2 es'"
    and "map_get (UPROBE_CONFIG_MAP m3) UPROBE_CONFIG_KEY = Some printed_config"
    and "arg 2 = Some base" and "base \<noteq> 0" and "arena_addr v \<noteq> 0"
    and "read_bytes mem base 312 = Some (slot_bytes pad slot)"
    and "read_bytes mem (arena_addr v) 64 = Some arena"
    and "m4 = ifu_call K m3 (arg, mem) t3"
  shows "ifu_total1 m2 = ifu_total1 m1 + saturating_sub t2 t1 \<and> ifu_samples1 m2 = ifu_samples1 m1 + 1
    \<and> ifu_total2 m4 = ifu_total2 m3 + saturating_sub t3 t2 \<and> ifu_samples2 m4 = ifu_samples2 m3 + 1
    \<and> map_of (injections a1) tag = Some (inject_ns u)
    \<and> tag' = tag \<and> spans = Some (saturating_sub (inject_ns u) sent_ns div 1000,
                                  saturating_sub (fn_ns v) (inject_ns u) div 1000)"
proof -
  have buf: "buf = to_be_bytes 4 tag @ to_be_bytes 8 sent_ns @ replicate 52 0"
    using assms(1) by (simp add: sender_cycle_eq)
  then have fields: "length buf = 64" "from_be_bytes (take 4 buf) = tag" "from_be_bytes (take 8 (drop 4 buf)) = sent_ns"
    by simp_all
  obtain c where p: "p = tun_ip 92 c @ tun_udp 72 @ buf" and inj: "map_of (injections a1) tag = Some (inject_ns u)"
    using leg1_step_test [OF assms(7) fields(1), of a] assms(6,8,9) by (auto simp: app_ok_def fields(2) map_of_update)
  have out: "slot_payload slot = arena_addr v" "length (slot_burst slot) = 256" "arena = buf" "tag' = tag"
      "spans = Some (saturating_sub (inject_ns u) sent_ns div 1000, saturating_sub (fn_ns v) (inject_ns u) div 1000)"
    using assms(10-12) fields by (auto simp: leg2_step_def MSG_SIZE_def)
  have tag1: "ifu_tag frame = Some tag" using ethernet_tag [OF assms(2-5)] assms(14) fields(2) by simp
  have tag2: "ifu_tag p = Some tag" using tun_tag [of buf] fields(1,2) by (simp add: p)
  have tag3: "ifu_call_tag m3 (arg, mem) = Some tag"
    using chase_finds_tag [of m3 arg base slot mem pad buf] assms(22-27) fields(1,2) out(1-3) by simp
  have "ifu_inv K m1" unfolding assms(17) by (intro leg1.inv_watch ifu_inv_rx1 assms(13))
  from leg2.measured_once [OF this tag2 assms(18), of t2 es' "(arg, mem)" t3]
    leg1.measured_once [OF assms(13) tag1 assms(15,16), of p t2]
  show ?thesis using tag2 tag3 assms(17,19-21,28) inj out(4,5) by simp
qed

text \<open>The witness: one datagram, an agent with the printed settings, a slot on the stack.\<close>

definition usim_buf :: "u8 list" where
  "usim_buf = to_be_bytes 4 (0xdeadbeef :: u32) @ to_be_bytes 8 (1000 :: u64) @ replicate 52 0"

definition usim_turn :: turn where
  "usim_turn = \<lparr>leg1_ready = Some (Received usim_buf), inject_ns = 5000, tun_write_fails = False,
     leg2_ready = Some (Received usim_buf), fn_ns = 9000, arena_addr = 0x2000\<rparr>"

definition usim_slot :: TxSlotSim where
  "usim_slot = \<lparr>slot_state = 1, slot_index = 0, slot_endpoint = 0, slot_burst = replicate 256 0,
     dispatch_time = 0, enqueued_ncr = 0, dispatch_ncr = 0, slot_payload = 0x2000,
     payload_capacity = 64, payload_length = 64\<rparr>"

definition usim_agent :: ifu_maps where
  "usim_agent = ifu_maps_init\<lparr>UPROBE_CONFIG_MAP := [(UPROBE_CONFIG_KEY, printed_config)]\<rparr>"

definition usim_mem :: user_mem where
  "usim_mem = mem_of [(0x1000, slot_bytes 0 usim_slot), (0x2000, usim_buf)]"

lemma usim_memory:
  "read_bytes usim_mem 0x1000 312 = Some (slot_bytes 0 usim_slot)"
  "read_bytes usim_mem 0x2000 64 = Some usim_buf"
proof -
  have slot: "length (slot_bytes 0 usim_slot) = 312" by (simp add: slot_bytes_payload usim_slot_def)
  show "read_bytes usim_mem 0x1000 312 = Some (slot_bytes 0 usim_slot)"
    unfolding usim_mem_def by (intro read_bytes_mem_of_hit) (simp_all add: slot)
  have "read_bytes usim_mem 0x2000 64 = read_bytes (mem_of [(0x2000, usim_buf)]) 0x2000 64"
    unfolding usim_mem_def by (intro read_bytes_mem_of_skip) (simp_all add: slot)
  also have "\<dots> = Some usim_buf" by (intro read_bytes_mem_of_hit) (simp_all add: usim_buf_def)
  finally show "read_bytes usim_mem 0x2000 64 = Some usim_buf" .
qed

lemma usim_frame:
  "well_formed_datagram demo_ip demo_udp usim_buf" "demo_ip ! 9 = IPPROTO_UDP"
  "length demo_eth = ETH_HLEN" "from_be_bytes [demo_eth ! 12, demo_eth ! 13] = ETH_P_IP"
  by (simp_all add: demo_defs well_formed_datagram_def ipv4_header_def l4_header_def iflat_consts ifu_consts
      from_be_bytes_def push_byte_def usim_buf_def)

lemma usim_rx_config:
  "ifu_inv ref_kernel usim_agent"
  "TIMESTAMP2_MAP (ifu_rx1 ref_kernel usim_agent f t1) = []"
  "UPROBE_CONFIG_MAP (ifu_rx2 ref_kernel (ifu_rx1 ref_kernel usim_agent f t1) p t2) = [(UPROBE_CONFIG_KEY, printed_config)]"
proof -
  show inv: "ifu_inv ref_kernel usim_agent" by (simp add: usim_agent_def ifu_maps_init_def ifu_inv_def)
  show "TIMESTAMP2_MAP (ifu_rx1 ref_kernel usim_agent f t1) = []"
    by (simp add: ifu_rx1_eq usim_agent_def ifu_maps_init_def split: option.split)
  have "UPROBE_CONFIG_MAP (ifu_rx1 ref_kernel usim_agent f t1) = [(UPROBE_CONFIG_KEY, printed_config)]"
    by (simp add: ifu_rx1_eq usim_agent_def split: option.split)
  moreover have "ifu_inv ref_kernel (ifu_rx1 ref_kernel usim_agent f t1)" by (intro ifu_inv_rx1 inv)
  ultimately show "UPROBE_CONFIG_MAP (ifu_rx2 ref_kernel (ifu_rx1 ref_kernel usim_agent f t1) p t2) = [(UPROBE_CONFIG_KEY, printed_config)]"
    by (simp add: ifu_rx2_eq split: option.split)
qed

theorem usim_both_legs_measured_witness:
  "\<exists>a p s. leg1_step usim_turn app_init = Some (a, [TunWrite p])
     \<and> leg2_step usim_turn a = (s, [CallSubmit usim_slot usim_buf, Spans 0xdeadbeef (Some (4, 4)) 8])
     \<and> (let m1 = ifu_rx1 ref_kernel usim_agent (demo_eth @ datagram demo_ip demo_udp usim_buf) 2000;
            m2 = ifu_rx2 ref_kernel m1 p 6000;
            m4 = ifu_call ref_kernel m2 ((\<lambda>i. if i = 2 then Some 0x1000 else None), usim_mem) 9500
        in ifu_total1 m2 = ifu_total1 m1 + 4000 \<and> ifu_total2 m4 = ifu_total2 m2 + 3500)"
proof -
  have buf: "length usim_buf = 64" "from_be_bytes (take 4 usim_buf) = (0xdeadbeef :: u32)"
      "from_be_bytes (take 8 (drop 4 usim_buf)) = (1000 :: u64)" by (simp_all add: usim_buf_def)
  have sent: "sender_cycle 0xdeadbeef 1000 = Some usim_buf" by (simp add: sender_cycle_eq usim_buf_def)
  have ok: "app_ok app_init" by (simp add: app_ok_def app_init_def keys_def)
  have ready: "leg1_ready usim_turn = Some (Received usim_buf)" "\<not> tun_write_fails usim_turn"
      "leg2_ready usim_turn = Some (Received usim_buf)" by (simp_all add: usim_turn_def)
  obtain c pkt where "leg1_step usim_turn app_init
      = Some (app_init\<lparr>tun_buf := pkt, injections := [(0xdeadbeef, 5000)]\<rparr>, [TunWrite (tun_ip 92 c @ tun_udp 72 @ usim_buf)])"
    using leg1_step_test [OF ready(1) buf(1), of app_init] by (auto simp: app_init_def usim_turn_def buf(2))
  moreover define a p where "a = app_init\<lparr>tun_buf := pkt, injections := [(0xdeadbeef :: u32, 5000 :: u64)]\<rparr>"
    and "p = tun_ip 92 c @ tun_udp 72 @ usim_buf"
  ultimately have step1: "leg1_step usim_turn app_init = Some (a, [TunWrite p])" by simp
  have inj: "map_of (injections a) 0xdeadbeef = Some (inject_ns usim_turn)" by (simp add: a_def usim_turn_def)
  obtain s where step2: "leg2_step usim_turn a = (s, [CallSubmit usim_slot usim_buf, Spans 0xdeadbeef (Some (4, 4)) 8])"
    using inj by (auto simp: leg2_step_def usim_turn_def usim_slot_def MSG_SIZE_def buf saturating_sub_def)
  let ?m1 = "ifu_rx1 ref_kernel usim_agent (demo_eth @ datagram demo_ip demo_udp usim_buf) 2000"
  have room: "ifu_room1 ref_kernel usim_agent (demo_eth @ datagram demo_ip demo_udp usim_buf)" "ifu_room2 ref_kernel ?m1 p"
    by (simp_all add: ifu_room1_def ifu_room2_def usim_rx_config(2)) (simp add: usim_agent_def ifu_maps_init_def)
  show ?thesis
    using usim_both_legs_measured [where es = "[]" and es' = "[]" and ?t1.0 = 2000 and ?t2.0 = 6000 and ?t3.0 = 9500
        and ?m1.0 = ?m1 and ?m2.0 = "ifu_rx2 ref_kernel ?m1 p 6000" and ?m3.0 = "ifu_rx2 ref_kernel ?m1 p 6000"
        and arg = "\<lambda>i. if i = 2 then Some 0x1000 else None" and base = "0x1000" and mem = usim_mem and pad = 0,
        OF sent usim_frame ok ready(1,2) step1 ready(3) inj step2 usim_rx_config(1) refl room(1) _ _ room(2) refl
          _ _ _ _ _ _ usim_memory(1) _ refl]
      step1 step2 usim_memory
    by (simp add: usim_turn_def usim_rx_config map_get_def saturating_sub_def)
qed


section \<open>Set-up and tear-down\<close>

text \<open>
  The namespace is all the simulator creates outside its process: the veth pair goes with it, the
  tun device with its descriptor. A failure to make a socket non-blocking is fatal after the
  sender has been spawned, but before the receiver runs.
\<close>

definition created :: "(host_action \<times> host_action) list" where
  "created = [(HostCommand ''ip'' [''netns'', ''add'', NETNS], HostCommand ''ip'' [''netns'', ''delete'', NETNS])]"

definition tun_steps :: "sim_step list" where
  "tun_steps = create_tun ''tun0''
   @ [run ''ip'' [''addr'', ''add'', TUN_IP @ ''/24'', ''dev'', ''tun0''],
      run ''ip'' [''link'', ''set'', ''tun0'', ''up'']]"

definition launch_steps :: "sim_step list" where
  "launch_steps =
     [Require (BindSocket (VETH_HOST_IP @ '':'' @ to_string LEG1_PORT))
        (\<lambda>r. ''leg-1 UDP bind failed: '' @ response_text r),
      Require (BindSocket (TUN_IP @ '':'' @ to_string LEG2_PORT))
        (\<lambda>r. ''leg-2 UDP bind failed: '' @ response_text r)]
   @ spawn_sender NETNS
   @ [Require (SetNonblocking ''leg1'') (\<lambda>r. ''set_nonblocking failed: '' @ response_text r),
      Require (SetNonblocking ''leg2'') (\<lambda>r. ''set_nonblocking failed: '' @ response_text r)]"

definition down_actions :: "host_action list" where
  "down_actions = [HostCommand ''ip'' [''netns'', ''delete'', NETNS]]"

lemma usim_main_steps_eq:
  "main_steps delay = lifecycle cleanup_stale tun_steps (setup_topology delay) launch_steps down_actions"
  by (simp add: main_steps_def lifecycle_def tun_steps_def launch_steps_def teardown_def down_actions_def run_ignore_def)

interpretation ifu_topology:
  simulator_topology cleanup_stale tun_steps setup_topology launch_steps down_actions created
proof
  show "BestEffort r \<in> set cleanup_stale" if "(c, r) \<in> set created" for c r
    using that by (auto simp: created_def cleanup_stale_def run_ignore_def)
  show "c \<in> step_action ` set (setup_topology delay)" if "(c, r) \<in> set created" for c r delay
    using that by (auto simp: created_def setup_topology_def run_def)
  show "r \<in> set down_actions" if "(c, r) \<in> set created" for c r
    using that by (auto simp: created_def down_actions_def)
  show "RunReceiver \<notin> step_action ` set (cleanup_stale @ tun_steps @ setup_topology delay @ launch_steps)" for delay
    by (auto simp: tun_steps_def launch_steps_def cleanup_stale_def create_tun_def setup_topology_def spawn_sender_def
        run_def run_ignore_def)
qed

lemma usim_tears_down:
  assumes "main H is_root argv = Simulate (tr, fatal)"
  shows "(fatal = None \<longrightarrow>
           (\<forall>(c, r)\<in>set created. subseq [r, c, RunReceiver, KillSender, WaitSender, r, CloseTun] tr))
    \<and> (fatal \<noteq> None \<longrightarrow> RunReceiver \<notin> set tr)"
proof -
  obtain delay where "run_sim H [] (main_steps delay) = (tr, fatal)"
    using assms unfolding main_def by (rule simulator_main_Simulate)
  then show ?thesis unfolding usim_main_steps_eq by (rule ifu_topology.tears_down)
qed

end
