(* ===== verification/Sca_Sim.thy ===== *)
theory Sca_Sim
  imports Wire Sca_Ebpf Rust_Std "HOL-Library.Sublist"
begin

text \<open>
  The traffic simulator of \<open>sca\<close> (\<open>src/bpfagent/examples/sca_sim.rs\<close>): one process per component of
  the data flow, wired by UNIX stream sockets, passing a request down the chain and its reply
  back. Modelled here are the roles, the wire format with sending and receiving, the worker's and
  the launcher's set-up, the thread of the pause key and the clean-up; the threads of the workers are in
  \<open>Sca_Pipeline\<close>. The kernel's answers, the splits of stream reads and the schedule of the launcher's
  two threads are arguments. \<open>NNG_SPF_SIZE\<close> is the constant of
  the same name in \<open>Sca_Ebpf\<close>.

  Shown: the roles are those of the agent's \<open>DATA_FLOW\<close>; a message is read back by the receiver
  however the stream is split, and by the agent from the sender's memory; when the launcher ends the
  processes it started, and when not.
\<close>

unbundle bit_operations_syntax

definition MSG_SIZE :: nat where "MSG_SIZE = 64"
definition CONNECT_RETRIES :: nat where "CONNECT_RETRIES = 200"

record Session =
  listen_path :: string
  out_path :: string

record Role =
  role_name :: string
  sessions :: "Session list"
  initiator_out :: "string option"
  delay :: nat

text \<open>\<open>Duration::from_millis\<close>, in nanoseconds.\<close>

definition from_millis :: "nat \<Rightarrow> nat" where
  "from_millis ms = ms * 1000000"

definition ROLES :: "Role list" where
  "ROLES =
     [\<lparr>role_name = ''DATA_SOURCE'', sessions = [], initiator_out = Some ''/tmp/DATA_L3_TO_INTERNAL_ROUTER'',
        delay = 0\<rparr>,
      \<lparr>role_name = ''INTERNAL_ROUTER'',
        sessions = [\<lparr>listen_path = ''/tmp/DATA_L3_TO_INTERNAL_ROUTER'', out_path = ''/tmp/DATA_L3_TO_WF_L''\<rparr>],
        initiator_out = None, delay = from_millis 5\<rparr>,
      \<lparr>role_name = ''RED_WF_COMM_L'',
        sessions = [\<lparr>listen_path = ''/tmp/DATA_L3_TO_WF_L'', out_path = ''/tmp/WF_L_TO_FRAG''\<rparr>,
                    \<lparr>listen_path = ''/tmp/FRAG_TO_COMM_WF_L'', out_path = ''/tmp/DATA_L_TO_SINK''\<rparr>],
        initiator_out = None, delay = from_millis 8\<rparr>,
      \<lparr>role_name = ''FRAGMENTER'',
        sessions = [\<lparr>listen_path = ''/tmp/WF_L_TO_FRAG'', out_path = ''/tmp/FRAG_TO_IRSS_L''\<rparr>,
                    \<lparr>listen_path = ''/tmp/IRSS_L_TO_FRAG'', out_path = ''/tmp/FRAG_TO_COMM_WF_L''\<rparr>],
        initiator_out = None, delay = from_millis 11\<rparr>,
      \<lparr>role_name = ''RED_IRSS_COMM_L'',
        sessions = [\<lparr>listen_path = ''/tmp/FRAG_TO_IRSS_L'', out_path = ''/tmp/IRSS_L_TO_FRAG''\<rparr>],
        initiator_out = None, delay = from_millis 14\<rparr>,
      \<lparr>role_name = ''DATA_SINK'',
        sessions = [\<lparr>listen_path = ''/tmp/DATA_L_TO_SINK'', out_path = ''''\<rparr>],
        initiator_out = None, delay = from_millis 3\<rparr>]"

definition ALL_PATHS :: "string list" where
  "ALL_PATHS =
     [''/tmp/DATA_L3_TO_INTERNAL_ROUTER'', ''/tmp/DATA_L3_TO_WF_L'', ''/tmp/WF_L_TO_FRAG'', ''/tmp/FRAG_TO_IRSS_L'',
      ''/tmp/IRSS_L_TO_FRAG'', ''/tmp/FRAG_TO_COMM_WF_L'', ''/tmp/DATA_L_TO_SINK'']"


section \<open>Messages\<close>

definition build_message :: "u16 \<Rightarrow> u32 \<Rightarrow> u8 list option" where
  "build_message msg_type protocol =
     put_all (replicate MSG_SIZE 0)
       [(NNG_SPF_SIZE, to_be_bytes 4 protocol), (NNG_SPF_SIZE + 4, to_be_bytes 2 msg_type),
        (NNG_SPF_SIZE + 6, to_be_bytes 2 (of_nat MSG_SIZE :: u16))]"

text \<open>
  The structures \<open>send_message\<close> hands to \<open>sendmsg\<close>, at the addresses of its local variables, and
  how it takes the result.
\<close>

record message_image =
  hdr_addr :: u64
  hdr_bytes :: "u8 list"
  iov_addr :: u64
  iov_bytes :: "u8 list"
  buf_bytes :: "u8 list"

definition send_image :: "u8 \<Rightarrow> u64 \<Rightarrow> u64 \<Rightarrow> u64 \<Rightarrow> u16 \<Rightarrow> u32 \<Rightarrow> message_image option" where
  "send_image pad hdr iov buf_addr msg_type protocol =
     do {
       buf \<leftarrow> build_message msg_type protocol;
       Some \<lparr>hdr_addr = hdr, hdr_bytes = msghdr_bytes pad 0 0 iov 1 0, iov_addr = iov,
             iov_bytes = iovec_bytes buf_addr (of_nat (length buf)), buf_bytes = buf\<rparr>
     }"

definition send_result :: "string + nat \<Rightarrow> string option" where
  "send_result r =
     (case r of
        Inl e \<Rightarrow> Some (''sendmsg() failed: '' @ e)
      | Inr sent \<Rightarrow>
          if sent \<noteq> MSG_SIZE
          then Some (''sendmsg() short write: '' @ decimal sent @ ''/'' @ decimal MSG_SIZE)
          else None)"

text \<open>
  \<open>recv_message\<close>: the bytes that \<open>recv\<close> returns, never more than asked for; an empty read is a
  closed connection. A list that runs out stands for a blocked read.
\<close>

datatype recv_event = RecvBytes "u8 list" | RecvFailed string

datatype 'a recv_outcome = Blocked | FatalExit string | Done 'a "recv_event list"

fun recv_loop :: "u8 list \<Rightarrow> recv_event list \<Rightarrow> u8 list recv_outcome" where
  "recv_loop got rs =
     (if length got < MSG_SIZE then
        (case rs of
           [] \<Rightarrow> Blocked
         | RecvFailed e # _ \<Rightarrow> FatalExit (''recv() failed: '' @ e)
         | RecvBytes bs # rs \<Rightarrow>
             if bs = [] then FatalExit ''recv(): peer closed connection''
             else recv_loop (got @ take (MSG_SIZE - length got) bs) rs)
      else Done got rs)"

definition recv_message :: "recv_event list \<Rightarrow> (u32 \<times> u16) recv_outcome" where
  "recv_message rs =
     (case recv_loop [] rs of
        Blocked \<Rightarrow> Blocked
      | FatalExit m \<Rightarrow> FatalExit m
      | Done buf rs \<Rightarrow>
          Done (from_be_bytes [buf ! NNG_SPF_SIZE, buf ! (NNG_SPF_SIZE + 1), buf ! (NNG_SPF_SIZE + 2),
                               buf ! (NNG_SPF_SIZE + 3)],
                from_be_bytes [buf ! (NNG_SPF_SIZE + 4), buf ! (NNG_SPF_SIZE + 5)]) rs)"

declare recv_loop.simps [simp del]


section \<open>Sockets and processes\<close>

text \<open>\<open>make_addr\<close> as the bytes of a \<open>sockaddr_un\<close>; the assertion on the length is \<open>None\<close>.\<close>

definition make_addr :: "string \<Rightarrow> u8 list option" where
  "make_addr pth =
     (if length pth < 108
      then Some (to_le_bytes 2 (1 :: u16) @ map (of_nat \<circ> of_char) pth @ replicate (108 - length pth) 0)
      else None)"

text \<open>\<open>connect_socket\<close> over the outcomes of its attempts; a list that runs out is still retrying.\<close>

fun connect_loop :: "string \<Rightarrow> nat \<Rightarrow> string option list \<Rightarrow> (string + unit) option" where
  "connect_loop pth attempt [] = None"
| "connect_loop pth attempt (None # _) = Some (Inr ())"
| "connect_loop pth attempt (Some e # rs) =
     (if attempt + 1 = CONNECT_RETRIES
      then Some (Inl (''connect('' @ pth @ '') failed after '' @ decimal CONNECT_RETRIES @ '' retries: '' @ e))
      else connect_loop pth (attempt + 1) rs)"

definition connect_socket :: "string \<Rightarrow> string option list \<Rightarrow> (string + unit) option" where
  "connect_socket pth rs = connect_loop pth 0 rs"

text \<open>The set-up of \<open>run_worker\<close>: first every listener, then every outgoing connection, then the
  incoming ones, and which descriptor belongs to which session.\<close>

datatype socket_action = Listen string | Connect string | Accept string

definition worker_setup :: "Role \<Rightarrow> socket_action list" where
  "worker_setup role =
     map (\<lambda>s. Listen (listen_path s)) (sessions role)
   @ map (\<lambda>s. Connect (out_path s)) (filter (\<lambda>s. out_path s \<noteq> []) (sessions role))
   @ map (\<lambda>s. Accept (listen_path s)) (sessions role)"

fun out_per_session :: "Session list \<Rightarrow> i32 list \<Rightarrow> i32 option list option" where
  "out_per_session [] outs = Some []"
| "out_per_session (s # ss) outs =
     (if out_path s = [] then map_option ((#) None) (out_per_session ss outs)
      else
        (case outs of
           [] \<Rightarrow> None
         | fd # outs \<Rightarrow> map_option ((#) (Some fd)) (out_per_session ss outs)))"

datatype signal = SIGSTOP | SIGCONT | SIGTERM

datatype launcher_action =
  RemoveFile string
| SpawnRole string
| SocketsUp
| ShuttingDown
| Kill u32 signal
| WaitChild u32

text \<open>\<open>watch_pause_key\<close> over the bytes read from the terminal.\<close>

fun watch_pause_key :: "u32 list \<Rightarrow> bool \<Rightarrow> u8 list \<Rightarrow> launcher_action list" where
  "watch_pause_key pids paused [] = []"
| "watch_pause_key pids paused (b # bs) =
     (if b \<noteq> 0x20 then watch_pause_key pids paused bs
      else
        (let paused = (\<not> paused); sig = (if paused then SIGSTOP else SIGCONT)
         in map (\<lambda>pid. Kill pid sig) pids @ watch_pause_key pids paused bs))"

definition cleanup_socket_files :: "launcher_action list" where
  "cleanup_socket_files = map RemoveFile ALL_PATHS"

definition cleanup :: "u32 list \<Rightarrow> launcher_action list" where
  "cleanup children =
     concat (map (\<lambda>pid. [Kill pid SIGCONT, Kill pid SIGTERM]) children) @ map WaitChild children
   @ cleanup_socket_files"

text \<open>
  The thread of the pause key runs beside the main thread of the launcher: a schedule says whose step
  is next, \<open>True\<close> the main thread's. The main thread goes on to its end, and the other thread dies
  with the process.
\<close>

fun interleave :: "bool list \<Rightarrow> 'a list \<Rightarrow> 'a list \<Rightarrow> 'a list" where
  "interleave sched [] ts = []"
| "interleave [] (m # ms) ts = m # ms"
| "interleave (True # sched) (m # ms) ts = m # interleave sched ms ts"
| "interleave (False # sched) (m # ms) [] = interleave sched (m # ms) []"
| "interleave (False # sched) (m # ms) (t # ts) = t # interleave sched (m # ms) ts"

text \<open>
  \<open>run_launcher\<close>: \<open>spawn\<close> answers with a process id or an error, \<open>up\<close> says whether all sockets exist
  before the deadline, \<open>typed\<close> is what is typed, \<open>died\<close> whether the launcher ends because a child
  exited, \<open>sched\<close> is the schedule of the two threads. \<open>ShuttingDown\<close> marks where the main thread leaves
  its waiting loop. The result is the actions, and the exit code with the fatal message, if any. A
  \<open>WaitChild\<close> returns once the child has ended; the actions after it are those that follow if it does.
\<close>

fun spawn_roles :: "(string \<Rightarrow> string + u32) \<Rightarrow> Role list \<Rightarrow> launcher_action list \<times> (string + u32 list)" where
  "spawn_roles spawn [] = ([], Inr [])"
| "spawn_roles spawn (r # rs) =
     (case spawn (role_name r) of
        Inl e \<Rightarrow> ([SpawnRole (role_name r)], Inl (''failed to spawn '' @ role_name r @ '': '' @ e))
      | Inr pid \<Rightarrow>
          (let (acts, res) = spawn_roles spawn rs
           in (SpawnRole (role_name r) # acts, map_sum id ((#) pid) res)))"

definition run_launcher ::
  "(string \<Rightarrow> string + u32) \<Rightarrow> bool \<Rightarrow> u8 list \<Rightarrow> bool \<Rightarrow> bool list \<Rightarrow> launcher_action list \<times> nat \<times> string option" where
  "run_launcher spawn up typed died sched =
     (let (acts1, workers) = spawn_roles spawn (filter (\<lambda>r. initiator_out r = None) ROLES) in
      case workers of
        Inl m \<Rightarrow> (cleanup_socket_files @ acts1, 1, Some m)
      | Inr children \<Rightarrow>
          if \<not> up
          then (cleanup_socket_files @ acts1 @ cleanup children, 1, Some ''timed out waiting for listener sockets'')
          else
            (let (acts2, initiators) = spawn_roles spawn (filter (\<lambda>r. initiator_out r \<noteq> None) ROLES) in
             case initiators of
               Inl m \<Rightarrow> (cleanup_socket_files @ acts1 @ [SocketsUp] @ acts2, 1, Some m)
             | Inr pids \<Rightarrow>
                 (cleanup_socket_files @ acts1 @ [SocketsUp] @ acts2
                  @ interleave sched (ShuttingDown # cleanup (children @ pids)) (watch_pause_key pids False typed),
                  if died then 1 else 0, None)))"

datatype invocation = Launcher | RunRole Role | UnknownRole string

definition main :: "string option \<Rightarrow> invocation" where
  "main arg =
     (case arg of
        None \<Rightarrow> Launcher
      | Some name \<Rightarrow>
          (let name_lossy = from_utf8_lossy name in
           case find (\<lambda>r. role_name r = name_lossy) ROLES of
             Some role \<Rightarrow> RunRole role
           | None \<Rightarrow> UnknownRole (''unknown role '' @ [CHR 0x27] @ name_lossy @ [CHR 0x27])))"


section \<open>A message is read back\<close>

definition wire_message :: "u16 \<Rightarrow> u32 \<Rightarrow> u8 list" where
  "wire_message msg_type protocol =
     replicate 9 0 @ to_be_bytes 4 protocol @ to_be_bytes 2 msg_type @ [0, 64] @ replicate 47 0"

lemma build_message_eq: "build_message msg_type protocol = Some (wire_message msg_type protocol)"
  unfolding build_message_def
  by (subst put_all_contiguous [of NNG_SPF_SIZE])
    (simp_all add: nng_sizes MSG_SIZE_def wire_message_def to_be_bytes_2)

lemma length_wire_message [simp]: "length (wire_message msg_type protocol) = 64"
  by (simp add: wire_message_def)

lemma wire_message_fields:
  "take 4 (drop 9 (wire_message msg_type protocol)) = to_be_bytes 4 protocol"
  "take 2 (drop 13 (wire_message msg_type protocol)) = to_be_bytes 2 msg_type"
  by (simp_all add: wire_message_def)

lemma nth_slice_4: "i + 3 < length xs \<Longrightarrow> [xs ! i, xs ! (i + 1), xs ! (i + 2), xs ! (i + 3)] = take 4 (drop i xs)"
  by (rule nth_equalityI) (auto simp: less_Suc_eq numeral_eq_Suc)

lemma nth_slice_2: "i + 1 < length xs \<Longrightarrow> [xs ! i, xs ! (i + 1)] = take 2 (drop i xs)"
  by (rule nth_equalityI) (auto simp: less_Suc_eq numeral_eq_Suc)

text \<open>Any way of splitting the bytes into non-empty reads gives them back.\<close>

lemma recv_loop_split:
  assumes "length got + length (concat css) = 64" and "[] \<notin> set css"
  shows "recv_loop got (map RecvBytes css @ rs) = Done (got @ concat css) rs"
  using assms
proof (induction css arbitrary: got)
  case Nil
  then show ?case by (subst recv_loop.simps) (simp add: MSG_SIZE_def)
next
  case (Cons cs css)
  then have "length got < 64" by (cases cs) auto
  then show ?case
    using Cons by (subst recv_loop.simps) (auto simp: MSG_SIZE_def)
qed

lemma recv_message_split:
  assumes "concat css = wire_message msg_type protocol" and "[] \<notin> set css"
  shows "recv_message (map RecvBytes css @ rs) = Done (protocol, msg_type) rs"
proof -
  let ?m = "wire_message msg_type protocol"
  have "recv_loop [] (map RecvBytes css @ rs) = Done ?m rs"
    using recv_loop_split [of "[]" css rs] assms by simp
  moreover have "[?m ! 9, ?m ! 10, ?m ! 11, ?m ! 12] = to_be_bytes 4 protocol"
    using nth_slice_4 [of 9 ?m] by (simp add: wire_message_fields)
  moreover have "[?m ! 13, ?m ! 14] = to_be_bytes 2 msg_type"
    using nth_slice_2 [of 13 ?m] by (simp add: wire_message_fields)
  ultimately show ?thesis by (simp add: recv_message_def nng_sizes)
qed

text \<open>The agent's tracepoint reads the same from the memory of the sender.\<close>

definition image_in :: "user_mem \<Rightarrow> u64 \<Rightarrow> message_image \<Rightarrow> bool" where
  "image_in mem buf_addr im \<longleftrightarrow>
     read_bytes mem (hdr_addr im) 56 = Some (hdr_bytes im) \<and> read_bytes mem (iov_addr im) 16 = Some (iov_bytes im)
     \<and> read_bytes mem buf_addr (length (buf_bytes im)) = Some (buf_bytes im)"

lemma image_header:
  assumes "send_image pad hdr iov buf_addr msg_type protocol = Some im" and "image_in mem buf_addr im"
    and "iov \<noteq> 0" and "buf_addr \<noteq> 0"
  shows "read_nng_header mem hdr = Some (protocol, msg_type)"
proof -
  have im: "hdr_addr im = hdr" "hdr_bytes im = msghdr_bytes pad 0 0 iov 1 0" "iov_addr im = iov"
      "iov_bytes im = iovec_bytes buf_addr 64" "buf_bytes im = wire_message msg_type protocol"
    using assms(1) by (auto simp: send_image_def build_message_eq)
  obtain h where h: "read_user_msghdr mem hdr = Some h" "msg_iov h = iov" "msg_iovlen h = 1"
    using assms(2) im
    by (auto simp: read_user_msghdr_def image_in_def intro!: field_le_bytes)
      (simp_all add: msghdr_bytes_def padding_def field_le_bytes)
  obtain v where v: "read_user_iovec mem iov = Some v" "iov_base v = buf_addr" "iov_len v = 64"
    using assms(2) im
    by (auto simp: read_user_iovec_def image_in_def)
      (simp_all add: iovec_bytes_def padding_def field_le_bytes)
  have buf: "read_bytes mem buf_addr 64 = Some (wire_message msg_type protocol)"
    using assms(2) im by (simp add: image_in_def)
  have "carries_header mem hdr (to_be_bytes 4 protocol) (to_be_bytes 2 msg_type)"
    unfolding carries_header_def
    using h v assms(3,4) read_bytes_part [OF buf, of 9 4] read_bytes_part [OF buf, of 13 2]
    by (simp add: wire_message_fields)
  then show ?thesis by (auto simp: read_nng_header_iff intro!: exI)
qed


section \<open>Processes\<close>

lemma connect_loop_fails:
  assumes "attempt + n = CONNECT_RETRIES" and "0 < n"
  shows "(\<exists>m. connect_loop pth attempt rs = Some (Inl m)) \<longleftrightarrow> n \<le> length rs \<and> None \<notin> set (take n rs)"
  using assms
proof (induction pth attempt rs arbitrary: n rule: connect_loop.induct)
  case (3 pth attempt e rs)
  then obtain k where n: "n = Suc k" by (cases n) auto
  show ?case
  proof (cases "k = 0")
    case True
    then show ?thesis using 3 n by simp
  next
    case False
    then show ?thesis using 3 n by simp
  qed
qed (auto simp: take_Cons')

text \<open>The fallible counting of \<open>run_worker\<close> gives every session the descriptor of its own path.\<close>

lemma out_per_session_ok:
  "out_per_session ss (map f (filter (\<lambda>s. out_path s \<noteq> []) ss))
     = Some (map (\<lambda>s. if out_path s = [] then None else Some (f s)) ss)"
  by (induction ss) auto

lemma addresses_fit: "list_all (\<lambda>pth. make_addr pth \<noteq> None) ALL_PATHS"
  by (simp add: make_addr_def ALL_PATHS_def)

lemma roles_resolve: "list_all (\<lambda>r. main (Some (role_name r)) = RunRole r) ROLES"
proof -
  have "list_all (\<lambda>r. list_all (\<lambda>c. of_char c < (128 :: nat)) (role_name r)) ROLES" by (simp add: ROLES_def)
  then have "list_all (\<lambda>r. from_utf8_lossy (role_name r) = role_name r) ROLES"
    by (auto simp: list_all_iff from_utf8_lossy_ascii)
  moreover have "list_all (\<lambda>r. find (\<lambda>r'. role_name r' = role_name r) ROLES = Some r) ROLES"
    by (simp add: ROLES_def)
  ultimately show ?thesis by (simp add: main_def list_all_iff)
qed

text \<open>
  A process under signals: stopped or not, asked to end or not. It ends once it runs and has been
  asked to.
\<close>

record proc_state =
  stopped :: bool
  asked :: bool

fun signalled :: "u32 \<Rightarrow> launcher_action \<Rightarrow> proc_state \<Rightarrow> proc_state" where
  "signalled pid (Kill p SIGSTOP) s = (if p = pid then s\<lparr>stopped := True\<rparr> else s)"
| "signalled pid (Kill p SIGCONT) s = (if p = pid then s\<lparr>stopped := False\<rparr> else s)"
| "signalled pid (Kill p SIGTERM) s = (if p = pid then s\<lparr>asked := True\<rparr> else s)"
| "signalled pid _ s = s"

definition can_end :: "proc_state \<Rightarrow> bool" where
  "can_end s \<longleftrightarrow> \<not> stopped s \<and> asked s"

lemma asked_stays: "asked s \<Longrightarrow> asked (fold (signalled pid) L s)"
proof (induction L arbitrary: s)
  case (Cons a L)
  have "asked (signalled pid a s)" using Cons.prems by (cases "(pid, a, s)" rule: signalled.cases) auto
  then show ?case using Cons.IH by simp
qed simp

lemma asked_signalled: "Kill pid SIGTERM \<in> set L \<Longrightarrow> asked (fold (signalled pid) L s)"
  by (auto dest!: split_list simp: asked_stays)

lemma running_stays:
  "\<not> stopped s \<Longrightarrow> Kill pid SIGSTOP \<notin> set L \<Longrightarrow> \<not> stopped (fold (signalled pid) L s)"
proof (induction L arbitrary: s)
  case (Cons a L)
  have "\<not> stopped (signalled pid a s)" using Cons.prems by (cases "(pid, a, s)" rule: signalled.cases) auto
  then show ?case using Cons by simp
qed simp

lemma running_continued:
  "Kill pid SIGCONT \<in> set L \<Longrightarrow> Kill pid SIGSTOP \<notin> set L \<Longrightarrow> \<not> stopped (fold (signalled pid) L s)"
  by (auto dest!: split_list simp: running_stays)


section \<open>Two threads\<close>

lemma interleave_shuffles: "\<exists>ts' ts''. ts = ts' @ ts'' \<and> interleave sched ms ts \<in> shuffles ms ts'"
proof (induction sched ms ts rule: interleave.induct)
  case (2 m ms ts)
  show ?case by (intro exI [of _ "[]"] exI [of _ ts]) simp
next
  case (3 sched m ms ts)
  then obtain ts' ts'' where "ts = ts' @ ts''" "interleave sched ms ts \<in> shuffles ms ts'" by blast
  then show ?case by (intro exI [of _ ts'] exI [of _ ts'']) (simp add: Cons_in_shuffles_iff)
next
  case (5 sched m ms t ts)
  then obtain ts' ts'' where "ts = ts' @ ts''" "interleave sched (m # ms) ts \<in> shuffles (m # ms) ts'" by blast
  then show ?case by (intro exI [of _ "t # ts'"] exI [of _ ts'']) (simp add: Cons_in_shuffles_iff del: shuffles.simps)
qed auto

lemma shuffles_split:
  assumes "zs \<in> shuffles (as @ x # bs) ts"
  shows "\<exists>za zb ta tb. zs = za @ x # zb \<and> ts = ta @ tb \<and> za \<in> shuffles as ta \<and> zb \<in> shuffles bs tb"
  using assms
proof (induction zs arbitrary: as ts)
  case (Cons z zs)
  consider (main) "z = hd (as @ x # bs)" "zs \<in> shuffles (tl (as @ x # bs)) ts"
    | (thread) "ts \<noteq> []" "z = hd ts" "zs \<in> shuffles (as @ x # bs) (tl ts)"
    using Cons.prems by (auto simp: Cons_in_shuffles_iff)
  then show ?case
  proof cases
    case main
    show ?thesis
    proof (cases as)
      case Nil
      then show ?thesis using main by (intro exI [of _ "[]"] exI [of _ zs] exI [of _ ts]) simp
    next
      case (Cons a as')
      then obtain za zb ta tb where "zs = za @ x # zb" "ts = ta @ tb" "za \<in> shuffles as' ta" "zb \<in> shuffles bs tb"
        using Cons.IH [of as' ts] main(2) by auto
      then show ?thesis
        using main(1) Cons by (intro exI [of _ "a # za"] exI [of _ zb] exI [of _ ta] exI [of _ tb])
          (simp add: Cons_in_shuffles_iff)
    qed
  next
    case thread
    then obtain za zb ta tb where split: "zs = za @ x # zb" "tl ts = ta @ tb" "za \<in> shuffles as ta" "zb \<in> shuffles bs tb"
      using Cons.IH [of as "tl ts"] by blast
    then have "ts = (z # ta) @ tb" using thread(1,2) by (metis append_Cons list.collapse)
    then show ?thesis
      using split by (intro exI [of _ "z # za"] exI [of _ zb] exI [of _ "z # ta"] exI [of _ tb])
        (simp add: Cons_in_shuffles_iff)
  qed
qed simp

lemma shuffles_subseq: "zs \<in> shuffles xs ys \<Longrightarrow> subseq xs zs"
proof (induction zs arbitrary: xs ys)
  case (Cons z zs)
  then consider "xs \<noteq> []" "hd xs = z" "zs \<in> shuffles (tl xs) ys" | "zs \<in> shuffles xs (tl ys)"
    by (auto simp: Cons_in_shuffles_iff)
  then show ?case
  proof cases
    case 1
    then have "subseq (z # tl xs) (z # zs)" using Cons.IH by simp
    then show ?thesis using 1 by (metis list.collapse)
  qed (use Cons.IH in auto)
qed simp


section \<open>The launcher\<close>

text \<open>In the clean-up, with any steps of another thread between: every child is asked to end before
  it is waited for, and if no one stops it in the meantime, it keeps running.\<close>

lemma cleanup_reaps:
  assumes "z \<in> shuffles (cleanup children) ts" and "pid \<in> set children"
  shows "\<exists>before after. z = before @ WaitChild pid # after \<and> asked (fold (signalled pid) before s)
    \<and> subseq cleanup_socket_files after
    \<and> (Kill pid SIGSTOP \<notin> set z \<longrightarrow>
         (\<forall>mid rest. after = mid @ rest \<longrightarrow> can_end (fold (signalled pid) (before @ WaitChild pid # mid) s)))"
proof -
  obtain xs ys where ch: "children = xs @ pid # ys" using assms(2) by (auto dest: split_list)
  let ?A = "concat (map (\<lambda>p. [Kill p SIGCONT, Kill p SIGTERM]) children) @ map WaitChild xs"
  have "cleanup children = ?A @ WaitChild pid # (map WaitChild ys @ cleanup_socket_files)"
    by (simp add: cleanup_def ch)
  then have "z \<in> shuffles (?A @ WaitChild pid # (map WaitChild ys @ cleanup_socket_files)) ts"
    using assms(1) by (simp only:)
  from shuffles_split [OF this] obtain za zb ta tb where z: "z = za @ WaitChild pid # zb" and za: "za \<in> shuffles ?A ta"
    and zb: "zb \<in> shuffles (map WaitChild ys @ cleanup_socket_files) tb"
    by blast
  have sig: "Kill pid SIGCONT \<in> set za" "Kill pid SIGTERM \<in> set za"
    using set_shuffles [OF za] assms(2) by auto
  have ends: "can_end (fold (signalled pid) (za @ WaitChild pid # mid) s)"
    if "Kill pid SIGSTOP \<notin> set z" "zb = mid @ rest" for mid rest
    using that sig asked_signalled [of pid "za @ WaitChild pid # mid" s]
      running_continued [of pid "za @ WaitChild pid # mid" s] by (auto simp: can_end_def z)
  have "subseq cleanup_socket_files zb"
    by (rule subseq_order.order_trans [OF list_emb_append2 [OF subseq_order.order_refl] shuffles_subseq [OF zb]])
  then show ?thesis using z asked_signalled [OF sig(2), of s] ends by blast
qed

lemma spawn_roles_cases:
  "(\<exists>ys r zs e. rs = ys @ r # zs \<and> spawn (role_name r) = Inl e \<and> (\<forall>y\<in>set ys. \<exists>pid. spawn (role_name y) = Inr pid)
      \<and> spawn_roles spawn rs = (map (SpawnRole \<circ> role_name) (ys @ [r]), Inl (''failed to spawn '' @ role_name r @ '': '' @ e)))
   \<or> (\<exists>pids. (\<forall>r\<in>set rs. \<exists>pid\<in>set pids. spawn (role_name r) = Inr pid)
      \<and> spawn_roles spawn rs = (map (SpawnRole \<circ> role_name) rs, Inr pids))"
proof (induction rs)
  case (Cons r rs)
  show ?case
  proof (cases "spawn (role_name r)")
    case (Inl e)
    then show ?thesis by (intro disjI1 exI [of _ "[]"] exI [of _ r] exI [of _ rs] exI [of _ e]) simp
  next
    case (Inr pid)
    from Cons show ?thesis
    proof (elim disjE exE conjE)
      fix ys r' zs e
      assume "rs = ys @ r' # zs" "spawn (role_name r') = Inl e" "\<forall>y\<in>set ys. \<exists>pid. spawn (role_name y) = Inr pid"
        "spawn_roles spawn rs = (map (SpawnRole \<circ> role_name) (ys @ [r']), Inl (''failed to spawn '' @ role_name r' @ '': '' @ e))"
      then show ?thesis
        using Inr by (intro disjI1 exI [of _ "r # ys"] exI [of _ r'] exI [of _ zs] exI [of _ e]) simp
    next
      fix pids assume "\<forall>r\<in>set rs. \<exists>pid\<in>set pids. spawn (role_name r) = Inr pid"
        "spawn_roles spawn rs = (map (SpawnRole \<circ> role_name) rs, Inr pids)"
      then show ?thesis using Inr by (intro disjI2 exI [of _ "pid # pids"]) auto
    qed
  qed
qed simp

definition worker_roles :: "Role list" where
  "worker_roles = filter (\<lambda>r. initiator_out r = None) ROLES"

definition initiator_roles :: "Role list" where
  "initiator_roles = filter (\<lambda>r. initiator_out r \<noteq> None) ROLES"

lemma role_names:
  "map role_name worker_roles = [''INTERNAL_ROUTER'', ''RED_WF_COMM_L'', ''FRAGMENTER'', ''RED_IRSS_COMM_L'', ''DATA_SINK'']"
  "map role_name initiator_roles = [''DATA_SOURCE'']"
  by (simp_all add: worker_roles_def initiator_roles_def ROLES_def)

text \<open>
  What the launcher owes to a process it started: it is asked to end and then waited for, and the
  socket files are removed after that. Unless the process is stopped during the shutdown, it is running
  when the wait begins and from then on, so that the wait returns.
\<close>

definition late_stop :: "u32 \<Rightarrow> launcher_action list \<Rightarrow> bool" where
  "late_stop pid acts \<longleftrightarrow> Kill pid SIGSTOP \<in> set (dropWhile (\<lambda>a. a \<noteq> ShuttingDown) acts)"

definition reaped :: "u32 \<Rightarrow> launcher_action list \<Rightarrow> bool" where
  "reaped pid acts \<longleftrightarrow> (\<exists>before after. acts = before @ WaitChild pid # after
     \<and> asked (fold (signalled pid) before \<lparr>stopped = False, asked = False\<rparr>)
     \<and> subseq (map RemoveFile ALL_PATHS) after
     \<and> (\<not> late_stop pid acts \<longrightarrow> (\<forall>mid rest. after = mid @ rest \<longrightarrow>
          can_end (fold (signalled pid) (before @ WaitChild pid # mid) \<lparr>stopped = False, asked = False\<rparr>))))"

lemma reaped_cleanup:
  assumes "z \<in> shuffles (cleanup children) ts" and "pid \<in> set children"
    and "\<not> late_stop pid (front @ z) \<Longrightarrow> Kill pid SIGSTOP \<notin> set z"
  shows "reaped pid (front @ z)"
proof -
  let ?s = "fold (signalled pid) front \<lparr>stopped = False, asked = False\<rparr>"
  obtain before after where "z = before @ WaitChild pid # after" "asked (fold (signalled pid) before ?s)"
    "subseq cleanup_socket_files after"
    "Kill pid SIGSTOP \<notin> set z \<longrightarrow>
       (\<forall>mid rest. after = mid @ rest \<longrightarrow> can_end (fold (signalled pid) (before @ WaitChild pid # mid) ?s))"
    using cleanup_reaps [OF assms(1,2), of ?s] by blast
  then show ?thesis unfolding reaped_def
    using assms(3) by (intro exI [of _ "front @ before"] exI [of _ after]) (simp add: cleanup_socket_files_def)
qed

lemma pause_key_kills: "set (watch_pause_key pids paused typed) \<subseteq> {Kill pid g | pid g. True}"
  by (induction pids paused typed rule: watch_pause_key.induct) (auto simp: Let_def)

lemma reaped_shutdown:
  assumes "pid \<in> set children" and "ShuttingDown \<notin> set front"
    and "z = interleave sched (ShuttingDown # cleanup children) (watch_pause_key pids paused typed)"
  shows "reaped pid (front @ z)"
proof -
  let ?T = "watch_pause_key pids paused typed"
  obtain t1 t2 where t: "?T = t1 @ t2" "z \<in> shuffles ([] @ ShuttingDown # cleanup children) t1"
    unfolding assms(3) append_Nil using interleave_shuffles [of ?T sched "ShuttingDown # cleanup children"] by blast
  then obtain z0 z1 ta tb where z: "z = z0 @ ShuttingDown # z1" "t1 = ta @ tb" "z0 \<in> shuffles [] ta"
      "z1 \<in> shuffles (cleanup children) tb"
    using shuffles_split [OF t(2)] by blast
  have quiet: "ShuttingDown \<notin> set (front @ z0)" using z(2,3) t(1) assms(2) pause_key_kills [of pids paused typed] by auto
  then have "dropWhile (\<lambda>a. a \<noteq> ShuttingDown) ((front @ z0) @ ShuttingDown # z1) = ShuttingDown # z1"
    by (subst dropWhile_append2) auto
  then have "Kill pid SIGSTOP \<notin> set z1" if "\<not> late_stop pid ((front @ z0 @ [ShuttingDown]) @ z1)"
    using that by (simp add: late_stop_def)
  then have "reaped pid ((front @ z0 @ [ShuttingDown]) @ z1)" by (rule reaped_cleanup [OF z(4) assms(1)])
  then show ?thesis by (simp add: z(1))
qed

text \<open>A failed spawn ends the launcher at once: the roles it already started are sent no signal.\<close>

lemma spawn_roles_acts: "set (fst (spawn_roles spawn rs)) \<subseteq> SpawnRole ` role_name ` set rs"
  by (induction rs) (auto split: sum.splits prod.splits)

lemma SpawnRole_shutdown:
  "SpawnRole n \<notin> set cleanup_socket_files" "SpawnRole n \<notin> set (cleanup children)"
  "SpawnRole n \<notin> set (interleave sched (ShuttingDown # cleanup children) (watch_pause_key pids paused typed))"
proof -
  let ?T = "watch_pause_key pids paused typed"
  show "SpawnRole n \<notin> set cleanup_socket_files" by (auto simp: cleanup_socket_files_def)
  then show clean: "SpawnRole n \<notin> set (cleanup children)" by (auto simp: cleanup_def)
  obtain t1 t2 where t: "?T = t1 @ t2" "interleave sched (ShuttingDown # cleanup children) ?T \<in> shuffles (ShuttingDown # cleanup children) t1"
    using interleave_shuffles [of ?T sched] by blast
  then show "SpawnRole n \<notin> set (interleave sched (ShuttingDown # cleanup children) ?T)"
    using set_shuffles [OF t(2)] clean pause_key_kills [of pids paused typed] by auto
qed

text \<open>The three ways a run goes: a spawn fails, the sockets do not come up, or all is started.\<close>

lemma source_not_worker: "''DATA_SOURCE'' \<notin> set (map role_name worker_roles)"
  by (simp only: role_names) simp

lemma launcher_cases:
  assumes "run_launcher spawn up typed died sched = (acts, code, msg)"
  obtains
    (failed) n e started where "acts = cleanup_socket_files @ started" "SpawnRole n \<in> set started" "spawn n = Inl e"
      "set started \<subseteq> insert SocketsUp (range SpawnRole)" "\<And>m e'. SpawnRole m \<in> set started \<Longrightarrow> spawn m = Inl e' \<Longrightarrow> m = n"
      "code = 1" "msg = Some (''failed to spawn '' @ n @ '': '' @ e)"
      "SpawnRole ''DATA_SOURCE'' \<in> set started \<Longrightarrow> up
         \<and> started = map (SpawnRole \<circ> role_name) worker_roles @ [SocketsUp, SpawnRole ''DATA_SOURCE'']"
  | (timed_out) children where "\<not> up" "\<And>r. r \<in> set worker_roles \<Longrightarrow> \<exists>pid\<in>set children. spawn (role_name r) = Inr pid"
      "acts = cleanup_socket_files @ map (SpawnRole \<circ> role_name) worker_roles @ cleanup children"
  | (started) children pids where up
      "\<And>r. r \<in> set (worker_roles @ initiator_roles) \<Longrightarrow> \<exists>pid\<in>set (children @ pids). spawn (role_name r) = Inr pid"
      "acts = cleanup_socket_files @ map (SpawnRole \<circ> role_name) worker_roles @ [SocketsUp]
         @ map (SpawnRole \<circ> role_name) initiator_roles
         @ interleave sched (ShuttingDown # cleanup (children @ pids)) (watch_pause_key pids False typed)"
proof -
  have roles: "filter (\<lambda>r. initiator_out r = None) ROLES = worker_roles" "filter (\<lambda>r. initiator_out r \<noteq> None) ROLES = initiator_roles"
    by (simp_all add: worker_roles_def initiator_roles_def)
  obtain r0 where r0: "initiator_roles = [r0]" "role_name r0 = ''DATA_SOURCE''"
    using role_names(2) by (cases initiator_roles) auto
  note run = assms [unfolded run_launcher_def roles]
  from spawn_roles_cases [of worker_roles spawn] show thesis
  proof (elim disjE exE conjE)
    fix ys r zs e
    assume w: "worker_roles = ys @ r # zs" "spawn (role_name r) = Inl e" "\<forall>y\<in>set ys. \<exists>pid. spawn (role_name y) = Inr pid"
      "spawn_roles spawn worker_roles = (map (SpawnRole \<circ> role_name) (ys @ [r]), Inl (''failed to spawn '' @ role_name r @ '': '' @ e))"
    have res: "acts = cleanup_socket_files @ map (SpawnRole \<circ> role_name) (ys @ [r])" "code = 1"
      "msg = Some (''failed to spawn '' @ role_name r @ '': '' @ e)"
      using run by (simp_all add: w(4))
    have "SpawnRole ''DATA_SOURCE'' \<notin> SpawnRole ` role_name ` set worker_roles" using source_not_worker by auto
    then have other: "SpawnRole ''DATA_SOURCE'' \<notin> set (map (SpawnRole \<circ> role_name) (ys @ [r]))"
      by (auto simp: w(1) image_comp)
    have uniq: "m = role_name r" if "SpawnRole m \<in> set (map (SpawnRole \<circ> role_name) (ys @ [r]))" "spawn m = Inl e'" for m e'
      using that w(3) by fastforce
    have acts: "SpawnRole (role_name r) \<in> set (map (SpawnRole \<circ> role_name) (ys @ [r]))"
      "set (map (SpawnRole \<circ> role_name) (ys @ [r])) \<subseteq> insert SocketsUp (range SpawnRole)" by auto
    show thesis by (rule failed [OF res(1) acts(1) w(2) acts(2) uniq res(2,3)]) (assumption | erule notE [OF other])+
  next
    fix children
    assume w: "\<forall>r\<in>set worker_roles. \<exists>pid\<in>set children. spawn (role_name r) = Inr pid"
      "spawn_roles spawn worker_roles = (map (SpawnRole \<circ> role_name) worker_roles, Inr children)"
    show thesis
    proof (cases up)
      case False
      then show thesis using run w by (intro timed_out [of children]) simp_all
    next
      case True
      show thesis
      proof (cases "spawn (role_name r0)")
        case (Inl e)
        let ?started = "map (SpawnRole \<circ> role_name) worker_roles @ [SocketsUp, SpawnRole ''DATA_SOURCE'']"
        have res: "acts = cleanup_socket_files @ ?started" "code = 1" "msg = Some (''failed to spawn '' @ ''DATA_SOURCE'' @ '': '' @ e)"
          using run True Inl by (simp_all add: w(2) r0)
        then show thesis using True Inl w(1) by (intro failed [of ?started "''DATA_SOURCE''" e]) (auto simp: r0(2))
      next
        case (Inr pid)
        then show thesis using run True w by (intro started [of children "[pid]"]) (auto simp: r0)
      qed
    qed
  qed
qed

section \<open>Properties\<close>

text \<open>
  C18. A message survives the wire: whatever type and protocol id the simulator sends, the agent's
  hook reads them from the structures in the sender's memory, and the receiver gets them back
  however the stream splits the bytes into reads, leaving the reads that follow untouched.
\<close>

theorem sca_sim_message_roundtrip:
  assumes "send_image pad hdr iov buf_addr msg_type protocol = Some im" and "image_in mem buf_addr im"
    and "iov \<noteq> 0" and "buf_addr \<noteq> 0" and "concat css = buf_bytes im" and "[] \<notin> set css"
  shows "read_nng_header mem hdr = Some (protocol, msg_type)
    \<and> recv_message (map RecvBytes css @ rs) = Done (protocol, msg_type) rs"
proof -
  have "buf_bytes im = wire_message msg_type protocol"
    using assms(1) by (auto simp: send_image_def build_message_eq)
  then show ?thesis using image_header [OF assms(1-4)] recv_message_split [of css] assms(5,6) by simp
qed

definition demo_image :: message_image where
  "demo_image = \<lparr>hdr_addr = 0x1000, hdr_bytes = msghdr_bytes 0 0 0 0x2000 1 0, iov_addr = 0x2000,
     iov_bytes = iovec_bytes 0x3000 64, buf_bytes = wire_message 0xffff 0x80000001\<rparr>"

definition demo_image_mem :: user_mem where
  "demo_image_mem = mem_of [(0x1000, hdr_bytes demo_image), (0x2000, iov_bytes demo_image), (0x3000, buf_bytes demo_image)]"

lemma length_demo_image:
  "length (hdr_bytes demo_image) = 56" "length (iov_bytes demo_image) = 16" "length (buf_bytes demo_image) = 64"
  by (simp_all add: demo_image_def msghdr_bytes_def iovec_bytes_def padding_def)

lemma demo_image_in: "image_in demo_image_mem 0x3000 demo_image"
proof -
  have "read_bytes demo_image_mem 0x1000 56 = Some (hdr_bytes demo_image)"
    unfolding demo_image_mem_def by (intro read_bytes_mem_of_hit) (simp_all add: length_demo_image)
  moreover have "read_bytes demo_image_mem 0x2000 16 = Some (iov_bytes demo_image)"
    unfolding demo_image_mem_def
    by (subst read_bytes_mem_of_skip) (simp_all add: length_demo_image)
  moreover have "read_bytes demo_image_mem 0x3000 64 = Some (buf_bytes demo_image)"
    unfolding demo_image_mem_def
    by (subst read_bytes_mem_of_skip, simp_all add: length_demo_image)+
  ultimately show ?thesis using length_demo_image by (simp add: image_in_def) (simp add: demo_image_def)
qed

theorem sca_sim_message_roundtrip_witness:
  "read_nng_header demo_image_mem 0x1000 = Some (0x80000001, 0xffff)
   \<and> recv_message (map RecvBytes [take 10 (buf_bytes demo_image), drop 10 (buf_bytes demo_image)])
       = Done (0x80000001, 0xffff) []"
proof -
  have "send_image 0 0x1000 0x2000 0x3000 0xffff 0x80000001 = Some demo_image"
    by (simp add: send_image_def build_message_eq demo_image_def)
  moreover have "concat [take 10 (buf_bytes demo_image), drop 10 (buf_bytes demo_image)] = buf_bytes demo_image"
    "[] \<notin> set [take 10 (buf_bytes demo_image), drop 10 (buf_bytes demo_image)]"
    using length_demo_image(3) by auto
  ultimately show ?thesis
    using sca_sim_message_roundtrip [of 0 "0x1000" "0x2000" "0x3000" "0xffff" "0x80000001" demo_image demo_image_mem
        "[take 10 (buf_bytes demo_image), drop 10 (buf_bytes demo_image)]" "[]"] demo_image_in by simp
qed

text \<open>
  The simulator is the system the agent is configured for: its socket paths are those of
  \<open>DATA_FLOW\<close> in the same order; for every hop the process with the sender's name connects to the
  path and the process with the receiver's name listens on it; and every role name fits the
  fifteen characters of a process name.
\<close>

lemma sca_sim_topology:
  "ALL_PATHS = map fst DATA_FLOW
   \<and> list_all (\<lambda>(pth, sender, receiver).
        (\<exists>r\<in>set ROLES. role_name r = sender \<and> (initiator_out r = Some pth \<or> pth \<in> out_path ` set (sessions r)))
      \<and> (\<exists>r\<in>set ROLES. role_name r = receiver \<and> pth \<in> listen_path ` set (sessions r))) DATA_FLOW
   \<and> list_all (\<lambda>r. length (role_name r) \<le> 15) ROLES"
  by (simp add: ALL_PATHS_def DATA_FLOW_def ROLES_def)

text \<open>
  C38. The launcher ends every process it started, if it could start them all: whatever is typed, in
  whatever order its two threads run and however the run ends, each process has been asked to end
  before it is waited for, and the socket files are removed afterwards; and unless the pause key
  stops a process during the shutdown, that process is running when the wait for it begins and ever
  after, so a process paused before does not block the wait. If a spawn fails, the launcher ends at
  once with status 1 and the reason, and signals or waits for none of the processes it started. The
  initiator is started only after every worker, when all sockets exist.
\<close>

theorem sca_sim_launcher_reaps:
  assumes "run_launcher spawn up typed died sched = (acts, code, msg)" and "SpawnRole name \<in> set acts"
  shows "(\<forall>pid. spawn name = Inr pid \<and> (\<forall>n e. SpawnRole n \<in> set acts \<longrightarrow> spawn n \<noteq> Inl e) \<longrightarrow> reaped pid acts)
    \<and> (\<forall>e. spawn name = Inl e \<longrightarrow> code = 1 \<and> msg = Some (''failed to spawn '' @ name @ '': '' @ e)
         \<and> (\<forall>pid g. Kill pid g \<notin> set acts \<and> WaitChild pid \<notin> set acts))
    \<and> (name = ''DATA_SOURCE'' \<longrightarrow>
         up \<and> subseq (map (SpawnRole \<circ> role_name) worker_roles @ [SocketsUp, SpawnRole name]) acts)"
  using assms(1)
proof (cases rule: launcher_cases)
  case (failed n e started)
  have in_started: "SpawnRole name \<in> set started" using assms(2) SpawnRole_shutdown(1) by (simp add: failed(1))
  have quiet: "Kill pid g \<notin> set acts \<and> WaitChild pid \<notin> set acts" for pid g
    using failed(4) by (auto simp: failed(1) cleanup_socket_files_def)
  have "SpawnRole n \<in> set acts" by (simp add: failed(1,2))
  then have "\<not> (\<forall>n e. SpawnRole n \<in> set acts \<longrightarrow> spawn n \<noteq> Inl e)" using failed(3) by blast
  moreover have "code = 1 \<and> msg = Some (''failed to spawn '' @ name @ '': '' @ e')" if "spawn name = Inl e'" for e'
    using failed(5) [OF in_started that] failed(3,6,7) that by simp
  moreover have "up \<and> subseq (map (SpawnRole \<circ> role_name) worker_roles @ [SocketsUp, SpawnRole name]) acts"
    if "name = ''DATA_SOURCE''"
    using failed(8) in_started that by (simp add: failed(1) list_emb_append2)
  ultimately show ?thesis using quiet by blast
next
  case (timed_out children)
  have name: "SpawnRole name \<in> set (map (SpawnRole \<circ> role_name) worker_roles)"
    using assms(2) SpawnRole_shutdown by (simp add: timed_out(3))
  then obtain pid where pid: "pid \<in> set children" "spawn name = Inr pid" using timed_out(2) by auto
  have "reaped pid acts"
    using reaped_cleanup [of "cleanup children" children "[]" pid "cleanup_socket_files @ map (SpawnRole \<circ> role_name) worker_roles"]
      pid(1) by (auto simp: timed_out(3) cleanup_def cleanup_socket_files_def)
  moreover have "name \<in> set (map role_name worker_roles)" using name by auto
  then have "name \<noteq> ''DATA_SOURCE''" by (auto simp: role_names)
  ultimately show ?thesis using pid(2) by simp
next
  case (started children pids)
  let ?front = "cleanup_socket_files @ map (SpawnRole \<circ> role_name) worker_roles @ [SocketsUp]
      @ map (SpawnRole \<circ> role_name) initiator_roles"
  have name: "SpawnRole name \<in> set (map (SpawnRole \<circ> role_name) (worker_roles @ initiator_roles))"
    using assms(2) SpawnRole_shutdown by (simp add: started(3))
  then obtain pid where pid: "pid \<in> set (children @ pids)" "spawn name = Inr pid" using started(2) by auto
  have "ShuttingDown \<notin> set ?front" by (auto simp: cleanup_socket_files_def)
  then have "reaped pid acts" using reaped_shutdown [OF pid(1) _ refl, of ?front] by (simp add: started(3))
  moreover have "map (SpawnRole \<circ> role_name) initiator_roles = [SpawnRole ''DATA_SOURCE'']"
    using arg_cong [OF role_names(2), of "map SpawnRole"] by simp
  then have "acts = cleanup_socket_files @ (map (SpawnRole \<circ> role_name) worker_roles @ [SocketsUp, SpawnRole ''DATA_SOURCE''])
      @ interleave sched (ShuttingDown # cleanup (children @ pids)) (watch_pause_key pids False typed)"
    by (simp add: started(3))
  then have "subseq (map (SpawnRole \<circ> role_name) worker_roles @ [SocketsUp, SpawnRole ''DATA_SOURCE'']) acts"
    by (simp only: list_emb_append2 list_emb_prefix subseq_order.order_refl)
  ultimately show ?thesis using pid(2) started(1) by simp
qed

text \<open>The initiator is paused by the key before the shutdown begins.\<close>

definition demo_pid :: "string \<Rightarrow> u32" where
  "demo_pid n = of_nat (length n) + (if hd n = CHR ''I'' then 1 else 0)"

lemma demo_launch:
  "run_launcher (Inr \<circ> demo_pid) True [0x20] False sched =
     (cleanup_socket_files @ map (SpawnRole \<circ> role_name) worker_roles @ [SocketsUp, SpawnRole ''DATA_SOURCE'']
        @ interleave sched (ShuttingDown # cleanup [16, 13, 10, 15, 9, 11]) [Kill 11 SIGSTOP], 0, None)"
  by (simp add: run_launcher_def worker_roles_def ROLES_def demo_pid_def)

lemma demo_launch_start: "dropWhile (\<lambda>a. a \<noteq> ShuttingDown)
    (cleanup_socket_files @ map (SpawnRole \<circ> role_name) worker_roles @ [SocketsUp, SpawnRole ''DATA_SOURCE''] @ z)
  = dropWhile (\<lambda>a. a \<noteq> ShuttingDown) z"
  by (subst dropWhile_append2, force simp: cleanup_socket_files_def)+ simp

theorem sca_sim_launcher_reaps_witness:
  "\<exists>acts. run_launcher (Inr \<circ> demo_pid) True [0x20] False [False] = (acts, 0, None)
     \<and> Kill 11 SIGSTOP \<in> set acts \<and> \<not> late_stop 11 acts \<and> reaped 11 acts"
proof -
  obtain acts where acts: "run_launcher (Inr \<circ> demo_pid) True [0x20] False [False] = (acts, 0, None)"
    "acts = cleanup_socket_files @ map (SpawnRole \<circ> role_name) worker_roles @ [SocketsUp, SpawnRole ''DATA_SOURCE'']
        @ Kill 11 SIGSTOP # ShuttingDown # cleanup [16, 13, 10, 15, 9, 11]"
    by (simp add: demo_launch)
  have "\<not> late_stop 11 acts"
    unfolding late_stop_def acts(2) demo_launch_start by (auto simp: cleanup_def cleanup_socket_files_def)
  moreover have "SpawnRole ''DATA_SOURCE'' \<in> set acts" "Kill 11 SIGSTOP \<in> set acts" by (simp_all add: acts(2))
  moreover have "(Inr \<circ> demo_pid) ''DATA_SOURCE'' = (Inr 11 :: string + u32)" by (simp add: demo_pid_def)
  ultimately show ?thesis using sca_sim_launcher_reaps [OF acts(1), of "''DATA_SOURCE''"] acts(1) by auto
qed

text \<open>
  The exception is real: a pause that arrives after the signals of the clean-up leaves the initiator
  stopped when it is waited for, and nothing continues it any more, so the launcher hangs.
\<close>

lemma launcher_may_hang:
  "\<exists>acts before after. run_launcher (Inr \<circ> demo_pid) True [0x20] False (replicate 13 True @ [False]) = (acts, 0, None)
     \<and> acts = before @ WaitChild 11 # after
     \<and> stopped (fold (signalled 11) before \<lparr>stopped = False, asked = False\<rparr>)
     \<and> list_all (\<lambda>a. a \<noteq> Kill 11 SIGCONT) after"
proof -
  let ?sig = "concat (map (\<lambda>p. [Kill p SIGCONT, Kill p SIGTERM]) [16, 13, 10, 15, 9, 11])"
  let ?front = "cleanup_socket_files @ map (SpawnRole \<circ> role_name) worker_roles @ [SocketsUp, SpawnRole ''DATA_SOURCE'']
    @ ShuttingDown # ?sig"
  have "interleave (replicate 13 True @ [False]) (ShuttingDown # cleanup [16, 13, 10, 15, 9, 11]) [Kill 11 SIGSTOP]
      = ShuttingDown # ?sig @ Kill 11 SIGSTOP # map WaitChild [16, 13, 10, 15, 9] @ WaitChild 11 # cleanup_socket_files"
    by (simp add: cleanup_def numeral_eq_Suc)
  then have "run_launcher (Inr \<circ> demo_pid) True [0x20] False (replicate 13 True @ [False])
      = ((?front @ Kill 11 SIGSTOP # map WaitChild [16, 13, 10, 15, 9]) @ WaitChild 11 # cleanup_socket_files, 0, None)"
    unfolding demo_launch by simp
  moreover have "stopped (fold (signalled 11) (?front @ Kill 11 SIGSTOP # map WaitChild [16, 13, 10, 15, 9]) s)" for s
    by simp
  moreover have "list_all (\<lambda>a. a \<noteq> Kill 11 SIGCONT) cleanup_socket_files" by (auto simp: list_all_iff cleanup_socket_files_def)
  ultimately show ?thesis by blast
qed

end
