(* ===== verification/Sca_Pipeline.thy ===== *)
theory Sca_Pipeline
  imports Sca_Sim
begin

text \<open>
  The session threads of the workers and the loop of the initiator of \<open>sca_sim.rs\<close>
  (\<open>run_worker\<close>, \<open>run_initiator\<close>) as a transition system with free scheduling and passing time.

  Shown, by rule induction over the reachable states: the pipeline is in lockstep, that is, one
  message is under way, the sessions before it wait for their reply and the others for a request;
  it never deadlocks, and every cycle can be completed; each cycle has the nesting of requests and
  replies from which the agent computes per-component latencies, which are never below the
  simulated delays.
\<close>

definition CYCLE_INTERVAL :: nat where "CYCLE_INTERVAL = 1000 * 1000000"


section \<open>The pipeline as a transition system\<close>

text \<open>
  Every session thread of \<open>run_worker\<close> and the loop of \<open>run_initiator\<close> is a state machine; a step is
  what a thread does between two blocking calls. Messages in transit are queues per socket path,
  towards the listener and back. Time passes in steps of any length; scheduling is free. The log
  holds the messages sent since the initiator's last request.
\<close>

datatype worker_state = Receiving | Sleeping u32 u16 nat | AwaitingReply u32 u16
datatype initiator_state = Ready nat | WaitingReply
datatype sent = SentRequest string u32 u16 nat | SentReply string u32 u16 nat

record pipeline =
  to_listener :: "string \<Rightarrow> (u32 \<times> u16) list"
  to_sender :: "string \<Rightarrow> (u32 \<times> u16) list"
  workers :: "string \<Rightarrow> worker_state"
  initiator :: initiator_state
  clock :: nat
  cycle_log :: "sent list"

definition pipeline_init :: pipeline where
  "pipeline_init = \<lparr>to_listener = \<lambda>_. [], to_sender = \<lambda>_. [], workers = \<lambda>_. Receiving, initiator = Ready 0,
     clock = 0, cycle_log = []\<rparr>"

inductive act :: "pipeline \<Rightarrow> pipeline \<Rightarrow> bool" where
  initiator_send:
    "r \<in> set ROLES \<Longrightarrow> initiator_out r = Some out \<Longrightarrow> initiator P = Ready d \<Longrightarrow> d \<le> clock P \<Longrightarrow>
     act P (P\<lparr>to_listener := (to_listener P)(out := to_listener P out @ [(p, t)]),
              initiator := WaitingReply, cycle_log := [SentRequest out p t (clock P)]\<rparr>)"
| initiator_recv:
    "r \<in> set ROLES \<Longrightarrow> initiator_out r = Some out \<Longrightarrow> initiator P = WaitingReply \<Longrightarrow> to_sender P out = m # ms \<Longrightarrow>
     act P (P\<lparr>to_sender := (to_sender P)(out := ms), initiator := Ready (clock P + CYCLE_INTERVAL)\<rparr>)"
| worker_recv:
    "r \<in> set ROLES \<Longrightarrow> s \<in> set (sessions r) \<Longrightarrow> workers P (listen_path s) = Receiving \<Longrightarrow>
     to_listener P (listen_path s) = (p, t) # ms \<Longrightarrow>
     act P (P\<lparr>to_listener := (to_listener P)(listen_path s := ms),
              workers := (workers P)(listen_path s := Sleeping p t (clock P + delay r))\<rparr>)"
| worker_forward:
    "r \<in> set ROLES \<Longrightarrow> s \<in> set (sessions r) \<Longrightarrow> out_path s \<noteq> [] \<Longrightarrow>
     workers P (listen_path s) = Sleeping p t d \<Longrightarrow> d \<le> clock P \<Longrightarrow>
     act P (P\<lparr>to_listener := (to_listener P)(out_path s := to_listener P (out_path s) @ [(p, t)]),
              workers := (workers P)(listen_path s := AwaitingReply p t),
              cycle_log := cycle_log P @ [SentRequest (out_path s) p t (clock P)]\<rparr>)"
| worker_answer:
    "r \<in> set ROLES \<Longrightarrow> s \<in> set (sessions r) \<Longrightarrow> out_path s = [] \<Longrightarrow>
     workers P (listen_path s) = Sleeping p t d \<Longrightarrow> d \<le> clock P \<Longrightarrow>
     act P (P\<lparr>to_sender := (to_sender P)(listen_path s := to_sender P (listen_path s) @ [(p, t + 1)]),
              workers := (workers P)(listen_path s := Receiving),
              cycle_log := cycle_log P @ [SentReply (listen_path s) p (t + 1) (clock P)]\<rparr>)"
| worker_reply:
    "r \<in> set ROLES \<Longrightarrow> s \<in> set (sessions r) \<Longrightarrow> out_path s \<noteq> [] \<Longrightarrow>
     workers P (listen_path s) = AwaitingReply p t \<Longrightarrow> to_sender P (out_path s) = m # ms \<Longrightarrow>
     Q = (to_sender P)(out_path s := ms) \<Longrightarrow>
     act P (P\<lparr>to_sender := Q(listen_path s := Q (listen_path s) @ [(p, t + 1)]),
              workers := (workers P)(listen_path s := Receiving),
              cycle_log := cycle_log P @ [SentReply (listen_path s) p (t + 1) (clock P)]\<rparr>)"

inductive reachable :: "pipeline \<Rightarrow> bool" where
  start: "reachable pipeline_init"
| move: "reachable P \<Longrightarrow> act P P' \<Longrightarrow> reachable P'"
| wait: "reachable P \<Longrightarrow> reachable (P\<lparr>clock := clock P + n\<rparr>)"

definition moves :: "pipeline \<Rightarrow> pipeline \<Rightarrow> bool" where
  "moves P P' \<longleftrightarrow> act P P' \<or> (\<exists>n. P' = P\<lparr>clock := clock P + n\<rparr>)"


section \<open>The pipeline runs in lockstep\<close>

definition hop_path :: "nat \<Rightarrow> string" where
  "hop_path i = ALL_PATHS ! i"

text \<open>The delay of the role that listens on a hop.\<close>

definition hop_delay :: "nat \<Rightarrow> nat" where
  "hop_delay i =
     (case find (\<lambda>r. hop_path i \<in> listen_path ` set (sessions r)) ROLES of
        Some r \<Rightarrow> delay r
      | None \<Rightarrow> 0)"

lemma hop_delay_nth: "i < 7 \<Longrightarrow> hop_delay i = map from_millis [5, 8, 11, 14, 11, 8, 3] ! i"
proof -
  have "map hop_delay [0..<7] = map from_millis [5, 8, 11, 14, 11, 8, 3]"
    by (simp add: hop_delay_def hop_path_def ALL_PATHS_def ROLES_def upt_rec)
  then show "i < 7 \<Longrightarrow> hop_delay i = map from_millis [5, 8, 11, 14, 11, 8, 3] ! i"
    using nth_map [of i "[0..<7]" hop_delay] by simp
qed

lemma distinct_paths: "distinct ALL_PATHS" and length_paths: "length ALL_PATHS = 7"
  by (simp_all add: ALL_PATHS_def)

lemma hop_path_inject [simp]: "i < 7 \<Longrightarrow> j < 7 \<Longrightarrow> hop_path i = hop_path j \<longleftrightarrow> i = j"
  by (simp add: hop_path_def nth_eq_iff_index_eq [OF distinct_paths] length_paths)

lemma role_hops:
  "list_all (\<lambda>r. list_all (\<lambda>s. \<exists>i<7. listen_path s = hop_path i
       \<and> out_path s = (if i < 6 then hop_path (Suc i) else [])
       \<and> delay r = map from_millis [5, 8, 11, 14, 11, 8, 3] ! i) (sessions r)) ROLES"
  by (simp add: ROLES_def ALL_PATHS_def hop_path_def numeral_eq_Suc Ex_less_Suc)

lemma role_session:
  assumes "r \<in> set ROLES" and "s \<in> set (sessions r)"
  obtains i where "i < 7" and "listen_path s = hop_path i" and "out_path s = (if i < 6 then hop_path (Suc i) else [])"
    and "delay r = hop_delay i"
  using role_hops assms by (fastforce simp: list_all_iff hop_delay_nth)

lemma hop_session:
  assumes "i < 7"
  obtains r s where "r \<in> set ROLES" and "s \<in> set (sessions r)" and "listen_path s = hop_path i"
    and "out_path s = (if i < 6 then hop_path (Suc i) else [])" and "delay r = hop_delay i"
proof -
  have "list_all (\<lambda>i. \<exists>r\<in>set ROLES. \<exists>s\<in>set (sessions r). listen_path s = hop_path i
      \<and> out_path s = (if i < 6 then hop_path (Suc i) else [])
      \<and> delay r = map from_millis [5, 8, 11, 14, 11, 8, 3] ! i) [0..<7]"
    by (simp add: ROLES_def ALL_PATHS_def hop_path_def upt_rec)
  then show ?thesis using assms that by (fastforce simp: list_all_iff hop_delay_nth)
qed

lemma initiator_hop:
  "r \<in> set ROLES \<Longrightarrow> initiator_out r = Some out \<Longrightarrow> out = hop_path 0"
  "\<exists>r\<in>set ROLES. initiator_out r = Some (hop_path 0)"
  by (auto simp: ROLES_def hop_path_def ALL_PATHS_def)

lemma hop_path_ne [simp]: "i < 7 \<Longrightarrow> hop_path i \<noteq> []"
proof -
  have "list_all (\<lambda>l. l \<noteq> []) ALL_PATHS" by (simp add: ALL_PATHS_def)
  then show "i < 7 \<Longrightarrow> hop_path i \<noteq> []" by (simp add: list_all_length hop_path_def length_paths)
qed

text \<open>
  Where the one message of the pipeline is: nowhere, on its way to the listener of a hop, with
  that listener until a given time, or on its way back over a hop. The sessions before it wait
  for their reply, all others for a request.
\<close>

datatype token = Rest nat | Request nat | Working nat nat | Reply nat

definition awaiting :: "nat \<Rightarrow> u32 \<Rightarrow> u16 \<Rightarrow> string \<Rightarrow> worker_state" where
  "awaiting i p t l = (if \<exists>j<i. l = hop_path j then AwaitingReply p t else Receiving)"

fun shape :: "token \<Rightarrow> u32 \<Rightarrow> u16 \<Rightarrow> pipeline \<Rightarrow> bool" where
  "shape (Rest d) p t P \<longleftrightarrow>
     to_listener P = (\<lambda>_. []) \<and> to_sender P = (\<lambda>_. []) \<and> workers P = (\<lambda>_. Receiving) \<and> initiator P = Ready d"
| "shape (Request i) p t P \<longleftrightarrow>
     i < 7 \<and> to_listener P = (\<lambda>_. [])(hop_path i := [(p, t)]) \<and> to_sender P = (\<lambda>_. [])
     \<and> workers P = awaiting i p t \<and> initiator P = WaitingReply"
| "shape (Working i d) p t P \<longleftrightarrow>
     i < 7 \<and> to_listener P = (\<lambda>_. []) \<and> to_sender P = (\<lambda>_. [])
     \<and> workers P = (awaiting i p t)(hop_path i := Sleeping p t d) \<and> initiator P = WaitingReply"
| "shape (Reply i) p t P \<longleftrightarrow>
     i < 7 \<and> to_listener P = (\<lambda>_. []) \<and> to_sender P = (\<lambda>_. [])(hop_path i := [(p, t + 1)])
     \<and> workers P = awaiting i p t \<and> initiator P = WaitingReply"

text \<open>
  The log: requests over the first \<open>k\<close> hops at the times \<open>q\<close>, replies over the hops from \<open>m\<close> on,
  last first, at the times \<open>r\<close>.
\<close>

definition log_of :: "nat \<Rightarrow> nat \<Rightarrow> u32 \<Rightarrow> u16 \<Rightarrow> (nat \<Rightarrow> nat) \<Rightarrow> (nat \<Rightarrow> nat) \<Rightarrow> sent list" where
  "log_of k m p t q r =
     map (\<lambda>j. SentRequest (hop_path j) p t (q j)) [0..<k]
     @ map (\<lambda>j. SentReply (hop_path j) p (t + 1) (r j)) (rev [m..<7])"

definition requests_timed :: "nat \<Rightarrow> (nat \<Rightarrow> nat) \<Rightarrow> bool" where
  "requests_timed k q \<longleftrightarrow> (\<forall>j. Suc j < k \<longrightarrow> q j + hop_delay j \<le> q (Suc j))"

definition replies_timed :: "nat \<Rightarrow> (nat \<Rightarrow> nat) \<Rightarrow> (nat \<Rightarrow> nat) \<Rightarrow> bool" where
  "replies_timed m q r \<longleftrightarrow> (m < 7 \<longrightarrow> q 6 + hop_delay 6 \<le> r 6) \<and> (\<forall>j. m \<le> j \<and> j < 6 \<longrightarrow> r (Suc j) \<le> r j)"

fun history :: "token \<Rightarrow> u32 \<Rightarrow> u16 \<Rightarrow> (nat \<Rightarrow> nat) \<Rightarrow> (nat \<Rightarrow> nat) \<Rightarrow> pipeline \<Rightarrow> bool" where
  "history (Rest d) p t q r P \<longleftrightarrow>
     cycle_log P = [] \<or> cycle_log P = log_of 7 0 p t q r \<and> requests_timed 7 q \<and> replies_timed 0 q r"
| "history (Request i) p t q r P \<longleftrightarrow>
     cycle_log P = log_of (Suc i) 7 p t q r \<and> requests_timed (Suc i) q \<and> q i \<le> clock P"
| "history (Working i d) p t q r P \<longleftrightarrow>
     cycle_log P = log_of (Suc i) 7 p t q r \<and> requests_timed (Suc i) q \<and> q i + hop_delay i \<le> d"
| "history (Reply i) p t q r P \<longleftrightarrow>
     cycle_log P = log_of 7 i p t q r \<and> requests_timed 7 q \<and> replies_timed i q r \<and> r i \<le> clock P"

definition lockstep_at :: "token \<Rightarrow> pipeline \<Rightarrow> bool" where
  "lockstep_at tok P \<longleftrightarrow> (\<exists>p t q r. shape tok p t P \<and> history tok p t q r P)"

definition lockstep :: "pipeline \<Rightarrow> bool" where
  "lockstep P \<longleftrightarrow> (\<exists>tok. lockstep_at tok P)"

text \<open>How many steps the message is from coming to rest.\<close>

fun rank :: "token \<Rightarrow> nat" where
  "rank (Rest _) = 0"
| "rank (Reply i) = Suc i"
| "rank (Working i _) = 20 - 2 * i"
| "rank (Request i) = 21 - 2 * i"

lemma lockstep_init: "lockstep pipeline_init"
  unfolding lockstep_def lockstep_at_def
  by (rule exI [of _ "Rest 0"]) (simp add: pipeline_init_def)

lemma lockstep_at_wait:
  assumes "lockstep_at tok P"
  shows "lockstep_at tok (P\<lparr>clock := clock P + n\<rparr>)"
proof -
  obtain p t q r where "shape tok p t P" "history tok p t q r P" using assms by (auto simp: lockstep_at_def)
  then have "shape tok p t (P\<lparr>clock := clock P + n\<rparr>)" "history tok p t q r (P\<lparr>clock := clock P + n\<rparr>)"
    by (cases tok; simp)+
  then show ?thesis unfolding lockstep_at_def by blast
qed

text \<open>Extending the log.\<close>

lemma log_of_request:
  "log_of k 7 p t q r @ [SentRequest (hop_path k) p t c] = log_of (Suc k) 7 p t (q(k := c)) r"
  by (simp add: log_of_def)

lemma log_of_reply:
  assumes "m < 7"
  shows "log_of k (Suc m) p t q r @ [SentReply (hop_path m) p (t + 1) c] = log_of k m p t q (r(m := c))"
proof -
  have "[m..<7] = m # [Suc m..<7]" using assms by (simp add: upt_conv_Cons)
  then show ?thesis by (simp add: log_of_def)
qed

lemma requests_timed_extend:
  assumes "requests_timed (Suc i) q" and "q i + hop_delay i \<le> c"
  shows "requests_timed (Suc (Suc i)) (q(Suc i := c))"
  using assms by (auto simp: requests_timed_def less_Suc_eq)

lemma replies_timed_extend:
  assumes "replies_timed (Suc i) q r" and "r (Suc i) \<le> c" and "i < 6"
  shows "replies_timed i q (r(i := c))"
  using assms by (auto simp: replies_timed_def)

text \<open>Where a session finds work tells where the message is.\<close>

lemma awaiting_at [simp]: "i < 7 \<Longrightarrow> j < 7 \<Longrightarrow> awaiting i p t (hop_path j) = (if j < i then AwaitingReply p t else Receiving)"
  by (auto simp: awaiting_def)

lemma awaiting_Suc: "i < 7 \<Longrightarrow> (awaiting i p t)(hop_path i := AwaitingReply p t) = awaiting (Suc i) p t"
  by (auto simp: awaiting_def less_Suc_eq fun_eq_iff)

lemma awaiting_drop: "i < 6 \<Longrightarrow> (awaiting (Suc i) p t)(hop_path i := Receiving) = awaiting i p t"
  by (auto simp: awaiting_def less_Suc_eq fun_eq_iff)

lemma awaiting_other: "x \<noteq> hop_path i \<Longrightarrow> awaiting (Suc i) p t x = awaiting i p t x"
  by (auto simp: awaiting_def less_Suc_eq)

lemma no_messages [simp]: "(\<lambda>_. [])(l := []) = (\<lambda>_. [])"
  by (simp add: fun_eq_iff)

lemma awaiting_0 [simp]: "awaiting 0 p t = (\<lambda>_. Receiving)"
  by (simp add: awaiting_def fun_eq_iff)

lemma request_token:
  "shape tok p t P \<Longrightarrow> i < 7 \<Longrightarrow> to_listener P (hop_path i) = m # ms \<Longrightarrow> tok = Request i \<and> m = (p, t) \<and> ms = []"
  by (cases tok) (auto split: if_splits)

lemma working_token:
  "shape tok p t P \<Longrightarrow> i < 7 \<Longrightarrow> workers P (hop_path i) = Sleeping p' t' d \<Longrightarrow> tok = Working i d \<and> p' = p \<and> t' = t"
  by (cases tok) (auto split: if_splits)

lemma reply_token:
  "shape tok p t P \<Longrightarrow> i < 7 \<Longrightarrow> to_sender P (hop_path i) = m # ms \<Longrightarrow> tok = Reply i \<and> m = (p, t + 1) \<and> ms = []"
  by (cases tok) (auto split: if_splits)

lemma rest_token: "shape tok p t P \<Longrightarrow> initiator P = Ready d \<Longrightarrow> tok = Rest d"
  by (cases tok) auto

lemma advanceI:
  "shape tok' p t P \<Longrightarrow> history tok' p t q r P \<Longrightarrow> (\<exists>d. tok = Rest d) \<or> rank tok' < rank tok \<Longrightarrow>
     \<exists>tok'. lockstep_at tok' P \<and> ((\<exists>d. tok = Rest d) \<or> rank tok' < rank tok)"
  unfolding lockstep_at_def by blast

lemma lockstep_at_act:
  assumes "act P P'" and "lockstep_at tok P"
  shows "\<exists>tok'. lockstep_at tok' P' \<and> ((\<exists>d. tok = Rest d) \<or> rank tok' < rank tok)"
proof -
  obtain p t q r where sh: "shape tok p t P" and hi: "history tok p t q r P"
    using assms(2) by (auto simp: lockstep_at_def)
  show ?thesis using assms(1)
  proof cases
    case (initiator_send role out d p' t')
    then have "tok = Rest d" "out = hop_path 0" using rest_token [OF sh] initiator_hop(1) by auto
    then show ?thesis
      using sh initiator_send(1)
      by (intro advanceI [of "Request 0" p' t' _ "\<lambda>_. clock P" r])
        (auto simp: log_of_def requests_timed_def)
  next
    case (initiator_recv role out m ms)
    then have "out = hop_path 0" using initiator_hop(1) by blast
    then have "tok = Reply 0" "ms = []" using reply_token [OF sh, of 0] initiator_recv by auto
    then show ?thesis
      using sh hi initiator_recv(1) \<open>out = _\<close>
      by (intro advanceI [of "Rest (clock P + CYCLE_INTERVAL)" p t _ q r]) auto
  next
    case (worker_recv role s p' t' ms)
    obtain i where i: "i < 7" "listen_path s = hop_path i" "delay role = hop_delay i"
      using worker_recv(2,3) by (rule role_session)
    then have "tok = Request i" "ms = []" "p' = p" "t' = t" using request_token [OF sh i(1)] worker_recv(5) by auto
    then show ?thesis
      using sh hi worker_recv(1) i
      by (intro advanceI [of "Working i (clock P + hop_delay i)" p t _ q r]) auto
  next
    case (worker_forward role s p' t' d)
    obtain i where i: "i < 7" "listen_path s = hop_path i" "out_path s = (if i < 6 then hop_path (Suc i) else [])"
      using worker_forward(2,3) by (rule role_session)
    then have tok: "tok = Working i d" "p' = p" "t' = t" "i < 6"
      using working_token [OF sh i(1)] worker_forward(4,5) by (auto split: if_splits)
    have "requests_timed (Suc (Suc i)) (q(Suc i := clock P))"
      using hi tok(1) worker_forward(6) by (intro requests_timed_extend) auto
    then show ?thesis
      using sh hi worker_forward(1) i tok
      by (intro advanceI [of "Request (Suc i)" p t _ "q(Suc i := clock P)" r])
        (auto simp: log_of_request awaiting_Suc)
  next
    case (worker_answer role s p' t' d)
    obtain i where i: "i < 7" "listen_path s = hop_path i" "out_path s = (if i < 6 then hop_path (Suc i) else [])"
      using worker_answer(2,3) by (rule role_session)
    then have "i = 6" using worker_answer(4) hop_path_ne [of "Suc i"] by (cases "i < 6") auto
    then have tok: "tok = Working 6 d" "p' = p" "t' = t" "i = 6"
      using working_token [OF sh i(1)] worker_answer(5) i(2) by auto
    then show ?thesis
      using sh hi worker_answer(1,6) i log_of_reply [of 6 7 p t q r "clock P"]
      by (intro advanceI [of "Reply 6" p t _ q "r(6 := clock P)"])
        (auto simp: replies_timed_def fun_eq_iff)
  next
    case (worker_reply role s p' t' m ms Q)
    obtain i where i: "i < 7" "listen_path s = hop_path i" "out_path s = (if i < 6 then hop_path (Suc i) else [])"
      using worker_reply(2,3) by (rule role_session)
    then have i6: "i < 6" "out_path s = hop_path (Suc i)" using worker_reply(4) by (auto split: if_splits)
    then have tok: "tok = Reply (Suc i)" "ms = []" using reply_token [OF sh, of "Suc i"] worker_reply(6) by auto
    then have pt: "p' = p" "t' = t" using sh i worker_reply(5) by (auto split: if_splits)
    have "replies_timed i q (r(i := clock P))"
      using hi tok(1) i6 by (intro replies_timed_extend) auto
    then show ?thesis
      using sh hi worker_reply(1,7) i i6 tok pt log_of_reply [of i 7 p t q r "clock P"]
      by (intro advanceI [of "Reply i" p t _ q "r(i := clock P)"])
        (auto simp: awaiting_other fun_eq_iff)
  qed
qed

lemma reachable_lockstep: "reachable P \<Longrightarrow> lockstep P"
proof (induction rule: reachable.induct)
  case (move P P')
  then show ?case using lockstep_at_act by (fastforce simp: lockstep_def)
next
  case (wait P n)
  then show ?case using lockstep_at_wait by (fastforce simp: lockstep_def)
qed (rule lockstep_init)

lemma reachable_moves: "moves\<^sup>*\<^sup>* P P' \<Longrightarrow> reachable P \<Longrightarrow> reachable P'"
  by (induction rule: rtranclp_induct) (auto simp: moves_def intro: reachable.intros)

text \<open>No deadlock: once enough time has passed, some thread has something to do.\<close>

lemma lockstep_progress:
  assumes "lockstep P"
  shows "\<exists>n P'. act (P\<lparr>clock := clock P + n\<rparr>) P'"
proof -
  obtain tok p t q r where sh: "shape tok p t P" using assms by (auto simp: lockstep_def lockstep_at_def)
  show ?thesis
  proof (cases tok)
    case (Rest d)
    obtain role where "role \<in> set ROLES" "initiator_out role = Some (hop_path 0)" using initiator_hop(2) by blast
    then have "act (P\<lparr>clock := clock P + d\<rparr>) (P\<lparr>clock := clock P + d,
        to_listener := (to_listener P)(hop_path 0 := to_listener P (hop_path 0) @ [(p, t)]),
        initiator := WaitingReply, cycle_log := [SentRequest (hop_path 0) p t (clock P + d)]\<rparr>)"
      using sh Rest act.initiator_send [of role "hop_path 0" "P\<lparr>clock := clock P + d\<rparr>" d p t] by simp
    then show ?thesis by blast
  next
    case (Request i)
    then have "i < 7" using sh by simp
    then obtain role s where "role \<in> set ROLES" "s \<in> set (sessions role)" "listen_path s = hop_path i"
      by (rule hop_session)
    then show ?thesis
      using sh Request act.worker_recv [of role s P p t "[]"] by (intro exI [of _ 0]) auto
  next
    case (Working i d)
    then have i: "i < 7" using sh by simp
    then obtain role s where rs: "role \<in> set ROLES" "s \<in> set (sessions role)" "listen_path s = hop_path i"
      by (rule hop_session)
    then show ?thesis
      using sh Working act.worker_forward [of role s "P\<lparr>clock := clock P + d\<rparr>" p t d]
        act.worker_answer [of role s "P\<lparr>clock := clock P + d\<rparr>" p t d]
      by (intro exI [of _ d]) (cases "out_path s = []"; auto)
  next
    case (Reply i)
    show ?thesis
    proof (cases i)
      case 0
      obtain role where "role \<in> set ROLES" "initiator_out role = Some (hop_path 0)" using initiator_hop(2) by blast
      then show ?thesis
        using sh Reply 0 act.initiator_recv [of role "hop_path 0" P "(p, t + 1)" "[]"] by (intro exI [of _ 0]) auto
    next
      case (Suc j)
      then have j: "j < 6" using sh Reply by simp
      then have "j < 7" by simp
      then obtain role s where "role \<in> set ROLES" "s \<in> set (sessions role)" "listen_path s = hop_path j"
          "out_path s = (if j < 6 then hop_path (Suc j) else [])"
        by (rule hop_session)
      then show ?thesis
        using sh Reply Suc j act.worker_reply [of role s P p t "(p, t + 1)" "[]" "(to_sender P)(out_path s := [])"]
        by (intro exI [of _ 0]) auto
    qed
  qed
qed

text \<open>Every cycle can be driven to its end, whatever has happened so far.\<close>

lemma lockstep_settles:
  assumes "lockstep_at tok P"
  shows "\<exists>P' d. moves\<^sup>*\<^sup>* P P' \<and> lockstep_at (Rest d) P'"
  using assms
proof (induction "rank tok" arbitrary: tok P rule: less_induct)
  case less
  show ?case
  proof (cases "\<exists>d. tok = Rest d")
    case True
    then show ?thesis using less.prems by blast
  next
    case False
    obtain n P1 where act: "act (P\<lparr>clock := clock P + n\<rparr>) P1"
      using lockstep_progress less.prems unfolding lockstep_def by blast
    obtain tok1 where "lockstep_at tok1 P1" "rank tok1 < rank tok"
      using lockstep_at_act [OF act lockstep_at_wait [OF less.prems]] False by blast
    then obtain P' d where "moves\<^sup>*\<^sup>* P1 P'" "lockstep_at (Rest d) P'" using less.hyps by blast
    moreover have "moves P (P\<lparr>clock := clock P + n\<rparr>)" "moves (P\<lparr>clock := clock P + n\<rparr>) P1"
      using act by (auto simp: moves_def)
    ultimately show ?thesis by (meson converse_rtranclp_into_rtranclp)
  qed
qed


section \<open>The agent's view of a cycle\<close>

lemma log_of_eqD:
  assumes "log_of 7 0 p t q r = log_of 7 0 p' t' q' r'"
  shows "p = p'" and "i < 7 \<Longrightarrow> q i = q' i" and "i < 7 \<Longrightarrow> r i = r' i"
proof -
  have eq: "map (\<lambda>j. SentRequest (hop_path j) p t (q j)) [0..<7] = map (\<lambda>j. SentRequest (hop_path j) p' t' (q' j)) [0..<7]"
    "map (\<lambda>j. SentReply (hop_path j) p (t + 1) (r j)) (rev [0..<7]) = map (\<lambda>j. SentReply (hop_path j) p' (t' + 1) (r' j)) (rev [0..<7])"
    using assms by (simp_all add: log_of_def)
  have "\<forall>j\<in>set [0..<7]. SentRequest (hop_path j) p t (q j) = SentRequest (hop_path j) p' t' (q' j)"
    using eq(1) by (rule map_eq_conv [THEN iffD1])
  then show "p = p'" and "i < 7 \<Longrightarrow> q i = q' i" by force+
  have "\<forall>j\<in>set (rev [0..<7]). SentReply (hop_path j) p (t + 1) (r j) = SentReply (hop_path j) p' (t' + 1) (r' j)"
    using eq(2) by (rule map_eq_conv [THEN iffD1])
  then show "i < 7 \<Longrightarrow> r i = r' i" by force
qed

lemma completed_cycle:
  assumes "reachable P" and "initiator P = Ready d" and "cycle_log P = log_of 7 0 p t q r"
  shows "requests_timed 7 q" and "replies_timed 0 q r"
proof -
  obtain tok p' t' q' r' where sh: "shape tok p' t' P" and hi: "history tok p' t' q' r' P"
    using reachable_lockstep [OF assms(1)] by (auto simp: lockstep_def lockstep_at_def)
  have "tok = Rest d" using rest_token [OF sh assms(2)] .
  moreover have "cycle_log P \<noteq> []" using assms(3) by (simp add: log_of_def)
  ultimately have 1: "log_of 7 0 p t q r = log_of 7 0 p' t' q' r'" "requests_timed 7 q'" "replies_timed 0 q' r'"
    using hi assms(3) by simp_all
  show "requests_timed 7 q" using 1(2) log_of_eqD(2) [OF 1(1)] by (auto simp: requests_timed_def)
  show "replies_timed 0 q r"
    using 1(3) log_of_eqD(2) [OF 1(1), of 6] log_of_eqD(3) [OF 1(1)] by (auto simp: replies_timed_def)
qed

text \<open>The round trip of a hop exceeds that of the next one by at least the delay of its listener.\<close>

lemma hop_excess:
  assumes "requests_timed 7 q" and "replies_timed 0 q r"
  shows "i < 7 \<Longrightarrow> q i + hop_delay i \<le> r i"
    and "Suc i < 7 \<Longrightarrow> r (Suc i) - q (Suc i) + hop_delay i \<le> r i - q i"
proof -
  have le: "q i + hop_delay i \<le> r i" if "i < 7" for i
    using that
  proof (induction "6 - i" arbitrary: i)
    case 0
    then have "i = 6" by simp
    then show ?case using assms(2) by (simp add: replies_timed_def)
  next
    case (Suc n)
    then have "q (Suc i) + hop_delay (Suc i) \<le> r (Suc i)" by (intro Suc.hyps) auto
    moreover have "q i + hop_delay i \<le> q (Suc i)" "r (Suc i) \<le> r i"
      using assms Suc by (auto simp: requests_timed_def replies_timed_def)
    ultimately show ?case by linarith
  qed
  then show "i < 7 \<Longrightarrow> q i + hop_delay i \<le> r i" .
  assume "Suc i < 7"
  moreover have "q i + hop_delay i \<le> q (Suc i)" "r (Suc i) \<le> r i"
    using assms \<open>Suc i < 7\<close> by (auto simp: requests_timed_def replies_timed_def)
  ultimately show "r (Suc i) - q (Suc i) + hop_delay i \<le> r i - q i" using le [of "Suc i"] by linarith
qed

lemma cycle_attribution:
  assumes times: "requests_timed 7 q" "replies_timed 0 q r" "r 0 < 2 ^ 64"
    and K: "hash_documented K" and ev: "reply_of evq p" "reply_of evr p"
    and room: "length (TIMESTAMP_MAP s) + 7 \<le> 1024" "length (LATENCY_HOP_MAP s) < 1023"
      "pids_room s ((\<lambda>i. ev_pid (evr i)) ` {..<7})" "map_wf 1024 (LATENCY_HOP_MAP s)"
    and windows: "\<And>pid. window_of s pid (W pid)" "\<And>pid. length (W pid) + 7 < 2 ^ 64"
  shows "\<exists>x. (\<forall>pid. window_of (replies K evr (\<lambda>i. of_nat (r i)) c 7 (requests K evq (\<lambda>i. of_nat (q i)) 7 s)) pid
              (foldl slide (W pid) (reply_samples evr x c 7 pid)))
      \<and> (\<forall>i<7. hop_delay i \<le> unat (x i)) \<and> (\<Sum>i<7. unat (x i)) = r 0 - q 0"
proof -
  have mono: "r j \<le> r 0" if "j < 7" for j
    using that
  proof (induction j)
    case (Suc j)
    then show ?case using times(2) by (force simp: replies_timed_def)
  qed simp
  have small: "unat (of_nat (r j) :: u64) = r j" "unat (of_nat (q j) :: u64) = q j" if "j < 7" for j
    using mono [OF that] hop_excess(1) [OF times(1,2) that] times(3) by (simp_all add: unat_of_nat)
  let ?q = "\<lambda>i. of_nat (q i) :: u64" and ?r = "\<lambda>i. of_nat (r i) :: u64"
  let ?x = "contribution (\<lambda>i. ?r i - ?q i) None 7"
  have nested: "?q i \<le> ?q (Suc i) \<and> ?r (Suc i) \<le> ?r i" if "Suc i < 7" for i
    using that times small [of i] small [of "Suc i"]
    by (force simp: word_le_nat_alt requests_timed_def replies_timed_def)
  have innermost: "?q (7 - 1) < ?r (7 - 1)"
    using hop_excess(1) [OF times(1,2), of 6] small [of 6]
    by (simp add: word_less_nat_alt hop_delay_nth from_millis_def)
  have down: "downstream s p 7 = None" by (simp add: downstream_def)
  note chain = sca_chain [OF K ev zero_less_numeral order_refl room(1,2,3,4) down nested innermost windows refl [of ?x]]
  have lat: "unat (?r j - ?q j) = r j - q j" if "j < 7" for j
    using that hop_excess(1) [OF times(1,2) that] small [OF that] by (simp add: unat_sub word_le_nat_alt)
  have "hop_delay i \<le> unat (?x i)" if i: "i < 7" for i
    using i lat [OF i] lat [of "Suc i"] hop_excess(1) [OF times(1,2) i] hop_excess(2) [OF times(1,2), of i]
    by (cases "Suc i = 7") (auto simp: contribution_def)
  moreover have "(\<Sum>i<7. unat (?x i)) = r 0 - q 0" using chain(2) small [of 0] by simp
  ultimately show ?thesis using chain(1) by (intro exI [of _ ?x]) blast
qed

text \<open>The fastest cycle: nothing waits longer than the delays ask for.\<close>

fun fast_q :: "nat \<Rightarrow> nat" where
  "fast_q 0 = 0"
| "fast_q (Suc i) = fast_q i + hop_delay i"

lemma fast_down:
  assumes "i < 7"
  shows "\<exists>P. reachable P \<and> shape (Request i) p t P \<and> cycle_log P = log_of (Suc i) 7 p t fast_q r \<and> clock P = fast_q i"
  using assms
proof (induction i)
  case 0
  obtain role where "role \<in> set ROLES" "initiator_out role = Some (hop_path 0)" using initiator_hop(2) by blast
  moreover define P0 where "P0 = pipeline_init\<lparr>to_listener := (\<lambda>_. [])(hop_path 0 := [(p, t)]),
      initiator := WaitingReply, cycle_log := [SentRequest (hop_path 0) p t 0]\<rparr>"
  ultimately have "act pipeline_init P0"
    using act.initiator_send [of role "hop_path 0" pipeline_init 0 p t] by (simp add: pipeline_init_def)
  then have "reachable P0" using reachable.start reachable.move by blast
  moreover have "shape (Request 0) p t P0" "cycle_log P0 = log_of (Suc 0) 7 p t fast_q r" "clock P0 = fast_q 0"
    by (simp_all add: P0_def pipeline_init_def log_of_def)
  ultimately show ?case by blast
next
  case (Suc i)
  then obtain P where P: "reachable P" "shape (Request i) p t P" "cycle_log P = log_of (Suc i) 7 p t fast_q r" "clock P = fast_q i"
    by auto
  have i: "i < 7" "i < 6" using Suc.prems by simp_all
  obtain role s where rs: "role \<in> set ROLES" "s \<in> set (sessions role)" "listen_path s = hop_path i"
      "out_path s = hop_path (Suc i)" "delay role = hop_delay i"
    using hop_session [OF i(1)] i(2) by auto
  define P1 where "P1 = P\<lparr>to_listener := \<lambda>_. [], workers := (workers P)(hop_path i := Sleeping p t (clock P + hop_delay i))\<rparr>"
  have "act P P1"
    using act.worker_recv [of role s P p t "[]"] rs P(2) i by (simp add: P1_def)
  then have "reachable (P1\<lparr>clock := clock P1 + hop_delay i\<rparr>)" using P(1) reachable.intros by blast
  moreover define P2 where "P2 = P1\<lparr>clock := clock P1 + hop_delay i\<rparr>"
  moreover define P3 where "P3 = P2\<lparr>to_listener := (\<lambda>_. [])(hop_path (Suc i) := [(p, t)]), workers := awaiting (Suc i) p t,
      cycle_log := log_of (Suc (Suc i)) 7 p t fast_q r\<rparr>"
  have "fast_q(Suc i := fast_q i + hop_delay i) = fast_q" by (simp add: fun_eq_iff)
  then have "act P2 P3"
    using act.worker_forward [of role s P2 p t "clock P + hop_delay i"] rs P i log_of_request [of "Suc i" p t fast_q r "fast_q (Suc i)"]
    by (simp add: P2_def P3_def P1_def awaiting_Suc)
  ultimately have "reachable P3" using reachable.move by blast
  moreover have "shape (Request (Suc i)) p t P3" "cycle_log P3 = log_of (Suc (Suc i)) 7 p t fast_q r" "clock P3 = fast_q (Suc i)"
    using P Suc.prems by (simp_all add: P3_def P2_def P1_def)
  ultimately show ?case by blast
qed

definition fast_r :: "nat \<Rightarrow> nat" where
  "fast_r i = fast_q 7"

lemma fast_up:
  assumes "n \<le> 6"
  shows "\<exists>P. reachable P \<and> shape (Reply (6 - n)) p t P \<and> cycle_log P = log_of 7 (6 - n) p t fast_q fast_r
    \<and> clock P = fast_q 7"
  using assms
proof (induction n)
  case 0
  obtain P where P: "reachable P" "shape (Request 6) p t P" "cycle_log P = log_of 7 7 p t fast_q fast_r" "clock P = fast_q 6"
    using fast_down [of 6 p t fast_r] by auto
  obtain role s where rs: "role \<in> set ROLES" "s \<in> set (sessions role)" "listen_path s = hop_path 6"
      "out_path s = []" "delay role = hop_delay 6"
    using hop_session [of 6] by auto
  define P1 where "P1 = P\<lparr>to_listener := \<lambda>_. [], workers := (workers P)(hop_path 6 := Sleeping p t (clock P + hop_delay 6))\<rparr>"
  have "act P P1"
    using act.worker_recv [of role s P p t "[]"] rs P(2) by (simp add: P1_def)
  then have "reachable (P1\<lparr>clock := clock P1 + hop_delay 6\<rparr>)" using P(1) reachable.intros by blast
  moreover define P2 where "P2 = P1\<lparr>clock := clock P1 + hop_delay 6\<rparr>"
  moreover define P3 where "P3 = P2\<lparr>to_sender := (\<lambda>_. [])(hop_path 6 := [(p, t + 1)]), workers := awaiting 6 p t,
      cycle_log := log_of 7 6 p t fast_q fast_r\<rparr>"
  have w: "(awaiting 6 p t)(hop_path 6 := Receiving) = awaiting 6 p t" by (simp add: fun_upd_idem_iff)
  have seven: "fast_q 6 + hop_delay 6 = fast_q 7" using fast_q.simps(2) [of 6] by simp
  have "fast_r(6 := fast_q 7) = fast_r" by (simp add: fast_r_def fun_eq_iff)
  then have "act P2 P3"
    using act.worker_answer [of role s P2 p t "clock P + hop_delay 6"] rs P log_of_reply [of 6 7 p t fast_q fast_r "fast_q 7"]
    by (simp add: P2_def P3_def P1_def w seven)
  ultimately have "reachable P3" using reachable.move by blast
  moreover have "shape (Reply 6) p t P3" "cycle_log P3 = log_of 7 6 p t fast_q fast_r" "clock P3 = fast_q 7"
    using P by (simp_all add: P3_def P2_def P1_def seven)
  ultimately show ?case by auto
next
  case (Suc n)
  define i where "i = 6 - Suc n"
  have i: "i < 6" "i < 7" "6 - n = Suc i" using Suc.prems by (simp_all add: i_def)
  obtain P where P: "reachable P" "shape (Reply (Suc i)) p t P" "cycle_log P = log_of 7 (Suc i) p t fast_q fast_r"
      "clock P = fast_q 7"
    using Suc i(3) by auto
  obtain role s where rs: "role \<in> set ROLES" "s \<in> set (sessions role)" "listen_path s = hop_path i" "out_path s = hop_path (Suc i)"
      "delay role = hop_delay i"
    using hop_session [OF i(2)] i(1) by auto
  define P1 where "P1 = P\<lparr>to_sender := (\<lambda>_. [])(hop_path i := [(p, t + 1)]), workers := awaiting i p t,
      cycle_log := log_of 7 i p t fast_q fast_r\<rparr>"
  have "fast_r(i := fast_q 7) = fast_r" by (simp add: fast_r_def fun_eq_iff)
  then have "act P P1"
    using act.worker_reply [of role s P p t "(p, t + 1)" "[]" "(to_sender P)(out_path s := [])"] rs P i
      log_of_reply [of i 7 p t fast_q fast_r "fast_q 7"] awaiting_drop [OF i(1), of p t]
    by (simp add: P1_def)
  then have "reachable P1" using P(1) reachable.move by blast
  moreover have "shape (Reply i) p t P1" "cycle_log P1 = log_of 7 i p t fast_q fast_r" "clock P1 = fast_q 7"
    using P i by (simp_all add: P1_def)
  ultimately show ?case unfolding i_def by blast
qed

lemma fast_cycle:
  "\<exists>P d. reachable P \<and> initiator P = Ready d \<and> cycle_log P = log_of 7 0 p t fast_q fast_r"
proof -
  obtain P where P: "reachable P" "shape (Reply 0) p t P" "cycle_log P = log_of 7 0 p t fast_q fast_r"
    using fast_up [of 6 p t] by auto
  obtain role where "role \<in> set ROLES" "initiator_out role = Some (hop_path 0)" using initiator_hop(2) by blast
  moreover define P1 where "P1 = P\<lparr>to_sender := (to_sender P)(hop_path 0 := []), initiator := Ready (clock P + CYCLE_INTERVAL)\<rparr>"
  ultimately have "act P P1"
    using act.initiator_recv [of role "hop_path 0" P "(p, t + 1)" "[]"] P(2) by simp
  then have "reachable P1" using P(1) reachable.move by blast
  moreover have "initiator P1 = Ready (clock P + CYCLE_INTERVAL)" "cycle_log P1 = log_of 7 0 p t fast_q fast_r"
    using P(3) by (simp_all add: P1_def)
  ultimately show ?thesis by blast
qed


section \<open>Properties\<close>

text \<open>
  C16. The pipeline does not get stuck: in every reachable state, under every scheduling, some
  thread can go on once time has passed, and from every reachable state the cycle under way can
  be completed, so that the initiator is ready again.
\<close>

theorem sca_sim_never_stuck:
  assumes "reachable P"
  shows "(\<exists>n P'. act (P\<lparr>clock := clock P + n\<rparr>) P') \<and> (\<exists>P' d. moves\<^sup>*\<^sup>* P P' \<and> reachable P' \<and> initiator P' = Ready d)"
proof -
  note lock = reachable_lockstep [OF assms]
  then obtain P' d where "moves\<^sup>*\<^sup>* P P'" "lockstep_at (Rest d) P'"
    using lockstep_settles unfolding lockstep_def by blast
  moreover have "initiator P' = Ready d" using \<open>lockstep_at (Rest d) P'\<close> by (simp add: lockstep_at_def)
  ultimately show ?thesis using lockstep_progress [OF lock] reachable_moves assms by blast
qed

theorem sca_sim_never_stuck_witness:
  "\<exists>n P'. act (pipeline_init\<lparr>clock := clock pipeline_init + n\<rparr>) P'"
  using sca_sim_never_stuck [OF reachable.start] by blast

text \<open>
  C15. The agent attributes to every component at least the delay it simulates: whenever a cycle of
  the simulator is complete, its messages are one request over each hop in order and one reply
  over each hop in reverse order, and the handlers of the agent, run on those messages, add to the
  window of each process one sample for each of its replies, and no other sample; hop by hop the
  sample is at least the delay of the receiving role, and the samples add up to the time between
  the first request and the last reply.
\<close>

theorem sca_sim_delays_attributed:
  assumes "reachable P" and "initiator P = Ready d" and "cycle_log P = log_of 7 0 p t q r" and "r 0 < 2 ^ 64"
    and "hash_documented K" and "reply_of evq p" and "reply_of evr p"
    and "length (TIMESTAMP_MAP s) + 7 \<le> 1024" and "length (LATENCY_HOP_MAP s) < 1023"
    and "pids_room s ((\<lambda>i. ev_pid (evr i)) ` {..<7})" and "map_wf 1024 (LATENCY_HOP_MAP s)"
    and "\<And>pid. window_of s pid (W pid)" and "\<And>pid. length (W pid) + 7 < 2 ^ 64"
  shows "\<exists>x. (\<forall>pid. window_of (replies K evr (\<lambda>i. of_nat (r i)) c 7 (requests K evq (\<lambda>i. of_nat (q i)) 7 s)) pid
              (foldl slide (W pid) (reply_samples evr x c 7 pid)))
      \<and> (\<forall>i<7. hop_delay i \<le> unat (x i)) \<and> (\<Sum>i<7. unat (x i)) = r 0 - q 0"
  using cycle_attribution [OF completed_cycle [OF assms(1-3)] assms(4-13)] .

lemma fast_q_values: "fast_q 7 = 60000000"
proof -
  have "(7 :: nat) = Suc (Suc (Suc (Suc (Suc (Suc (Suc 0))))))" by simp
  then show ?thesis by (simp only: fast_q.simps) (simp add: hop_delay_nth from_millis_def)
qed

theorem sca_sim_delays_attributed_witness:
  "\<exists>P x. reachable P \<and> cycle_log P = log_of 7 0 0x80000001 7 fast_q fast_r
     \<and> (\<forall>pid. window_of (replies ref_kernel sca_demo_ev (\<lambda>i. of_nat (fast_r i)) (\<lambda>_. 70000000) 7
              (requests ref_kernel sca_demo_ev (\<lambda>i. of_nat (fast_q i)) 7 sca_maps_init)) pid
            (foldl slide [] (reply_samples sca_demo_ev x (\<lambda>_. 70000000) 7 pid)))
     \<and> (\<Sum>i<7. unat (x i)) = 60000000 \<and> 5000000 \<le> unat (x 0)"
proof -
  obtain P d where P: "reachable P" "initiator P = Ready d" "cycle_log P = log_of 7 0 0x80000001 7 fast_q fast_r"
    using fast_cycle by blast
  have "fast_r 0 < 2 ^ 64" by (simp add: fast_r_def fast_q_values)
  moreover have "card ((\<lambda>i. ev_pid (sca_demo_ev i)) ` {..<7}) \<le> 16"
    by (rule le_trans [OF card_image_le]) simp_all
  ultimately have "\<exists>x. (\<forall>pid. window_of (replies ref_kernel sca_demo_ev (\<lambda>i. of_nat (fast_r i)) (\<lambda>_. 70000000) 7
              (requests ref_kernel sca_demo_ev (\<lambda>i. of_nat (fast_q i)) 7 sca_maps_init)) pid
            (foldl slide [] (reply_samples sca_demo_ev x (\<lambda>_. 70000000) 7 pid)))
      \<and> (\<forall>i<7. hop_delay i \<le> unat (x i)) \<and> (\<Sum>i<7. unat (x i)) = fast_r 0 - fast_q 0"
    by (intro sca_sim_delays_attributed [OF P _ ref_kernel_hash_documented sca_demo_ev_reply sca_demo_ev_reply _ _
          maps_init_room _ maps_init_window]) (simp_all add: sca_maps_init_def map_wf_def keys_def)
  then obtain x where x: "\<forall>pid. window_of (replies ref_kernel sca_demo_ev (\<lambda>i. of_nat (fast_r i)) (\<lambda>_. 70000000) 7
              (requests ref_kernel sca_demo_ev (\<lambda>i. of_nat (fast_q i)) 7 sca_maps_init)) pid
            (foldl slide [] (reply_samples sca_demo_ev x (\<lambda>_. 70000000) 7 pid))"
      and "\<forall>i<7. hop_delay i \<le> unat (x i)" "(\<Sum>i<7. unat (x i)) = fast_r 0 - fast_q 0" by blast
  then have "(\<Sum>i<7. unat (x i)) = 60000000" "hop_delay 0 \<le> unat (x 0)"
    by (simp_all only: fast_r_def fast_q_values fast_q.simps)
  moreover have "hop_delay 0 = 5000000" using hop_delay_nth [of 0] by (simp add: from_millis_def)
  ultimately show ?thesis using P(1,3) x by metis
qed

end
