(* ===== verification/Sca_Sim_Host.thy ===== *)
theory Sca_Sim_Host
  imports Sca_Sim
begin

text \<open>
  What the processes of \<open>sca_sim.rs\<close> ask of the operating system: sockets, process name and terminal.
  \<open>sys\<close> answers a call, given the calls before it, with an error or a number; a fatal error ends the
  process and is \<open>Inl\<close>, with the calls made until then.

  Shown: a worker whose calls succeed has performed \<open>worker_setup\<close> of its role in that order, and
  holds for every session the descriptors of its own paths; the terminal is restored at exit.
\<close>

unbundle bit_operations_syntax

datatype sock_call =
  Unlink string
| NewSocket
| BindTo i32 "u8 list"
| ListenOn i32 nat
| ConnectTo i32 "u8 list"
| AcceptOn i32
| SetName string

type_synonym sys = "sock_call list \<Rightarrow> sock_call \<Rightarrow> string + i32"
type_synonym 'a task = "sock_call list \<Rightarrow> sock_call list \<times> (string + 'a)"

definition and_then :: "'a task \<Rightarrow> ('a \<Rightarrow> 'b task) \<Rightarrow> 'b task" where
  "and_then t k tr = (case t tr of (tr, Inl m) \<Rightarrow> (tr, Inl m) | (tr, Inr v) \<Rightarrow> k v tr)"

definition return_task :: "'a \<Rightarrow> 'a task" where
  "return_task v tr = (tr, Inr v)"

definition fatal_task :: "string \<Rightarrow> 'a task" where
  "fatal_task m tr = (tr, Inl m)"

definition syscall :: "sys \<Rightarrow> sock_call \<Rightarrow> (string \<Rightarrow> string) \<Rightarrow> i32 task" where
  "syscall sys c err tr = (tr @ [c], case sys tr c of Inl e \<Rightarrow> Inl (err e) | Inr v \<Rightarrow> Inr v)"

fun each :: "('a \<Rightarrow> 'b task) \<Rightarrow> 'a list \<Rightarrow> 'b list task" where
  "each f [] = return_task []"
| "each f (x # xs) = and_then (f x) (\<lambda>y. and_then (each f xs) (\<lambda>ys. return_task (y # ys)))"

definition unix_socket :: "sys \<Rightarrow> i32 task" where
  "unix_socket sys = syscall sys NewSocket (\<lambda>e. ''socket() failed: '' @ e)"

text \<open>\<open>make_addr\<close> with its assertion, and \<open>remove_file\<close> with its result dropped.\<close>

definition address :: "string \<Rightarrow> u8 list task" where
  "address pth = (case make_addr pth of None \<Rightarrow> fatal_task ''socket path too long'' | Some a \<Rightarrow> return_task a)"

definition remove_file :: "string \<Rightarrow> unit task" where
  "remove_file pth tr = (tr @ [Unlink pth], Inr ())"

definition listen_socket :: "sys \<Rightarrow> string \<Rightarrow> i32 task" where
  "listen_socket sys pth =
     and_then (remove_file pth) (\<lambda>_.
     and_then (unix_socket sys) (\<lambda>fd.
     and_then (address pth) (\<lambda>addr.
     and_then (syscall sys (BindTo fd addr) (\<lambda>e. ''bind('' @ pth @ '') failed: '' @ e)) (\<lambda>_.
     and_then (syscall sys (ListenOn fd 16) (\<lambda>e. ''listen('' @ pth @ '') failed: '' @ e)) (\<lambda>_.
     return_task fd)))))"

definition accept_one :: "sys \<Rightarrow> i32 \<Rightarrow> string \<Rightarrow> i32 task" where
  "accept_one sys listen_fd pth = syscall sys (AcceptOn listen_fd) (\<lambda>e. ''accept('' @ pth @ '') failed: '' @ e)"

text \<open>The attempts of \<open>connect_socket\<close>, with the number of those left.\<close>

fun connect_attempts :: "sys \<Rightarrow> string \<Rightarrow> i32 \<Rightarrow> u8 list \<Rightarrow> nat \<Rightarrow> i32 task" where
  "connect_attempts sys pth fd addr 0 = fatal_task ''internal error: entered unreachable code''"
| "connect_attempts sys pth fd addr (Suc n) =
     (\<lambda>tr. case sys tr (ConnectTo fd addr) of
        Inr _ \<Rightarrow> (tr @ [ConnectTo fd addr], Inr fd)
      | Inl e \<Rightarrow>
          if n = 0
          then (tr @ [ConnectTo fd addr],
                Inl (''connect('' @ pth @ '') failed after '' @ decimal CONNECT_RETRIES @ '' retries: '' @ e))
          else connect_attempts sys pth fd addr n (tr @ [ConnectTo fd addr]))"

definition connect_fd :: "sys \<Rightarrow> string \<Rightarrow> i32 task" where
  "connect_fd sys pth =
     and_then (unix_socket sys) (\<lambda>fd.
     and_then (address pth) (\<lambda>addr. connect_attempts sys pth fd addr CONNECT_RETRIES))"

text \<open>The set-up of \<open>run_worker\<close>: the descriptors of its sessions, incoming and outgoing.\<close>

definition run_worker_setup :: "sys \<Rightarrow> Role \<Rightarrow> (i32 list \<times> i32 option list) task" where
  "run_worker_setup sys role =
     and_then (each (\<lambda>s. listen_socket sys (listen_path s)) (sessions role)) (\<lambda>listeners.
     and_then (each (\<lambda>s. connect_fd sys (out_path s)) (filter (\<lambda>s. out_path s \<noteq> []) (sessions role))) (\<lambda>outs.
     and_then (each (\<lambda>(s, lfd). accept_one sys lfd (listen_path s)) (zip (sessions role) listeners)) (\<lambda>ins.
     case out_per_session (sessions role) outs of
       None \<Rightarrow> fatal_task ''out fd missing''
     | Some out_fds \<Rightarrow> return_task (ins, out_fds))))"

definition set_process_name :: "sys \<Rightarrow> string \<Rightarrow> unit task" where
  "set_process_name sys name =
     and_then (syscall sys (SetName name) (\<lambda>e. ''prctl(PR_SET_NAME, '' @ name @ '') failed'')) (\<lambda>_. return_task ())"

text \<open>\<open>run_role\<close> up to the point where the threads run: a worker has its descriptors, the initiator
  its connection.\<close>

definition run_role :: "sys \<Rightarrow> Role \<Rightarrow> (i32 list \<times> i32 option list) task" where
  "run_role sys role =
     and_then (set_process_name sys (role_name role)) (\<lambda>_.
     case initiator_out role of
       Some out \<Rightarrow> and_then (connect_fd sys out) (\<lambda>fd. return_task ([], [Some fd]))
     | None \<Rightarrow> run_worker_setup sys role)"


section \<open>Terminal\<close>

definition ICANON :: u32 where "ICANON = 2"
definition ECHO :: u32 where "ECHO = 8"
definition VMIN :: nat where "VMIN = 6"
definition VTIME :: nat where "VTIME = 5"

record termios =
  c_lflag :: u32
  c_cc :: "nat \<Rightarrow> u8"
  c_other :: "u8 list"

text \<open>Standard input: its settings if it is a terminal, whether \<open>tcsetattr\<close> fails, \<open>ORIG_TERMIOS\<close>, and
  whether \<open>restore_terminal\<close> is registered to run at exit.\<close>

record tty =
  attrs :: "termios option"
  set_fails :: bool
  ORIG_TERMIOS :: "termios option"
  at_exit :: bool

definition tcsetattr :: "termios \<Rightarrow> tty \<Rightarrow> tty" where
  "tcsetattr term t = (if set_fails t \<or> attrs t = None then t else t\<lparr>attrs := Some term\<rparr>)"

definition restore_terminal :: "tty \<Rightarrow> tty" where
  "restore_terminal t =
     (case ORIG_TERMIOS t of None \<Rightarrow> t | Some term \<Rightarrow> tcsetattr term (t\<lparr>ORIG_TERMIOS := None\<rparr>))"

definition enable_keypress_mode :: "tty \<Rightarrow> tty" where
  "enable_keypress_mode t =
     (case attrs t of
        None \<Rightarrow> t
      | Some term \<Rightarrow>
          (let raw = term\<lparr>c_lflag := c_lflag term AND NOT (ICANON OR ECHO), c_cc := (c_cc term)(VMIN := 1, VTIME := 0)\<rparr>
           in if set_fails t then t
              else (tcsetattr raw t)\<lparr>ORIG_TERMIOS := Some term, at_exit := True\<rparr>))"

definition process_exit :: "tty \<Rightarrow> tty" where
  "process_exit t = (if at_exit t then restore_terminal t else t)"

text \<open>In keypress mode a byte is delivered at once and not echoed, and the exit undoes it.\<close>

lemma terminal_restored:
  assumes "ORIG_TERMIOS t = None" and "\<not> at_exit t"
  shows "attrs (process_exit (enable_keypress_mode t)) = attrs t"
    and "\<lbrakk>attrs t \<noteq> None; \<not> set_fails t\<rbrakk> \<Longrightarrow>
      \<exists>raw. attrs (enable_keypress_mode t) = Some raw \<and> c_lflag raw AND (ICANON OR ECHO) = 0 \<and> c_cc raw VMIN = 1"
proof -
  show "attrs (process_exit (enable_keypress_mode t)) = attrs t"
    using assms
    by (auto simp: process_exit_def enable_keypress_mode_def restore_terminal_def tcsetattr_def Let_def split: option.split)
  have "(x AND NOT a AND NOT b) AND (a OR b) = 0" for x a b :: u32 by (rule bit_word_eqI) (auto simp: bit_simps)
  then show "\<lbrakk>attrs t \<noteq> None; \<not> set_fails t\<rbrakk> \<Longrightarrow>
      \<exists>raw. attrs (enable_keypress_mode t) = Some raw \<and> c_lflag raw AND (ICANON OR ECHO) = 0 \<and> c_cc raw VMIN = 1"
    by (auto simp: enable_keypress_mode_def tcsetattr_def Let_def VMIN_def VTIME_def)
qed


section \<open>Set-up of a worker\<close>

lemma and_then_Inr:
  "and_then t k tr = (tr', Inr v) \<longleftrightarrow> (\<exists>tr1 u. t tr = (tr1, Inr u) \<and> k u tr1 = (tr', Inr v))"
  by (auto simp: and_then_def split: prod.splits sum.splits)

lemma return_Inr: "return_task u tr = (tr', Inr v) \<longleftrightarrow> tr' = tr \<and> v = u"
  by (auto simp: return_task_def)

lemma syscall_Inr: "syscall sys c err tr = (tr', Inr v) \<longleftrightarrow> sys tr c = Inr v \<and> tr' = tr @ [c]"
  by (auto simp: syscall_def split: sum.splits)

lemma address_Inr: "address pth tr = (tr', Inr a) \<longleftrightarrow> tr' = tr \<and> make_addr pth = Some a"
  by (auto simp: address_def fatal_task_def return_task_def split: option.splits)

lemmas task_simps = and_then_Inr return_Inr syscall_Inr address_Inr

text \<open>The calls made for a listener, for a connection and for an accepted peer.\<close>

definition listens :: "string \<Rightarrow> i32 \<Rightarrow> sock_call list \<Rightarrow> bool" where
  "listens pth fd cs \<longleftrightarrow> (\<exists>a. make_addr pth = Some a \<and> cs = [Unlink pth, NewSocket, BindTo fd a, ListenOn fd 16])"

definition connects :: "string \<Rightarrow> i32 \<Rightarrow> sock_call list \<Rightarrow> bool" where
  "connects pth fd cs \<longleftrightarrow> (\<exists>a n. make_addr pth = Some a \<and> 0 < n \<and> n \<le> CONNECT_RETRIES
     \<and> cs = NewSocket # replicate n (ConnectTo fd a))"

lemma listen_socket_calls:
  "listen_socket sys pth tr = (tr', Inr fd) \<Longrightarrow> \<exists>cs. tr' = tr @ cs \<and> listens pth fd cs"
  by (auto simp: listen_socket_def remove_file_def unix_socket_def task_simps listens_def)

lemma connect_attempts_calls:
  "connect_attempts sys pth fd a n tr = (tr', Inr fd') \<Longrightarrow>
     \<exists>k. 0 < k \<and> k \<le> n \<and> tr' = tr @ replicate k (ConnectTo fd a) \<and> fd' = fd"
proof (induction n arbitrary: tr)
  case (Suc n)
  show ?case
  proof (cases "sys tr (ConnectTo fd a)")
    case (Inr v)
    then show ?thesis using Suc.prems by (intro exI [of _ 1]) auto
  next
    case (Inl e)
    then have "connect_attempts sys pth fd a n (tr @ [ConnectTo fd a]) = (tr', Inr fd')"
      using Suc.prems by (simp split: if_splits)
    from Suc.IH [OF this] obtain k where "0 < k" "k \<le> n" "tr' = tr @ replicate (Suc k) (ConnectTo fd a)" "fd' = fd"
      by auto
    then show ?thesis by (intro exI [of _ "Suc k"]) simp
  qed
qed (simp add: fatal_task_def)

lemma connect_fd_calls:
  "connect_fd sys pth tr = (tr', Inr fd) \<Longrightarrow> \<exists>cs. tr' = tr @ cs \<and> connects pth fd cs"
  by (fastforce simp: connect_fd_def unix_socket_def task_simps connects_def dest!: connect_attempts_calls)

lemma each_calls:
  assumes "\<And>x tr tr' y. f x tr = (tr', Inr y) \<Longrightarrow> \<exists>cs. tr' = tr @ cs \<and> P x y cs"
    and "each f xs tr = (tr', Inr ys)"
  shows "\<exists>css. tr' = tr @ concat css \<and> length ys = length xs \<and> list_all2 (\<lambda>(x, y). P x y) (zip xs ys) css"
  using assms(2)
proof (induction xs arbitrary: tr ys)
  case (Cons x xs)
  then obtain y ys' tr1 where 1: "f x tr = (tr1, Inr y)" "each f xs tr1 = (tr', Inr ys')" "ys = y # ys'"
    by (auto simp: task_simps)
  obtain cs where "tr1 = tr @ cs" "P x y cs" using assms(1) [OF 1(1)] by blast
  moreover obtain css where "tr' = tr1 @ concat css" "length ys' = length xs"
      "list_all2 (\<lambda>(x, y). P x y) (zip xs ys') css"
    using Cons.IH [OF 1(2)] by blast
  ultimately show ?case using 1(3) by (intro exI [of _ "cs # css"]) simp
qed (simp add: task_simps)

text \<open>
  A worker that is set up has made the calls of \<open>worker_setup\<close>: its listeners in order, then its
  connections, each with at most \<open>CONNECT_RETRIES\<close> attempts, then one accept on each listener.
\<close>

lemma worker_setup_calls:
  assumes "run_worker_setup sys role tr = (tr', Inr (ins, outs))"
  shows "\<exists>listeners conns lss css.
     tr' = tr @ concat lss @ concat css @ map AcceptOn listeners
     \<and> list_all2 (\<lambda>(s, fd). listens (listen_path s) fd) (zip (sessions role) listeners) lss
     \<and> list_all2 (\<lambda>(s, fd). connects (out_path s) fd) (zip (filter (\<lambda>s. out_path s \<noteq> []) (sessions role)) conns) css
     \<and> length listeners = length (sessions role) \<and> length ins = length (sessions role)
     \<and> out_per_session (sessions role) conns = Some outs"
proof -
  let ?ss = "sessions role" and ?os = "filter (\<lambda>s. out_path s \<noteq> []) (sessions role)"
  obtain tr1 tr2 listeners conns where
    1: "each (\<lambda>s. listen_socket sys (listen_path s)) ?ss tr = (tr1, Inr listeners)" and
    2: "each (\<lambda>s. connect_fd sys (out_path s)) ?os tr1 = (tr2, Inr conns)" and
    3: "each (\<lambda>(s, lfd). accept_one sys lfd (listen_path s)) (zip ?ss listeners) tr2 = (tr', Inr ins)" and
    4: "out_per_session ?ss conns = Some outs"
    using assms by (fastforce simp: run_worker_setup_def task_simps fatal_task_def split: option.splits)
  obtain lss where l: "tr1 = tr @ concat lss" "length listeners = length ?ss"
      "list_all2 (\<lambda>(s, fd). listens (listen_path s) fd) (zip ?ss listeners) lss"
    using each_calls [where P = "\<lambda>s fd. listens (listen_path s) fd", OF _ 1] listen_socket_calls by blast
  obtain css where c: "tr2 = tr1 @ concat css" "list_all2 (\<lambda>(s, fd). connects (out_path s) fd) (zip ?os conns) css"
    using each_calls [where P = "\<lambda>s fd. connects (out_path s) fd", OF _ 2] connect_fd_calls by blast
  have accept: "\<exists>cs. tr' = tr @ cs \<and> cs = [AcceptOn (snd x)]"
    if "(case x of (s, lfd) \<Rightarrow> accept_one sys lfd (listen_path s)) tr = (tr', Inr y)" for x tr tr' y
    using that by (cases x) (simp add: accept_one_def task_simps)
  have "\<exists>ass. tr' = tr2 @ concat ass \<and> length ins = length (zip ?ss listeners)
      \<and> list_all2 (\<lambda>(x, y) cs. cs = [AcceptOn (snd x)]) (zip (zip ?ss listeners) ins) ass"
    by (rule each_calls [where P = "\<lambda>x y cs. cs = [AcceptOn (snd x)]", OF _ 3]) (erule accept)
  then obtain ass where a: "tr' = tr2 @ concat ass" "length ins = length (zip ?ss listeners)"
      "list_all2 (\<lambda>(x, y) cs. cs = [AcceptOn (snd x)]) (zip (zip ?ss listeners) ins) ass" by blast
  have "ass = map (\<lambda>fd. [AcceptOn fd]) listeners"
    using a(2,3) l(2) by (intro nth_equalityI) (auto simp: list_all2_conv_all_nth)
  then have "concat ass = map AcceptOn listeners" by (simp add: concat_map_singleton)
  then show ?thesis using l c a(1,2) 4 by auto
qed

end
