(* ===== verification/Sca_System.thy ===== *)
theory Sca_System
  imports Sca_User
begin

text \<open>
  The two sides of \<open>sca\<close> together: the eBPF handler and the userspace program change the same maps,
  in any order. \<open>sca_run\<close> is the run of such a system from its creation; with \<open>clean\<close>, no call to the
  loader library fails and every iteration over a map completes.

  Shown: no map ever holds more entries than it was created with, nor a key twice; and in a clean
  run the three accumulator maps have the same processes, so that a sum is never divided by the
  count of a lost insertion.
\<close>

definition faultless :: "aya \<Rightarrow> sca_world \<Rightarrow> bool" where
  "faultless aya w \<longleftrightarrow> (\<forall>c. aya c = None) \<and> (\<forall>n. iter_error w n = None)"

inductive sca_run :: "kernel \<Rightarrow> bool \<Rightarrow> ScaProgram \<times> sca_maps \<Rightarrow> bool" for K clean where
  created: "sca_run K clean (sca_new, sca_maps_init)"
| loaded: "sca_run K clean (p, s) \<Longrightarrow> (clean \<Longrightarrow> faultless aya w) \<Longrightarrow>
    sca_load K aya w p s = ((r, p'), s') \<Longrightarrow> sca_run K clean (p', s')"
| metered: "sca_run K clean (p, s) \<Longrightarrow> sca_set_metrics_registry prom p = (r, p') \<Longrightarrow> sca_run K clean (p', s)"
| sent: "sca_run K clean (p, s) \<Longrightarrow>
    sys_enter_sendmsg_handler K ctx pid_tgid c mem now now' s = (v, s') \<Longrightarrow> sca_run K clean (p, s')"
| displayed: "sca_run K clean (p, s) \<Longrightarrow> (clean \<Longrightarrow> faultless aya w) \<Longrightarrow>
    sca_display_metrics K aya w p s = ((r, p'), s') \<Longrightarrow> sca_run K clean (p', s')"

text \<open>The type of the maps: their capacities, and one entry for a key.\<close>

definition maps_typed :: "sca_maps \<Rightarrow> bool" where
  "maps_typed s \<longleftrightarrow> map_wf 14 (SOCKET_HOPS_MAP s) \<and> map_wf 1024 (TIMESTAMP_MAP s) \<and> map_wf 1024 (LATENCY_HOP_MAP s)
     \<and> map_wf 16 (LATENCY_PID_SUM s) \<and> map_wf 16 (LATENCY_PID_COUNT s) \<and> map_wf 16 (LATENCY_WINDOW_START s)"

definition coherent :: "sca_maps \<Rightarrow> bool" where
  "coherent s \<longleftrightarrow> set (keys (LATENCY_PID_COUNT s)) = set (keys (LATENCY_PID_SUM s))
     \<and> set (keys (LATENCY_WINDOW_START s)) = set (keys (LATENCY_PID_SUM s))"

lemma hops_capacity [simp]: "SOCKET_HOPS_MAP_MAX_ENTRIES = 14"
  by (simp add: SOCKET_HOPS_MAP_MAX_ENTRIES_def)


section \<open>The eBPF handler\<close>

lemma typed_update:
  assumes "hash_documented K" and "maps_typed s"
  shows "maps_typed (update_moving_average K pid l t s)"
  using assms by (auto simp: maps_typed_def update_moving_average_def Let_def)

lemma coherent_update:
  assumes "hash_documented K" and "maps_typed s" and "coherent s"
  shows "coherent (update_moving_average K pid l t s)"
proof -
  have wf: "map_wf 16 (LATENCY_PID_SUM s)" "map_wf 16 (LATENCY_PID_COUNT s)" "map_wf 16 (LATENCY_WINDOW_START s)"
    using assms(2) by (simp_all add: maps_typed_def)
  note put = keys_hash_put_eq [OF assms(1) wf(1)] keys_hash_put_eq [OF assms(1) wf(2)]
    keys_hash_put_eq [OF assms(1) wf(3)]
  have "pid \<in> set (keys (LATENCY_PID_SUM s))" if "unwrap_or (map_get (LATENCY_PID_COUNT s) pid) 0 \<noteq> 0"
    using that assms(3) by (auto simp: coherent_def in_keys_iff map_get_def unwrap_or_def split: option.splits)
  then show ?thesis
    using assms(3) put by (auto simp: coherent_def update_moving_average_def Let_def insert_absorb)
qed

lemma lookup_frame:
  assumes "lookup_timestamp_with_protocol h pr t s = (l, s')"
  shows "maps_typed s \<Longrightarrow> maps_typed s'" and "coherent s \<Longrightarrow> coherent s'"
  using assms
  by (auto simp: lookup_timestamp_with_protocol_def maps_typed_def coherent_def Let_def split: option.splits)

lemma subtract_frame:
  assumes "subtract_downstream_latency K h pr l s = (l', s')" and "hash_documented K"
  shows "maps_typed s \<Longrightarrow> maps_typed s'" and "coherent s \<Longrightarrow> coherent s'"
  using assms
  by (auto simp: subtract_downstream_latency_def maps_typed_def coherent_def Let_def
      split: option.splits if_splits intro!: map_wf_remove map_wf_hash_put)

lemma response_frame:
  assumes "hash_documented K" and "maps_typed s"
  shows "maps_typed (handle_response K ev t t' s)" and "coherent s \<Longrightarrow> coherent (handle_response K ev t t' s)"
proof -
  let ?h = "hop_index (ev_endpoint ev)" and ?p = "ev_protocol ev"
  obtain l s1 where 1: "lookup_timestamp_with_protocol ?h ?p t s = (l, s1)" by fastforce
  obtain l' s2 where 2: "subtract_downstream_latency K ?h ?p l s1 = (l', s2)" by fastforce
  note typed = lookup_frame(1) [OF 1 assms(2)] subtract_frame(1) [OF 2 assms(1)]
  have "handle_response K ev t t' s = (if l = 0 then s1 else update_moving_average K (ev_pid ev) l' t' s2)"
    by (simp add: handle_response_def 1 2 Let_def)
  then show "maps_typed (handle_response K ev t t' s)" and "coherent s \<Longrightarrow> coherent (handle_response K ev t t' s)"
    using typed typed_update [OF assms(1)] lookup_frame(2) [OF 1] subtract_frame(2) [OF 2 assms(1)]
      coherent_update [OF assms(1)] by simp_all
qed

lemma request_frame:
  assumes "hash_documented K" and "maps_typed s"
  shows "maps_typed (handle_request K ev t s)" and "coherent s \<Longrightarrow> coherent (handle_request K ev t s)"
  using assms
  by (auto simp: handle_request_def store_timestamp_with_protocol_def maps_typed_def coherent_def)

lemma handler_frame:
  assumes "hash_documented K" and "maps_typed s"
    and "sys_enter_sendmsg_handler K ctx pid_tgid c mem now now' s = (v, s')"
  shows "maps_typed s' \<and> (coherent s \<longrightarrow> coherent s')"
  using assms(3) request_frame [OF assms(1,2)] response_frame [OF assms(1,2)] assms(2)
  by (auto simp: sys_enter_sendmsg_handler_def Let_def split: option.splits if_splits)


section \<open>The userspace program\<close>

lemma remove_keys_eq:
  assumes "map_wf n m"
  shows "map_wf n (remove_keys m ks)" and "set (keys (remove_keys m ks)) = set (keys m) - set ks"
proof -
  have "length (filter P m) \<le> n" for P
    using assms by (auto simp: map_wf_def intro: le_trans [OF length_filter_le])
  then show "map_wf n (remove_keys m ks)" using assms by (simp add: remove_keys_filter map_wf_def)
  show "set (keys (remove_keys m ks)) = set (keys m) - set ks" by (auto simp: remove_keys_filter keys_def)
qed

lemma evict_pids_eq:
  assumes "evict_pids aya w live name m = Inr m'" and "map_wf n m"
  shows "map_wf n m'" and "set (keys m') = set (keys m) \<inter> live"
  using assms remove_keys_eq [OF assms(2), of "filter (\<lambda>pid. pid \<notin> live) (keys m)"]
  by (auto simp: evict_pids_def split: option.splits)

lemma evict_pids_faultless: "faultless aya w \<Longrightarrow> \<exists>m'. evict_pids aya w live name m = Inr m'"
  by (simp add: evict_pids_def faultless_def)

text \<open>An eviction that fails half-way leaves the maps typed, but no longer coherent.\<close>

lemma evict_latencies_frame:
  assumes "evict_latencies aya w live s = (r, s')" and "maps_typed s"
  shows "maps_typed s' \<and> (faultless aya w \<and> coherent s \<longrightarrow> coherent s')"
proof (cases "faultless aya w")
  case False
  then show ?thesis
    using assms evict_pids_eq(1) [of aya w live _ _ _ 16]
    by (auto simp: evict_latencies_def maps_typed_def Let_def split: sum.splits)
next
  case True
  then obtain m1 m2 m3 where
    m: "evict_pids aya w live ''LATENCY_PID_SUM'' (LATENCY_PID_SUM s) = Inr m1"
       "evict_pids aya w live ''LATENCY_PID_COUNT'' (LATENCY_PID_COUNT s) = Inr m2"
       "evict_pids aya w live ''LATENCY_WINDOW_START'' (LATENCY_WINDOW_START s) = Inr m3"
    using evict_pids_faultless by metis
  then have s': "s' = s\<lparr>LATENCY_PID_SUM := m1, LATENCY_PID_COUNT := m2, LATENCY_WINDOW_START := m3\<rparr>"
    using assms(1) by (simp add: evict_latencies_def Let_def)
  show ?thesis
    using assms(2) m [THEN evict_pids_eq(1), of 16] m [THEN evict_pids_eq(2), of 16]
    by (simp add: s' maps_typed_def coherent_def)
qed

lemma insert_endpoint_frame:
  assumes "hash_documented K" and "maps_typed s"
  shows "maps_typed (insert_endpoint K hop s)" and "coherent (insert_endpoint K hop s) = coherent s"
  using assms by (auto simp: insert_endpoint_def maps_typed_def coherent_def Let_def)

lemma insert_hops_frame:
  assumes "hash_documented K" and "insert_hops K hops (dm, s) = (dm', s')" and "maps_typed s"
  shows "maps_typed s' \<and> (coherent s \<longrightarrow> coherent s')"
  using assms(2,3)
proof (induction hops arbitrary: dm s)
  case (Cons hop hops)
  then show ?case
    using insert_endpoint_frame [OF assms(1) Cons.prems(2), of hop] by (cases dm) auto
qed simp

lemma insert_discovered_frame:
  assumes "hash_documented K" and "insert_discovered K aya hops (dm, s) = (r, dm', s')" and "maps_typed s"
  shows "maps_typed s' \<and> (coherent s \<longrightarrow> coherent s')"
  using assms insert_hops_frame [OF assms(1), of hops dm s]
  by (auto simp: insert_discovered_def split: option.splits)

lemma repopulate_frame:
  assumes "hash_documented K" and "repopulate_socket_hops_map K aya w (dm, s) = (r, dm', s')" and "maps_typed s"
  shows "maps_typed s' \<and> (faultless aya w \<and> coherent s \<longrightarrow> coherent s')"
proof -
  have evict: "maps_typed s1 \<and> coherent s1 = coherent s" if "evict_endpoints aya w live s = Inr s1" for live s1
    using that assms(3) remove_keys_eq [of 14 "SOCKET_HOPS_MAP s"]
    by (auto simp: evict_endpoints_def maps_typed_def coherent_def split: option.splits)
  show ?thesis
    using assms(2,3)
    by (auto simp: repopulate_socket_hops_map_def Let_def split: sum.splits prod.splits
        dest!: evict evict_latencies_frame insert_discovered_frame [OF assms(1)])
qed

lemma load_frame:
  assumes "hash_documented K" and "sca_load K aya w p s = ((r, p'), s')" and "maps_typed s"
  shows "maps_typed s' \<and> (coherent s \<longrightarrow> coherent s')"
proof -
  have "maps_typed s1 \<and> (coherent s \<longrightarrow> coherent s1)"
    if "populate_socket_hops_map K aya w (dm, s) = (r1, dm', s1)" for dm dm' r1 s1
    using that assms(3) insert_discovered_frame [OF assms(1)]
    by (auto simp: populate_socket_hops_map_def split: sum.splits)
  then show ?thesis
    using assms(2,3) by (auto simp: sca_load_def Let_def split: prod.splits option.splits sum.splits)
qed

lemma display_frame:
  assumes "hash_documented K" and "sca_display_metrics K aya w p s = ((r, p'), s')" and "maps_typed s"
  shows "maps_typed s' \<and> (faultless aya w \<and> coherent s \<longrightarrow> coherent s')"
proof -
  consider "s' = s" | dm r1 dm' where "repopulate_socket_hops_map K aya w (dm, s) = (r1, dm', s')"
    using assms(2)
    by (auto simp: sca_display_metrics_def Let_def split: option.splits sum.splits if_splits prod.splits)
  then show ?thesis
    using assms(3) repopulate_frame [OF assms(1)] by cases blast+
qed

lemma sca_run_frame:
  assumes "hash_documented K" and "sca_run K clean st"
  shows "maps_typed (snd st) \<and> (clean \<longrightarrow> coherent (snd st))"
  using assms(2)
proof induction
  case created
  then show ?case by (simp add: sca_maps_init_def maps_typed_def coherent_def keys_def)
next
  case (loaded p s aya w r p' s')
  then show ?case using load_frame [OF assms(1)] by simp
next
  case (metered p s prom r p')
  then show ?case by simp
next
  case (sent p s ctx pid_tgid c mem now now' v s')
  then show ?case using handler_frame [OF assms(1) _ sent.hyps(2)] by auto
next
  case (displayed p s aya w r p' s')
  then show ?case using display_frame [OF assms(1)] by simp
qed


section \<open>Properties\<close>

text \<open>
  C9. The maps of \<open>sca\<close> keep their type whatever the two sides do: in every run of the handler and of
  the userspace program, interleaved in any order and with any call failing, each map holds at
  most the entries it was created for and no key twice; and as long as no loader call fails, the
  sum, count and window maps hold exactly the same processes.
\<close>

theorem sca_maps_keep_type:
  assumes "hash_documented K" and "sca_run K clean (p, s)"
  shows "maps_typed s \<and> (clean \<longrightarrow> coherent s)"
  using sca_run_frame [OF assms] by simp

lemma sca_load_inserts:
  assumes "\<And>c. aya c = None" and "discover_hop_sockets w = Inr hops"
  shows "\<exists>p' dm' s'. sca_load K aya w p s = ((Inr (), p'), s')
    \<and> insert_hops K hops ((socket_path_map p, socket_pid_map p), s) = (dm', s')"
proof -
  obtain paths pids s' where "insert_hops K hops ((socket_path_map p, socket_pid_map p), s) = ((paths, pids), s')"
    by (metis prod.collapse)
  then show ?thesis
    using assms run_steps_ok [of aya "load_object ''sca''"]
      run_steps_ok [of aya "concat (map (\<lambda>(name, category, event).
                          take_program name @ attach name (Tracepoint category event)) TRACEPOINTS)"]
    by (auto simp: sca_load_def populate_socket_hops_map_def insert_discovered_def Let_def)
qed

theorem sca_maps_keep_type_witness:
  "\<exists>p s. sca_run ref_kernel True (p, s) \<and> get_endpoint s 1030 9 \<noteq> None \<and> maps_typed s \<and> coherent s"
proof -
  let ?hops = "[\<lparr>dh_hop_index = 2, dh_host_pid = 1030, dh_fd = 9, dh_is_sender = 0, dh_path = ''/tmp/WF_L_TO_FRAG'', dh_pname = ''FRAGMENTER''\<rparr>,
      \<lparr>dh_hop_index = 2, dh_host_pid = 20, dh_fd = 7, dh_is_sender = 1, dh_path = ''/tmp/WF_L_TO_FRAG'', dh_pname = ''RED_WF_COMM_L''\<rparr>] :: DiscoveredHop list"
  have "discover_hop_sockets sca_restart_world = Inr ?hops"
    using demo_discovery discover_cong [of sca_restart_world demo_env]
    by (simp add: sca_restart_world_def sca_env.defs)
  from sca_load_inserts [OF refl this, of ref_kernel sca_new sca_maps_init]
  obtain r p s where load: "sca_load ref_kernel (\<lambda>_. None) sca_restart_world sca_new sca_maps_init = ((r, p), s)"
    and s: "\<exists>dm dm'. insert_hops ref_kernel ?hops (dm, sca_maps_init) = (dm', s)"
    by blast
  have "faultless (\<lambda>_. None) sca_restart_world" by (simp add: faultless_def sca_restart_world_def sca_env.defs)
  then have run: "sca_run ref_kernel True (p, s)" using sca_run.loaded [OF sca_run.created _ load] by blast
  have "get_endpoint s 1030 9 \<noteq> None"
    using s insert_hops_maps [of ref_kernel ?hops sca_maps_init]
    by (auto simp: get_endpoint_def hop_key_def sca_maps_init_def)
  then show ?thesis using run sca_maps_keep_type [OF ref_kernel_hash_documented run] by blast
qed

end
