(* ===== verification/Sca_Sim_Discovered.thy ===== *)
theory Sca_Sim_Discovered
  imports Sca_Sim_Host Sca_System
begin














section \<open>Records and paths\<close>







section \<open>Discovered endpoints\<close>












section \<open>Properties\<close>

















end
