(* ===== verification/Irss_Sim.thy ===== *)
theory Irss_Sim
  imports Wire Irss_User
begin

text \<open>
  The traffic simulator of \<open>irss\<close> (\<open>src/bpfagent/examples/irss_sim.rs\<close>): one thread sends tagged
  datagrams to a local UDP port, the other receives each of them with \<open>recvmsg\<close>, waits, and
  forwards it with \<open>sendmsg\<close> on a raw socket. The kernel's answers are arguments: what binding,
  receiving and sending return, and where the local variables of \<open>run_irss\<close> lie. A loop ends when
  its list of turns does, which is when the shutdown flag is set.

  Shown: the structures handed to the system calls are such that the agent, configured with the
  simulator's destination and port, measures every forwarded datagram and nothing else, whatever
  receive timeouts and failed sends come in between, and exports at least the processing delay.
\<close>

unbundle bit_operations_syntax

definition RAW_PROTOCOL :: i32 where "RAW_PROTOCOL = 253"
definition MSG_SIZE :: nat where "MSG_SIZE = 64"

text \<open>Durations in nanoseconds.\<close>

definition CYCLE_INTERVAL :: nat where "CYCLE_INTERVAL = 1000 * 1000000"
definition PROCESSING_DELAY :: nat where "PROCESSING_DELAY = 12 * 1000000"
definition RECV_TIMEOUT :: nat where "RECV_TIMEOUT = 500 * 1000000"

text \<open>What the threads do, in order; \<open>RecvMsg\<close> and \<open>SendMsg\<close> carry the memory of the process that the
  call is about, as address and contents of each variable.\<close>

type_synonym segments = "(u64 \<times> u8 list) list"

datatype sim_action =
  BindUdp string
| SetReadTimeout nat
| RawSocket i32
| SendTo string "u8 list"
| RecvMsg u64 segments
| SendMsg u64 segments
| Sleep nat
| Eprint string
| CloseRaw


section \<open>The CRYPTO thread\<close>

definition crypto_datagram :: "u32 \<Rightarrow> u8 list option" where
  "crypto_datagram tag = put_at (replicate MSG_SIZE 0) 0 (to_be_bytes 4 tag)"

text \<open>One turn per random tag, with the error of \<open>send_to\<close>, if any.\<close>

fun crypto_loop :: "string \<Rightarrow> u64 \<Rightarrow> (u32 \<times> string option) list \<Rightarrow> sim_action list option" where
  "crypto_loop dest cycle [] = Some []"
| "crypto_loop dest cycle ((tag, err) # turns) =
     do {
       buf \<leftarrow> crypto_datagram tag;
       rest \<leftarrow> crypto_loop dest (cycle + 1) turns;
       Some ([SendTo dest buf]
         @ (case err of
              None \<Rightarrow> []
            | Some e \<Rightarrow> [Eprint (''irss_sim[CRYPTO]: send_to('' @ dest @ '') failed: '' @ e)])
         @ (if (cycle + 1) mod 10 = 0
            then [Eprint (''irss_sim[CRYPTO]: '' @ to_string (cycle + 1) @ '' datagrams sent'')] else [])
         @ [Sleep CYCLE_INTERVAL] @ rest)
     }"

definition run_crypto ::
  "string \<Rightarrow> string option \<Rightarrow> (u32 \<times> string option) list \<Rightarrow> (string + sim_action list) option" where
  "run_crypto dest bound turns =
     (case bound of
        Some e \<Rightarrow> Some (Inl (''CRYPTO bind failed: '' @ e))
      | None \<Rightarrow> map_option (\<lambda>acts. Inr (BindUdp ''0.0.0.0:0'' # acts)) (crypto_loop dest 0 turns))"


section \<open>The IRSS thread\<close>

text \<open>The addresses of the local variables of \<open>run_irss\<close>, and the bytes between the fields.\<close>

record stack_frame =
  at_hdr :: u64
  at_iov :: u64
  at_out_hdr :: u64
  at_out_iov :: u64
  at_buf :: u64
  at_raw_dest :: u64
  pad_byte :: u8

text \<open>\<open>Received\<close>: the datagram and the flags that the kernel writes back.\<close>

datatype recvmsg_result = WouldBlock | RecvError string | Received "u8 list" i32

definition raw_dest_sockaddr :: "u8 list \<Rightarrow> u8 list" where
  "raw_dest_sockaddr raw_dest_ip =
     repr_c 0 0
       [(2, to_le_bytes 2 AF_INET), (2, to_le_bytes 2 (0 :: u16)),
        (4, to_le_bytes 4 (from_be (from_be_bytes raw_dest_ip :: u32))), (1, replicate 8 0)]"

text \<open>\<open>recvmsg\<close> fills the buffer from its start and never beyond its length.\<close>

definition fill_buffer :: "u8 list \<Rightarrow> u8 list \<Rightarrow> u8 list" where
  "fill_buffer buf data = take (length buf) data @ drop (length data) buf"

definition recv_segments :: "stack_frame \<Rightarrow> u8 list \<Rightarrow> i32 \<Rightarrow> segments" where
  "recv_segments f buf flags =
     [(at_hdr f, msghdr_bytes (pad_byte f) 0 0 (at_iov f) 1 flags),
      (at_iov f, iovec_bytes (at_buf f) (of_nat (length buf))), (at_buf f, buf)]"

definition send_segments :: "stack_frame \<Rightarrow> u8 list \<Rightarrow> u8 list \<Rightarrow> nat \<Rightarrow> segments" where
  "send_segments f raw_dest_ip buf len =
     [(at_out_hdr f, msghdr_bytes (pad_byte f) (at_raw_dest f) 16 (at_out_iov f) 1 0),
      (at_out_iov f, iovec_bytes (at_buf f) (of_nat len)), (at_buf f, buf),
      (at_raw_dest f, raw_dest_sockaddr raw_dest_ip)]"

text \<open>One pass of the loop: the actions and the buffer after it.\<close>

fun irss_turn ::
  "stack_frame \<Rightarrow> u8 list \<Rightarrow> u8 list \<Rightarrow> recvmsg_result \<times> string option \<Rightarrow> sim_action list \<times> u8 list" where
  "irss_turn f raw_dest_ip buf (WouldBlock, _) = ([RecvMsg (at_hdr f) (recv_segments f buf 0)], buf)"
| "irss_turn f raw_dest_ip buf (RecvError e, _) =
     ([RecvMsg (at_hdr f) (recv_segments f buf 0), Eprint (''irss_sim[IRSS]: recvmsg failed: '' @ e)], buf)"
| "irss_turn f raw_dest_ip buf (Received data flags, err) =
     (let len = min (length buf) (length data); buf = fill_buffer buf data
      in ([RecvMsg (at_hdr f) (recv_segments f buf flags), Sleep PROCESSING_DELAY,
           SendMsg (at_out_hdr f) (send_segments f raw_dest_ip buf len)]
          @ (case err of
               None \<Rightarrow> []
             | Some e \<Rightarrow>
                 [Eprint (''irss_sim[IRSS]: raw sendmsg failed (measurement still recorded): '' @ e)]), buf))"

fun irss_loop ::
  "stack_frame \<Rightarrow> u8 list \<Rightarrow> u8 list \<Rightarrow> (recvmsg_result \<times> string option) list \<Rightarrow> sim_action list" where
  "irss_loop f raw_dest_ip buf [] = []"
| "irss_loop f raw_dest_ip buf (t # ts) =
     (let (acts, buf) = irss_turn f raw_dest_ip buf t in acts @ irss_loop f raw_dest_ip buf ts)"

text \<open>\<open>bound\<close>, \<open>timed\<close> and \<open>opened\<close> are the errors of binding, of the read timeout and of the raw
  socket. A fatal error is \<open>Inl\<close>, with the actions before it.\<close>

definition run_irss ::
  "stack_frame \<Rightarrow> u8 list \<Rightarrow> u16 \<Rightarrow> string option \<Rightarrow> string option \<Rightarrow> string option
     \<Rightarrow> (recvmsg_result \<times> string option) list \<Rightarrow> sim_action list \<times> (string + unit)" where
  "run_irss f raw_dest_ip port_no bound timed opened turns =
     (let port = to_string port_no; udp = BindUdp (''0.0.0.0:'' @ port)
      in case bound of
           Some e \<Rightarrow> ([udp], Inl (''IRSS bind UDP :'' @ port @ '' failed: '' @ e))
         | None \<Rightarrow>
             (case timed of
                Some e \<Rightarrow> ([udp, SetReadTimeout RECV_TIMEOUT], Inl (''IRSS set_read_timeout failed: '' @ e))
              | None \<Rightarrow>
                  (case opened of
                     Some e \<Rightarrow>
                       ([udp, SetReadTimeout RECV_TIMEOUT, RawSocket RAW_PROTOCOL],
                        Inl (''IRSS raw socket() failed (need root/CAP_NET_RAW): '' @ e))
                   | None \<Rightarrow>
                       ([udp, SetReadTimeout RECV_TIMEOUT, RawSocket RAW_PROTOCOL,
                         Eprint (''irss_sim[IRSS]: forwarding UDP :'' @ port @ '' -> raw IP '' @ show_ipv4 raw_dest_ip)]
                        @ irss_loop f raw_dest_ip (replicate 512 0) turns @ [CloseRaw], Inr ()))))"


section \<open>Command line\<close>

definition parse_u16 :: "string \<Rightarrow> u16 option" where
  "parse_u16 s = map_option of_nat (parse_unsigned (2 ^ 16 - 1) s)"

text \<open>\<open>env::args().nth(1)\<close> and \<open>nth(2)\<close>, with their defaults; an invalid one is fatal.\<close>

definition arg_at :: "string list \<Rightarrow> nat \<Rightarrow> string option" where
  "arg_at argv n = (if n < length argv then Some (argv ! n) else None)"

definition parse_args :: "string list \<Rightarrow> string + (u8 list \<times> u16)" where
  "parse_args argv =
     (case (case arg_at argv 1 of
              None \<Rightarrow> Inr RAW_DEST
            | Some arg \<Rightarrow>
                (case parse_ipv4 arg of
                   Some ip \<Rightarrow> Inr ip
                 | None \<Rightarrow> Inl (''invalid RAW_DEST_IP '' @ [CHR 0x27] @ arg @ [CHR 0x27]
                              @ '': invalid IPv4 address syntax'')))
      of Inl m \<Rightarrow> Inl m
       | Inr raw_dest_ip \<Rightarrow>
           (case (case arg_at argv 2 of
                    None \<Rightarrow> Inr LISTEN_PORT
                  | Some arg \<Rightarrow>
                      (case parse_u16 arg of
                         Some port \<Rightarrow>
                           if port \<noteq> 0 then Inr port
                           else Inl (''invalid LISTEN_PORT '' @ [CHR 0x27] @ arg @ [CHR 0x27])
                       | None \<Rightarrow> Inl (''invalid LISTEN_PORT '' @ [CHR 0x27] @ arg @ [CHR 0x27])))
            of Inl m \<Rightarrow> Inl m
             | Inr port \<Rightarrow> Inr (raw_dest_ip, port)))"

text \<open>What the two threads do: the CRYPTO thread, and the main thread, which is the IRSS thread.\<close>

definition main ::
  "string list \<Rightarrow> string option \<Rightarrow> (u32 \<times> string option) list \<Rightarrow> stack_frame \<Rightarrow> string option \<Rightarrow> string option
     \<Rightarrow> string option \<Rightarrow> (recvmsg_result \<times> string option) list
     \<Rightarrow> string + ((string + sim_action list) option \<times> sim_action list \<times> (string + unit))" where
  "main argv crypto_bound crypto_turns f bound timed opened turns =
     (case parse_args argv of
        Inl m \<Rightarrow> Inl m
      | Inr (raw_dest_ip, port) \<Rightarrow>
          (let dest = ''127.0.0.1:'' @ to_string port;
               (acts, r) = run_irss f raw_dest_ip port bound timed opened turns
           in Inr (run_crypto dest crypto_bound crypto_turns,
                [Eprint (''irss_sim: CRYPTO sends UDP to '' @ dest @ '' every 1s; IRSS forwards to raw IP ''
                   @ show_ipv4 raw_dest_ip),
                 Eprint ''irss_sim: start bpfagent now and watch irss_avg_latency_us'']
                @ acts @ (if r = Inr () then [Eprint ''irss_sim: shutting down''] else []), r)))"


section \<open>What the agent reads from the calls\<close>

definition holds_segments :: "user_mem \<Rightarrow> segments \<Rightarrow> bool" where
  "holds_segments mem segs \<longleftrightarrow> list_all (\<lambda>(a, bs). read_bytes mem a (length bs) = Some bs) segs"

definition frame_ok :: "stack_frame \<Rightarrow> bool" where
  "frame_ok f \<longleftrightarrow> at_iov f \<noteq> 0 \<and> at_out_iov f \<noteq> 0 \<and> at_buf f \<noteq> 0 \<and> at_raw_dest f \<noteq> 0"

lemma length_structs [simp]:
  "length (msghdr_bytes pad name namelen iov iovlen flags) = 56"
  "length (iovec_bytes base len) = 16"
  by (simp_all add: msghdr_bytes_def iovec_bytes_def padding_def)

lemma read_msghdr_bytes:
  assumes "read_bytes mem a 56 = Some (msghdr_bytes pad name namelen iov iovlen flags)"
  shows "\<exists>h. read_user_msghdr mem a = Some h \<and> msg_name h = name \<and> msg_namelen h = namelen
           \<and> msg_iov h = iov \<and> msg_iovlen h = iovlen"
  using assms
  by (simp add: read_user_msghdr_def) (simp add: msghdr_bytes_def padding_def field_le_bytes)

lemma read_iovec_bytes:
  assumes "read_bytes mem a 16 = Some (iovec_bytes base len)"
  shows "\<exists>v. read_user_iovec mem a = Some v \<and> iov_base v = base \<and> iov_len v = len"
  using assms
  by (simp add: read_user_iovec_def) (simp add: iovec_bytes_def padding_def field_le_bytes)

text \<open>The tag is found behind any of the two headers, and the destination behind the second.\<close>

lemma payload_key_behind:
  assumes "read_bytes mem a 56 = Some (msghdr_bytes pad name namelen iov 1 flags)"
    and "read_bytes mem iov 16 = Some (iovec_bytes base (of_nat len))"
    and "read_bytes mem base (length buf) = Some buf"
    and "iov \<noteq> 0" and "base \<noteq> 0" and "4 \<le> len" and "len < 2 ^ 64" and "4 \<le> length buf"
    and "take 4 buf = to_be_bytes 4 tag"
  shows "read_payload_key mem a = Some tag"
proof -
  have "read_bytes mem base 4 = Some (to_be_bytes 4 tag)"
    using read_bytes_part [OF assms(3), of 0 4] assms(8,9) by simp
  moreover have "(4 :: u64) \<le> of_nat len"
    using assms(6,7) by (simp add: word_le_nat_alt unat_of_nat)
  ultimately show ?thesis
    using read_msghdr_bytes [OF assms(1)] read_iovec_bytes [OF assms(2)] assms(4,5)
    by (auto simp: read_payload_key_Some_iff KEY_SIZE_def)
qed

lemma to_le_bytes_from_be:
  assumes "length ip = 4"
  shows "to_le_bytes 4 (from_be (from_be_bytes ip :: u32)) = ip"
proof -
  have rev: "to_le_bytes 4 (from_be_bytes bs :: u32) = rev bs" if "length bs = 4" for bs
    using to_le_bytes_from_le_bytes [of "rev bs", where 'a = 32] that by (simp add: from_le_bytes_def)
  then show ?thesis using assms rev [of "rev ip"] by (simp add: from_be_def)
qed

lemma read_raw_dest_sockaddr:
  assumes "read_bytes mem a 16 = Some (raw_dest_sockaddr ip)" and "length ip = 4"
  shows "\<exists>sa. read_user_sockaddr_in mem a = Some sa \<and> sin_family sa = AF_INET \<and> sin_addr sa = from_le_bytes ip"
  using assms
  by (simp add: read_user_sockaddr_in_def)
    (simp add: raw_dest_sockaddr_def padding_def field_le_bytes field_def to_le_bytes_from_be)

lemma length_raw_dest_sockaddr [simp]: "length (raw_dest_sockaddr ip) = 16"
  by (simp add: raw_dest_sockaddr_def padding_def)

lemma crypto_datagram_eq: "crypto_datagram tag = Some (to_be_bytes 4 tag @ replicate 60 0)"
  by (simp add: crypto_datagram_def put_at_def MSG_SIZE_def)

lemma sim_calls_read:
  assumes "frame_ok f" and "crypto_datagram tag = Some data" and "length buf = 512" and "length ip = 4"
  shows "holds_segments mem (recv_segments f (fill_buffer buf data) flags) \<Longrightarrow>
           read_payload_key mem (at_hdr f) = Some tag"
    and "holds_segments mem (send_segments f ip (fill_buffer buf data) (min (length buf) (length data))) \<Longrightarrow>
           read_payload_key mem (at_out_hdr f) = Some tag
           \<and> read_tx_dest mem (at_out_hdr f) = Some (from_le_bytes ip)"
proof -
  have data: "data = to_be_bytes 4 tag @ replicate 60 0"
    using assms(2) by (simp add: crypto_datagram_eq)
  then have buf: "length (fill_buffer buf data) = 512" "take 4 (fill_buffer buf data) = to_be_bytes 4 tag"
    using assms(3) by (simp_all add: fill_buffer_def)
  let ?buf = "fill_buffer buf data"
  { assume "holds_segments mem (recv_segments f ?buf flags)"
    then show "read_payload_key mem (at_hdr f) = Some tag"
      using assms(1) buf
      by (intro payload_key_behind [of mem "at_hdr f" "pad_byte f" 0 0 "at_iov f" flags "at_buf f" 512 ?buf])
        (simp_all add: holds_segments_def recv_segments_def frame_ok_def) }
  { assume h: "holds_segments mem (send_segments f ip ?buf (min (length buf) (length data)))"
    then have hdr: "read_bytes mem (at_out_hdr f) 56
        = Some (msghdr_bytes (pad_byte f) (at_raw_dest f) 16 (at_out_iov f) 1 0)"
      and sa: "read_bytes mem (at_raw_dest f) 16 = Some (raw_dest_sockaddr ip)"
      by (simp_all add: holds_segments_def send_segments_def)
    have "read_payload_key mem (at_out_hdr f) = Some tag"
      using h assms(1,3) buf data hdr
      by (intro payload_key_behind [of mem "at_out_hdr f" "pad_byte f" "at_raw_dest f" 16 "at_out_iov f" 0 "at_buf f"
            64 ?buf]) (simp_all add: holds_segments_def send_segments_def frame_ok_def)
    moreover have "read_tx_dest mem (at_out_hdr f) = Some (from_le_bytes ip)"
      using read_msghdr_bytes [OF hdr] read_raw_dest_sockaddr [OF sa assms(4)] assms(1)
      by (auto simp: read_tx_dest_def frame_ok_def)
    ultimately show "read_payload_key mem (at_out_hdr f) = Some tag
        \<and> read_tx_dest mem (at_out_hdr f) = Some (from_le_bytes ip)" by simp }
qed


section \<open>What the agent measures\<close>

text \<open>
  What the hooks see of one turn: the arguments of the calls, the socket, the memory when
  \<open>recvmsg\<close> returns and when \<open>sendmsg\<close> is entered, and the times of both. \<open>turn_observed\<close> ties it to
  the actions of that turn: the calls are given the addresses the simulator passes, the memory
  holds what it put there, a sleep takes at least its duration, and a receive call that fails
  returns a negative number.
\<close>

record turn_sight =
  enter_args :: SysEnterMsgArgs
  sk_addr :: u64
  sk_probe :: "u64 \<Rightarrow> i64 + u16"
  exit_args :: SysExitArgs
  rx_mem :: user_mem
  rx_time :: u64
  send_args :: SysEnterMsgArgs
  tx_mem :: user_mem
  tx_time :: u64

definition turn_observed ::
  "stack_frame \<Rightarrow> u8 list \<Rightarrow> u16 \<Rightarrow> u8 list \<Rightarrow> recvmsg_result \<times> string option \<Rightarrow> turn_sight \<Rightarrow> bool" where
  "turn_observed f ip port buf t v \<longleftrightarrow>
     sk_probe v (sk_addr v + SK_NUM_OFFSET) = Inr port
     \<and> (case fst (irss_turn f ip buf t) of
          RecvMsg a segs # Sleep d # SendMsg b segs' # _ \<Rightarrow>
            msg (enter_args v) = a \<and> msg (send_args v) = b
            \<and> holds_segments (rx_mem v) segs \<and> holds_segments (tx_mem v) segs'
            \<and> (case fst t of
                  Received data _ \<Rightarrow> ret (exit_args v) = of_nat (min (length buf) (length data)) | _ \<Rightarrow> False)
            \<and> unat (rx_time v) + d \<le> unat (tx_time v)
        | RecvMsg a segs # _ \<Rightarrow> msg (enter_args v) = a \<and> ret (exit_args v) <s 0
        | _ \<Rightarrow> False)"

fun run_observed ::
  "stack_frame \<Rightarrow> u8 list \<Rightarrow> u16 \<Rightarrow> u8 list \<Rightarrow> (recvmsg_result \<times> string option) list \<Rightarrow> turn_sight list \<Rightarrow> bool" where
  "run_observed f ip port buf (t # ts) (v # vs) \<longleftrightarrow>
     turn_observed f ip port buf t v \<and> run_observed f ip port (snd (irss_turn f ip buf t)) ts vs"
| "run_observed f ip port buf ts vs \<longleftrightarrow> ts = [] \<and> vs = []"

definition forwards :: "recvmsg_result \<times> string option \<Rightarrow> bool" where
  "forwards t \<longleftrightarrow> (case fst t of Received _ _ \<Rightarrow> True | _ \<Rightarrow> False)"

text \<open>Only the CRYPTO thread sends to the port.\<close>

definition from_crypto :: "recvmsg_result \<times> string option \<Rightarrow> bool" where
  "from_crypto t \<longleftrightarrow> (case fst t of Received data _ \<Rightarrow> \<exists>tag. crypto_datagram tag = Some data | _ \<Rightarrow> True)"

definition turn_hooks ::
  "u64 \<Rightarrow> recvmsg_result \<times> string option \<Rightarrow> turn_sight \<Rightarrow> (irss_exit_ctx, irss_send_ctx, irss_hook) sighting list" where
  "turn_hooks pid t v =
     [Neutral (SysEnter pid (Some (enter_args v))), Neutral (UdpRecvmsg pid (Some (sk_addr v)) (sk_probe v)),
      First (pid, Some (exit_args v), rx_mem v) (rx_time v)]
     @ (if forwards t then [Second (Some (send_args v), tx_mem v) (tx_time v)] else [])"

definition run_hooks where
  "run_hooks pid ts vs = concat (map2 (turn_hooks pid) ts vs)"

definition forwarding_times :: "(recvmsg_result \<times> string option) list \<Rightarrow> turn_sight list \<Rightarrow> u64 list" where
  "forwarding_times ts vs = map (\<lambda>(t, v). tx_time v - rx_time v) (filter (forwards \<circ> fst) (zip ts vs))"

text \<open>Between two turns nothing is pending and the filters are those of the simulator.\<close>

definition between_turns :: "kernel \<Rightarrow> u8 list \<Rightarrow> u16 \<Rightarrow> irss_maps \<Rightarrow> bool" where
  "between_turns K ip port s \<longleftrightarrow> irss_inv K s \<and> RECV_MSG_PTR s = [] \<and> TIMESTAMP_MAP s = []
     \<and> listen_port s = ucast port \<and> raw_dest s = from_le_bytes ip"

lemma hash_put_empty:
  assumes "hash_documented K" and "0 < n"
  shows "hash_put K n [] k v = [(k, v)]"
  using hash_insert_accepts [OF assms(1), of "[]" k n v] assms(2) by (simp add: ignoring_def)

lemma map_remove_single [simp]: "map_remove [(k, v)] k = []"
  by (simp add: map_remove_def)

lemma enter_between:
  assumes "between_turns K ip port s" and "probe (sk + SK_NUM_OFFSET) = Inr port"
  shows "irss_enter K (irss_enter K s (SysEnter pid (Some a))) (UdpRecvmsg pid (Some sk) probe)
           = s\<lparr>RECV_MSG_PTR := [(pid, msg a)]\<rparr>"
  using assms
  by (auto simp: between_turns_def irss_inv_def irss_hook_defs hash_put_empty listen_port_def)

lemma exit_between:
  assumes "between_turns K ip port s"
  shows "irss_exit K (s\<lparr>RECV_MSG_PTR := [(pid, a)]\<rparr>) (pid, Some r, mem) t =
     (if ret r <s of_nat KEY_SIZE then s
      else case read_payload_key mem a of None \<Rightarrow> s | Some tag \<Rightarrow> s\<lparr>TIMESTAMP_MAP := [(tag, t)]\<rparr>)"
proof -
  have "hash_documented K" and "s\<lparr>RECV_MSG_PTR := []\<rparr> = s" and "TIMESTAMP_MAP s = []"
    using assms by (simp_all add: between_turns_def irss_inv_def)
  then show ?thesis
    by (simp add: irss_exit_eq irss_exit_tag_staged hash_put_empty split: option.split)
qed

text \<open>A receive call that fails leaves no trace; a forwarded datagram leaves its latency.\<close>

lemma turn_silent:
  assumes "between_turns K ip port s" and "turn_observed f ip port buf t v" and "\<not> forwards t"
  shows "irss.latencies K s (turn_hooks pid t v) = [] \<and> irss.watch K s (turn_hooks pid t v) = s"
proof -
  have "ret (exit_args v) <s of_nat KEY_SIZE" and "sk_probe v (sk_addr v + SK_NUM_OFFSET) = Inr port"
    using assms(2,3) by (cases t; cases "fst t"; simp add: turn_observed_def forwards_def KEY_SIZE_def word_sless_alt)+
  then show ?thesis
    using assms(3) by (simp add: turn_hooks_def enter_between [OF assms(1)] exit_between [OF assms(1)])
qed


lemma turn_forwarded:
  assumes "between_turns K ip port s" and "turn_observed f ip port buf t v" and "forwards t" and "from_crypto t"
    and "frame_ok f" and "length buf = 512" and "length ip = 4"
  shows "irss.latencies K s (turn_hooks pid t v) = [tx_time v - rx_time v]"
    and "between_turns K ip port (irss.watch K s (turn_hooks pid t v))"
    and "PROCESSING_DELAY \<le> unat (tx_time v - rx_time v)"
proof -
  obtain data flags err tag where t: "t = (Received data flags, err)" "crypto_datagram tag = Some data"
    using assms(3,4) by (cases t; cases "fst t") (auto simp: forwards_def from_crypto_def)
  let ?buf = "fill_buffer buf data"
  have obs: "sk_probe v (sk_addr v + SK_NUM_OFFSET) = Inr port" "msg (enter_args v) = at_hdr f"
      "msg (send_args v) = at_out_hdr f" "holds_segments (rx_mem v) (recv_segments f ?buf flags)"
      "holds_segments (tx_mem v) (send_segments f ip ?buf (min (length buf) (length data)))"
      "ret (exit_args v) = of_nat (min (length buf) (length data))"
      "unat (rx_time v) + PROCESSING_DELAY \<le> unat (tx_time v)"
    using assms(2) by (simp_all add: turn_observed_def t(1) Let_def)
  note reads = sim_calls_read [OF assms(5) t(2) assms(6,7)]
  have rx: "read_payload_key (rx_mem v) (at_hdr f) = Some tag" by (rule reads(1) [OF obs(4)])
  have tx: "read_payload_key (tx_mem v) (at_out_hdr f) = Some tag"
      "read_tx_dest (tx_mem v) (at_out_hdr f) = Some (from_le_bytes ip)"
    using reads(2) [OF obs(5)] by simp_all
  have "length data = 64" using t(2) by (auto simp: crypto_datagram_eq)
  then have long: "\<not> ret (exit_args v) <s of_nat KEY_SIZE"
    using obs(6) assms(6) by (simp add: KEY_SIZE_def)
  let ?s = "s\<lparr>TIMESTAMP_MAP := [(tag, rx_time v)]\<rparr>"
  have later: "rx_time v \<le> tx_time v" using obs(7) by (simp add: word_le_nat_alt)
  have hooks: "turn_hooks pid t v =
      [Neutral (SysEnter pid (Some (enter_args v))), Neutral (UdpRecvmsg pid (Some (sk_addr v)) (sk_probe v)),
       First (pid, Some (exit_args v), rx_mem v) (rx_time v), Second (Some (send_args v), tx_mem v) (tx_time v)]"
    using assms(3) by (simp add: turn_hooks_def)
  have exited: "irss_exit K (s\<lparr>RECV_MSG_PTR := [(pid, msg (enter_args v))]\<rparr>)
      (pid, Some (exit_args v), rx_mem v) (rx_time v) = ?s"
    using exit_between [OF assms(1), of pid "msg (enter_args v)" "exit_args v" "rx_mem v" "rx_time v"] long rx obs(2)
    by simp
  have tag: "irss_send_tag ?s (Some (send_args v), tx_mem v) = Some tag"
    using tx obs(3) assms(1) by (simp add: irss_send_tag.simps between_turns_def raw_dest_def)
  have frame: "s\<lparr>TIMESTAMP_MAP := []\<rparr> = s" "irss_inv K s" using assms(1) by (simp_all add: between_turns_def)
  have "irss.contribution ?s (Second (Some (send_args v), tx_mem v) (tx_time v)) = [tx_time v - rx_time v]"
    using tag later by (simp add: saturating_sub_def)
  then show "irss.latencies K s (turn_hooks pid t v) = [tx_time v - rx_time v]"
    using exited by (simp add: hooks enter_between [OF assms(1)] obs(1))
  have watched: "irss.watch K s (turn_hooks pid t v) = irss_send K ?s (Some (send_args v), tx_mem v) (tx_time v)"
    using exited by (simp add: hooks enter_between [OF assms(1)] obs(1))
  have sent: "irss_send K ?s (Some (send_args v), tx_mem v) (tx_time v)
      = accumulate_latency K (tx_time v - rx_time v) s"
    using tag later frame(1) by (simp add: irss_send_eq saturating_sub_def)
  have "irss_inv K (irss.watch K s (turn_hooks pid t v))" using frame(2) by (rule irss.inv_watch)
  then show "between_turns K ip port (irss.watch K s (turn_hooks pid t v))"
    unfolding watched sent using assms(1)
    by (simp add: between_turns_def accumulate_latency_def Let_def listen_port_def raw_dest_def)
  show "PROCESSING_DELAY \<le> unat (tx_time v - rx_time v)"
    using obs(7) later by (simp add: unat_sub word_le_nat_alt)
qed

lemma irss_latencies_append:
  "irss.latencies K s (es @ es') = irss.latencies K s es @ irss.latencies K (irss.watch K s es) es'"
  by (induction es arbitrary: s) simp_all

lemma length_turn_buffer: "length (snd (irss_turn f ip buf t)) = length buf"
  by (cases "(f, ip, buf, t)" rule: irss_turn.cases) (simp_all add: fill_buffer_def Let_def)

lemma run_measured:
  assumes "frame_ok f" and "length ip = 4" and "length buf = 512" and "between_turns K ip port s"
    and "run_observed f ip port buf ts vs" and "list_all from_crypto ts"
  shows "irss.latencies K s (run_hooks pid ts vs) = forwarding_times ts vs
       \<and> (\<forall>l\<in>set (forwarding_times ts vs). PROCESSING_DELAY \<le> unat l)"
  using assms
proof (induction f ip port buf ts vs arbitrary: s rule: run_observed.induct)
  case (1 f ip port buf t ts v vs)
  let ?s = "irss.watch K s (turn_hooks pid t v)"
  have obs: "turn_observed f ip port buf t v" and crypto: "from_crypto t" using "1.prems" by simp_all
  have step: "irss.latencies K s (turn_hooks pid t v) = (if forwards t then [tx_time v - rx_time v] else [])
      \<and> between_turns K ip port ?s \<and> (forwards t \<longrightarrow> PROCESSING_DELAY \<le> unat (tx_time v - rx_time v))"
    using turn_silent [OF "1.prems"(4) obs] turn_forwarded [OF "1.prems"(4) obs _ crypto "1.prems"(1,3,2)]
      "1.prems"(4) by (cases "forwards t") simp_all
  have "length (snd (irss_turn f ip buf t)) = 512" using "1.prems"(3) by (simp add: length_turn_buffer)
  then show ?case
    using "1.IH" [of ?s] "1.prems" step
    by (auto simp: run_hooks_def forwarding_times_def irss_latencies_append)
qed (auto simp: run_hooks_def forwarding_times_def)


text \<open>The command line takes what is printed, and only four octets as an address.\<close>

lemma parse_args_given:
  assumes "port \<noteq> 0"
  shows "parse_args [prog, show_ipv4 [a, b, c, d], to_string port] = Inr ([a, b, c, d], port)"
proof -
  have "unat port \<le> 2 ^ 16 - 1" using unsigned_less [of port, where 'a = nat] by simp
  then have "parse_u16 (to_string port) = Some port" by (simp add: parse_u16_def to_string_def)
  then show ?thesis using assms by (simp add: parse_args_def arg_at_def parse_ipv4_show)
qed

lemma parse_args_default: "parse_args [prog] = Inr (RAW_DEST, LISTEN_PORT)"
  by (simp add: parse_args_def arg_at_def)

lemma parse_args_address:
  assumes "parse_args argv = Inr (ip, port)"
  shows "length ip = 4"
  using assms
  by (auto simp: parse_args_def RAW_DEST_def parse_ipv4_def Let_def split: sum.splits option.splits if_splits)

lemma sum_list_lower: "\<forall>x\<in>set xs. (n :: nat) \<le> x \<Longrightarrow> n * length xs \<le> sum_list xs"
  by (induction xs) auto

text \<open>
  C13. An agent configured with the simulator's destination and port measures what the simulator
  does: over any run of its forwarding loop, with receive timeouts, failed receives and failed
  sends anywhere, the latencies the eBPF program matches are exactly the times between receiving
  and forwarding each datagram, the next tick exports their average in whole microseconds, and
  that is at least the simulated processing time of 12 ms when anything was forwarded.
\<close>

theorem irss_sim_exports:
  assumes "parse_args argv = Inr (irss_raw_dest p, irss_listen_port p)"
    and "irss_load aya p = ((Inr (), q), cs)" and "irss_last_sum p = 0" and "irss_last_count p = 0"
    and "irss_set_metrics_registry prom q = (Inr (), q1)"
    and "hash_documented K" and "frame_ok f"
    and "run_observed f (irss_raw_dest p) (irss_listen_port p) (replicate 512 0) turns vs"
    and "list_all from_crypto turns"
    and "s = irss_written cs irss_maps_init" and "s1 = irss.watch K s (run_hooks pid turns vs)"
    and "L = forwarding_times turns vs" and "sum_list (map unat L) < 2 ^ 64"
    and "\<And>c. aya c = None"
    and "lookup ''LATENCY_SUM'' = map_get (LATENCY_SUM s1)"
    and "lookup ''LATENCY_COUNT'' = map_get (LATENCY_COUNT s1)"
  shows "irss.latencies K s (run_hooks pid turns vs) = L
       \<and> (\<exists>q2 avg. irss_display_metrics aya lookup q1 = (Inr (), q2)
            \<and> irss_metrics q2 = Some (round_f64 (of_nat avg))
            \<and> (if L = [] then avg = 0 else avg = sum_list (map unat L) div length L div 1000 \<and> 12000 \<le> avg))"
proof -
  have q: "q = p\<lparr>irss_ebpf := True\<rparr>"
    using assms(2) by (auto simp: irss_load_def split: prod.splits option.splits)
  obtain g where q1: "q1 = q\<lparr>irss_metrics := Some g\<rparr>"
    using assms(5) by (auto simp: irss_set_metrics_registry_def split: sum.splits)
  have inv: "irss_inv K s"
    using assms(6) by (simp add: assms(10) irss_inv_def irss_written_frame irss_maps_init_def)
  have tot: "irss_total s = 0" "irss_samples s = 0"
    by (simp_all add: assms(10) irss_total_def irss_samples_def irss_written_frame irss_maps_init_def)
  have "between_turns K (irss_raw_dest p) (irss_listen_port p) s"
    using inv irss_written_load [OF assms(2)]
    by (simp add: between_turns_def assms(10) listen_port_def raw_dest_def irss_written_frame)
      (simp add: irss_maps_init_def)
  from run_measured [OF assms(7) parse_args_address [OF assms(1)] _ this assms(8,9), of pid]
  have L: "irss.latencies K s (run_hooks pid turns vs) = L" and low: "\<forall>l\<in>set L. 12000000 \<le> unat l"
    by (simp_all add: assms(12) PROCESSING_DELAY_def)
  have all: "12000000 * length L \<le> sum_list (map unat L)" using sum_list_lower [of "map unat L" 12000000] low by simp
  let ?avg = "sum_list (map unat L) div length L div 1000"
  have avg: "12000 \<le> ?avg" if "L \<noteq> []"
  proof -
    have "12000000 * length L div length L \<le> sum_list (map unat L) div length L" using all by (rule div_le_mono)
    then have "12000000 div 1000 \<le> ?avg" using that by (intro div_le_mono) simp
    then show ?thesis by simp
  qed
  obtain r q2 where d: "irss_display_metrics aya lookup q1 = (r, q2)" by force
  have "r = Inr () \<and> irss_metrics q2 = Some (if L = [] then 0 else round_f64 (of_nat ?avg))"
    using irss_tick_reports [OF inv assms(11) L [symmetric], of q1 aya lookup r q2] d tot assms(3,4,13-16) all
    by (simp add: q1 q)
  then show ?thesis using L d avg
    by (cases "L = []") (auto simp: round_f64_def intro!: exI [of _ ?avg] exI [of _ "0 :: nat"])
qed


text \<open>A run of two turns, a timeout and a forwarded datagram, with the default settings.\<close>

definition demo_frame :: stack_frame where
  "demo_frame = \<lparr>at_hdr = 0x1000, at_iov = 0x2000, at_out_hdr = 0x3000, at_out_iov = 0x4000, at_buf = 0x5000,
     at_raw_dest = 0x6000, pad_byte = 0\<rparr>"

definition demo_data :: "u8 list" where
  "demo_data = to_be_bytes 4 (0xdeadbeef :: u32) @ replicate 60 0"

definition demo_turns :: "(recvmsg_result \<times> string option) list" where
  "demo_turns = [(WouldBlock, None), (Received demo_data 0, Some ''Network is unreachable'')]"

definition demo_sight :: "i64 \<Rightarrow> turn_sight" where
  "demo_sight n =
     (let call = \<lparr>enter_common = [], enter_syscall_nr = 0, enter_pad = 0, fd = 3, msg = 0x1000\<rparr>;
          buf = fill_buffer (replicate 512 0) demo_data
      in \<lparr>enter_args = call, sk_addr = 0x9000, sk_probe = (\<lambda>_. Inr 5020),
          exit_args = \<lparr>exit_common = [], exit_syscall_nr = 0, exit_pad = 0, ret = n\<rparr>,
          rx_mem = mem_of (recv_segments demo_frame buf 0), rx_time = 1000,
          send_args = call\<lparr>msg := 0x3000\<rparr>,
          tx_mem = mem_of (send_segments demo_frame RAW_DEST buf 64), tx_time = 12501000\<rparr>)"

lemma length_fill_buffer [simp]: "length (fill_buffer buf data) = length buf"
  by (simp add: fill_buffer_def)

lemma demo_segments:
  assumes "length buf = 512"
  shows "holds_segments (mem_of (recv_segments demo_frame buf 0)) (recv_segments demo_frame buf 0)"
    and "holds_segments (mem_of (send_segments demo_frame ip buf n)) (send_segments demo_frame ip buf n)"
  using assms
  by (simp_all add: holds_segments_def recv_segments_def send_segments_def demo_frame_def del: mem_of.simps)

lemma demo_observed:
  "run_observed demo_frame RAW_DEST 5020 (replicate 512 0) demo_turns [demo_sight (- 11), demo_sight 64]"
proof -
  have "length demo_data = 64" and "at_hdr demo_frame = 0x1000" and "at_out_hdr demo_frame = 0x3000"
    by (simp_all add: demo_frame_def demo_data_def)
  then show ?thesis
    by (simp add: demo_turns_def turn_observed_def demo_sight_def Let_def demo_segments PROCESSING_DELAY_def
        word_sless_alt)
qed

theorem irss_sim_exports_witness:
  "\<exists>q q1 q2 cs lookup. irss_load (\<lambda>_. None) irss_new = ((Inr (), q), cs)
     \<and> irss_set_metrics_registry (\<lambda>_. None) q = (Inr (), q1)
     \<and> irss_display_metrics (\<lambda>_. None) lookup q1 = (Inr (), q2) \<and> irss_metrics q2 = Some (round_f64 12500)"
proof -
  obtain q cs where l: "irss_load (\<lambda>_. None) irss_new = ((Inr (), q), cs)"
    using run_steps_ok [of "\<lambda>_. None" "irss_config_steps irss_new @ irss_attach_steps"]
    by (auto simp: irss_load_def)
  obtain q1 where g: "irss_set_metrics_registry (\<lambda>_. None) q = (Inr (), q1)"
    by (simp add: irss_set_metrics_registry_def irss_metrics_new_def)
  let ?vs = "[demo_sight (- 11), demo_sight 64]"
  let ?s1 = "irss.watch ref_kernel (irss_written cs irss_maps_init) (run_hooks 7 demo_turns ?vs)"
  let ?lookup = "\<lambda>m. map_get (if m = ''LATENCY_SUM'' then LATENCY_SUM ?s1 else LATENCY_COUNT ?s1)"
  have L: "forwarding_times demo_turns ?vs = [12500000]"
    by (simp add: forwarding_times_def demo_turns_def forwards_def demo_sight_def Let_def)
  have "crypto_datagram 0xdeadbeef = Some demo_data" by (simp add: crypto_datagram_eq demo_data_def)
  then have crypto: "list_all from_crypto demo_turns" by (auto simp: demo_turns_def from_crypto_def)
  have new: "irss_raw_dest irss_new = RAW_DEST" "irss_listen_port irss_new = 5020"
    by (simp_all add: irss_new_def LISTEN_PORT_def)
  have "\<exists>q2 avg. irss_display_metrics (\<lambda>_. None) ?lookup q1 = (Inr (), q2)
      \<and> irss_metrics q2 = Some (round_f64 (of_nat avg))
      \<and> (if [12500000 :: u64] = [] then avg = 0
         else avg = sum_list (map unat [12500000 :: u64]) div length [12500000 :: u64] div 1000 \<and> 12000 \<le> avg)"
    by (rule conjunct2 [OF irss_sim_exports [where argv = "[''irss_sim'']" and K = ref_kernel and f = demo_frame
          and turns = demo_turns and vs = ?vs and pid = 7, OF _ l _ _ g _ _ _ crypto refl refl L [symmetric]]])
      (simp_all add: new parse_args_default LISTEN_PORT_def demo_observed,
       simp_all add: irss_new_def frame_ok_def demo_frame_def)
  then show ?thesis using l g by auto
qed

end
