(* ===== verification/Uprobe_Sim.thy ===== *)
theory Uprobe_Sim
  imports User_Mem Uprobe_User
begin

text \<open>
  The target program of \<open>uprobe\<close> (\<open>src/bpfagent/examples/uprobe_sim.rs\<close>): a function that reads its
  string argument, called in an endless loop. The loop over the string is a partial function, which
  is \<open>None\<close> when it leaves readable memory or does not end; \<open>calls_of\<close> are the arguments of the first
  calls of the endless loop. \<open>mem\<close> is the memory of the process.

  Shown: every call returns, and an agent set up with the printed settings counts each of them and
  reads the message.
\<close>

unbundle bit_operations_syntax

partial_function (option) str_len :: "user_mem \<Rightarrow> u64 \<Rightarrow> u64 \<Rightarrow> u64 option" where
  "str_len mem s len =
     do {
       b \<leftarrow> mem (s + len);
       if b \<noteq> 0 then str_len mem s (len + 1) else Some len
     }"

definition uprobe_sim_target :: "user_mem \<Rightarrow> u64 \<Rightarrow> u64 \<Rightarrow> u64 \<Rightarrow> u64 option" where
  "uprobe_sim_target mem a b s =
     do {
       len \<leftarrow> (if s \<noteq> 0 then str_len mem s 0 else Some 0);
       Some (a XOR b XOR len)
     }"

definition message :: string where
  "message = ''hello from uprobe_sim''"

text \<open>\<open>CString::new(..)\<close> in memory.\<close>

definition c_string :: "string \<Rightarrow> u8 list" where
  "c_string s = map (of_nat \<circ> of_char) s @ [0]"

definition settings_line :: "string option \<Rightarrow> string" where
  "settings_line exe =
     ''uprobe_sim: attach with target = '' @ [CHR 0x22]
     @ (case exe of Some pth \<Rightarrow> pth | None \<Rightarrow> ''<this binary>'')
     @ [CHR 0x22] @ '', symbol = '' @ [CHR 0x22] @ ''uprobe_sim_target'' @ [CHR 0x22] @ '', string_arg = 3''"

definition next_counter :: "u64 \<Rightarrow> u64 \<Rightarrow> u64" where
  "next_counter counter result = counter + (result AND 0xFF) + 1"

fun calls_of :: "user_mem \<Rightarrow> u64 \<Rightarrow> u64 \<Rightarrow> nat \<Rightarrow> (u64 \<times> u64 \<times> u64) list option" where
  "calls_of mem ptr counter 0 = Some []"
| "calls_of mem ptr counter (Suc n) =
     do {
       result \<leftarrow> uprobe_sim_target mem counter 0xDEADBEEF ptr;
       rest \<leftarrow> calls_of mem ptr (next_counter counter result) n;
       Some ((counter, 0xDEADBEEF, ptr) # rest)
     }"

definition main :: "user_mem \<Rightarrow> u64 \<Rightarrow> u32 \<Rightarrow> string option \<Rightarrow> nat \<Rightarrow> string list \<times> (u64 \<times> u64 \<times> u64) list option" where
  "main mem ptr pid exe n =
     ([''uprobe_sim: PID '' @ to_string pid, settings_line exe], calls_of mem ptr 0 n)"


section \<open>The loop over the string\<close>

lemma str_len_from:
  assumes "read_bytes mem (s + len) (length bs + 1) = Some (bs @ [0])" and "0 \<notin> set bs"
  shows "str_len mem s len = Some (len + of_nat (length bs))"
  using assms
proof (induction bs arbitrary: len)
  case Nil
  then show ?case by (subst str_len.simps) (auto split: Option.bind_splits)
next
  case (Cons b bs)
  have "mem (s + len) = Some b" and "read_bytes mem (s + (len + 1)) (length bs + 1) = Some (bs @ [0])"
    using Cons.prems(1) by (auto simp: add.assoc split: Option.bind_splits)
  then show ?case
    using Cons by (subst str_len.simps) (simp add: algebra_simps)
qed

lemma target_returns:
  assumes "read_bytes mem s (length bs + 1) = Some (bs @ [0])" and "0 \<notin> set bs" and "s \<noteq> 0"
  shows "uprobe_sim_target mem a b s = Some (a XOR b XOR of_nat (length bs))"
  using str_len_from [of mem s 0 bs] assms by (simp add: uprobe_sim_target_def)

lemma calls_of_returns:
  assumes "read_bytes mem s (length bs + 1) = Some (bs @ [0])" and "0 \<notin> set bs" and "s \<noteq> 0"
  shows "\<exists>cs. calls_of mem s counter n = Some cs \<and> length cs = n
           \<and> (\<forall>c\<in>set cs. snd c = (0xDEADBEEF, s)) \<and> (0 < n \<longrightarrow> fst (hd cs) = counter)"
proof (induction n arbitrary: counter)
  case (Suc n)
  obtain r where r: "uprobe_sim_target mem counter 0xDEADBEEF s = Some r"
    using target_returns [OF assms] by blast
  from Suc [of "next_counter counter r"] r show ?case by auto
qed simp

lemma message_bytes:
  "c_string message = map (of_nat \<circ> of_char) message @ [0]" "length (map (of_nat \<circ> of_char) message :: u8 list) = 21"
  "0 \<notin> set (map (of_nat \<circ> of_char) message :: u8 list)"
  by (simp_all add: c_string_def message_def)

text \<open>Each call has a first argument between 1 and 256 above the one before.\<close>

lemma counter_advances:
  "1 \<le> unat (next_counter counter r - counter) \<and> unat (next_counter counter r - counter) \<le> 256"
proof -
  have "unat (r AND 0xFF) \<le> 0xFF" using word_and_le1 [of r "0xFF"] by (simp add: word_le_nat_alt)
  then have "unat ((r AND 0xFF) + 1) = unat (r AND 0xFF) + 1" by (subst unat_plus_no_overflow) simp_all
  moreover have "next_counter counter r - counter = (r AND 0xFF) + 1" by (simp add: next_counter_def)
  ultimately show ?thesis using \<open>unat (r AND 0xFF) \<le> 0xFF\<close> by simp
qed


section \<open>What the agent sees\<close>

text \<open>
  An event of the uprobe for one call: the first three argument registers hold the arguments, and
  \<open>bpf_probe_read_user_str_bytes\<close> copies a string that fits into the buffer together with its NUL.
\<close>

definition call_observed :: "user_mem \<Rightarrow> u32 \<Rightarrow> u64 \<times> u64 \<times> u64 \<Rightarrow> call_event \<Rightarrow> bool" where
  "call_observed mem pid c e \<longleftrightarrow>
     call_pid e = pid \<and> call_arg e 0 = Some (fst c) \<and> call_arg e 1 = Some (fst (snd c))
     \<and> call_arg e 2 = Some (snd (snd c))
     \<and> (\<forall>bs buf. read_bytes mem (snd (snd c)) (length bs + 1) = Some (bs @ [0]) \<and> 0 \<notin> set bs \<and> length bs < length buf
          \<longrightarrow> take (length bs + 1) (call_str e (snd (snd c)) buf) = bs @ [0])"

definition sim_slot :: "kernel \<Rightarrow> u32 \<Rightarrow> uprobe_maps \<Rightarrow> bool" where
  "sim_slot K pid s \<longleftrightarrow> uprobe_inv K s \<and> string_arg_of s = 3
     \<and> (pid \<in> map_slots (CALLS s) \<or> card (map_slots (CALLS s)) < 1024)"

lemma sim_slot_step:
  assumes "sim_slot K pid s" and "call_pid e = pid"
  shows "sim_slot K pid (snd (trace_call_handler K e s))"
    and "call_count (snd (trace_call_handler K e s)) pid = call_count s pid + 1"
proof -
  let ?s = "snd (trace_call_handler K e s)"
  have "uprobe_inv K ?s \<and> STRING_ARG_MAP ?s = STRING_ARG_MAP s"
    using trace_call_counted [of K s e ?s] assms by (auto simp: sim_slot_def)
  moreover have "call_count ?s = (call_count s)(pid := call_count s pid + 1)
      \<and> map_slots (CALLS ?s) = insert pid (map_slots (CALLS s))"
    using calls.counted [of K s e pid] assms by (auto simp: sim_slot_def)
  ultimately show "sim_slot K pid ?s" and "call_count ?s pid = call_count s pid + 1"
    using assms by (simp_all add: sim_slot_def string_arg_of_def)
qed

lemma sim_slot_run:
  assumes "sim_slot K pid s" and "\<forall>e\<in>set es. call_pid e = pid"
  shows "sim_slot K pid (calls.run K s es) \<and> call_count (calls.run K s es) pid = call_count s pid + of_nat (length es)"
  using assms
proof (induction es arbitrary: s)
  case (Cons e es)
  then show ?case
    using sim_slot_step [of K pid s e] Cons.IH [of "snd (trace_call_handler K e s)"] by simp
qed simp

lemma take_Suc_takeWhile:
  assumes "take (length bs + 1) xs = bs @ [d]" and "d \<notin> set bs"
  shows "takeWhile (\<lambda>b. b \<noteq> d) xs = bs"
proof -
  have "xs = bs @ d # drop (length bs + 1) xs"
    using append_take_drop_id [of "length bs + 1" xs] unfolding assms(1) by simp
  moreover have "takeWhile (\<lambda>b. b \<noteq> d) (bs @ d # ys) = bs" for ys
    using assms(2) by (subst takeWhile_append2) auto
  ultimately show ?thesis by metis
qed

lemma chars_of_bytes: "map (\<lambda>b. char_of (unat b)) (map (of_nat \<circ> of_char) s :: u8 list) = s"
  by (induction s) (simp_all add: unat_of_nat)

lemma snapshot_of_call:
  assumes "call_observed mem pid c e" and "read_bytes mem (snd (snd c)) 22 = Some (c_string message)"
    and "snd (snd c) \<noteq> 0"
  shows "take 3 (args (snapshot 3 e r)) = [fst c, fst (snd c), snd (snd c)]
       \<and> cstr_string (arg_str (snapshot 3 e r)) = message"
proof -
  let ?bs = "map (of_nat \<circ> of_char) message :: u8 list"
  have args: "args (snapshot 3 e r) = map (\<lambda>i. unwrap_or (call_arg e i) 0) [0..<6]"
    by (simp add: snapshot_def Let_def MAX_ARGS_def)
  have c: "call_arg e 0 = Some (fst c)" "call_arg e 1 = Some (fst (snd c))" "call_arg e 2 = Some (snd (snd c))"
    and str: "\<And>bs buf. read_bytes mem (snd (snd c)) (length bs + 1) = Some (bs @ [0]) \<Longrightarrow> 0 \<notin> set bs \<Longrightarrow>
      length bs < length buf \<Longrightarrow> take (length bs + 1) (call_str e (snd (snd c)) buf) = bs @ [0]"
    using assms(1) unfolding call_observed_def by blast+
  have idx: "take 3 [0..<6] = [0, 1, 2 :: nat]" "[0..<6] ! 2 = (2 :: nat)" by (simp_all add: upt_rec)
  have "arg_str (snapshot 3 e r) = call_str e (snd (snd c)) (replicate 64 0)"
    using assms(3) c(3) [unfolded numeral_2_eq_2]
    by (simp add: snapshot_def Let_def MAX_ARGS_def ARG_STR_SIZE_def)
  moreover have "take (length ?bs + 1) (call_str e (snd (snd c)) (replicate 64 0)) = ?bs @ [0]"
    by (rule str) (use assms(2) message_bytes in simp_all)
  ultimately have "takeWhile (\<lambda>b. b \<noteq> 0) (arg_str (snapshot 3 e r)) = ?bs"
    using take_Suc_takeWhile message_bytes(3) by metis
  moreover have "from_utf8_lossy (map (\<lambda>b. char_of (unat b)) ?bs) = message"
    unfolding chars_of_bytes by (rule from_utf8_lossy_ascii) (simp add: message_def)
  ultimately show ?thesis using c args idx by (simp add: take_map cstr_string_def)
qed


text \<open>
  C39. The target of the uprobe runs for ever and is seen: with its message in memory every call of
  \<open>uprobe_sim_target\<close> returns, so the loop makes any number of calls; and an agent set up with the
  printed string argument has counted each of them for the process, holds the arguments of the
  last one, and shows the message as its string.
\<close>

theorem uprobe_sim_observed:
  assumes "read_bytes mem ptr 22 = Some (c_string message)" and "ptr \<noteq> 0"
    and "sim_slot K pid s" and "0 < n"
  shows "\<exists>cs. snd (main mem ptr pid exe n) = Some cs \<and> length cs = n
     \<and> (\<forall>es. list_all2 (call_observed mem pid) cs es \<longrightarrow>
          call_count (calls.run K s es) pid = call_count s pid + of_nat n
          \<and> (\<exists>r. map_get (CALLS (calls.run K s es)) pid = Some r
               \<and> take 3 (args r) = [fst (last cs), 0xDEADBEEF, ptr] \<and> cstr_string (arg_str r) = message))"
proof -
  have "read_bytes mem ptr (length (map (of_nat \<circ> of_char) message :: u8 list) + 1)
      = Some (map (of_nat \<circ> of_char) message @ [0])"
    using assms(1) message_bytes(1,2) by simp
  from calls_of_returns [OF this message_bytes(3) assms(2), of 0 n]
  obtain cs where cs: "calls_of mem ptr 0 n = Some cs" "length cs = n" "\<forall>c\<in>set cs. snd c = (0xDEADBEEF, ptr)"
    by blast
  { fix es assume obs: "list_all2 (call_observed mem pid) cs es"
    have "es \<noteq> []" "cs \<noteq> []" using list_all2_lengthD [OF obs] cs(2) assms(4) by auto
    then obtain es' e cs' c where e: "es = es' @ [e]" and c: "cs = cs' @ [c]" by (metis rev_exhaust)
    have len: "length es' = length cs'" using list_all2_lengthD [OF obs] e c by simp
    have pids: "\<forall>x\<in>set es. call_pid x = pid"
      using obs by (auto simp: list_all2_conv_all_nth in_set_conv_nth call_observed_def)
    have last: "call_observed mem pid c e" using obs len by (simp add: e c list_all2_append)
    have c2: "snd c = (0xDEADBEEF, ptr)" using cs(3) c by simp
    let ?s = "calls.run K s es'"
    have slot: "sim_slot K pid ?s" using sim_slot_run [OF assms(3), of es'] pids e by simp
    have run: "calls.run K s es = snd (trace_call_handler K e ?s)" by (simp add: e calls.run_def)
    have "map_get (CALLS (calls.run K s es)) pid
        = Some (snapshot 3 e (unwrap_or (map_get (CALLS ?s) pid) zeroed))"
      using trace_call_counted [OF _ _ run] slot pids e by (simp add: sim_slot_def)
    moreover have "call_count (calls.run K s es) pid = call_count s pid + of_nat n"
      using sim_slot_run [OF assms(3) pids] list_all2_lengthD [OF obs] cs(2) by simp
    ultimately have "call_count (calls.run K s es) pid = call_count s pid + of_nat n
        \<and> (\<exists>r. map_get (CALLS (calls.run K s es)) pid = Some r
             \<and> take 3 (args r) = [fst (last cs), 0xDEADBEEF, ptr] \<and> cstr_string (arg_str r) = message)"
      using snapshot_of_call [OF last] assms(1,2) c2 c by simp }
  then show ?thesis using cs by (auto simp: main_def)
qed


text \<open>A concrete process with its message at \<open>0x7000\<close>, two calls of it, and a kernel that copies strings.\<close>

definition copy_str :: "user_mem \<Rightarrow> u64 \<Rightarrow> u8 list \<Rightarrow> u8 list" where
  "copy_str mem src buf =
     (case read_bytes mem src 22 of
        Some bs \<Rightarrow> bs @ drop 22 buf | None \<Rightarrow> buf)"

definition sim_mem :: user_mem where
  "sim_mem = mem_of [(0x7000, c_string message)]"

definition sim_call :: "u64 \<Rightarrow> call_event" where
  "sim_call a = \<lparr>call_pid_tgid = 0x700000001, call_now = 5, call_comm = None,
     call_arg = (\<lambda>i. if i = 0 then Some a else if i = 1 then Some 0xDEADBEEF else if i = 2 then Some 0x7000 else None),
     call_str = copy_str sim_mem\<rparr>"

lemma sim_mem_message: "read_bytes sim_mem 0x7000 22 = Some (c_string message)"
  unfolding sim_mem_def by (rule read_bytes_mem_of_hit) (simp_all add: c_string_def message_def)

lemma sim_mem_bytes:
  "read_bytes sim_mem 0x7000 (length (map (of_nat \<circ> of_char) message :: u8 list) + 1)
     = Some (map (of_nat \<circ> of_char) message @ [0])"
  using sim_mem_message message_bytes(1,2) by (simp del: read_bytes.simps length_map)

lemma cstr_unique:
  assumes "read_bytes mem a (length bs + 1) = Some (bs @ [d])" and "d \<notin> set bs"
    and "read_bytes mem a (length cs + 1) = Some (cs @ [d])" and "d \<notin> set cs"
  shows "bs = cs"
  using assms
proof (induction bs arbitrary: a cs)
  case Nil
  then show ?case by (cases cs) (auto split: Option.bind_splits)
next
  case (Cons b bs)
  show ?case
  proof (cases cs)
    case Nil
    then show ?thesis using Cons.prems by (auto split: Option.bind_splits)
  next
    case (Cons c cs')
    then show ?thesis using Cons.IH [of "a + 1" cs'] Cons.prems by (auto split: Option.bind_splits)
  qed
qed

lemma sim_call_observed: "call_observed sim_mem 7 (a, 0xDEADBEEF, 0x7000) (sim_call a)"
proof -
  have "take (length bs + 1) (copy_str sim_mem 0x7000 buf) = bs @ [0]"
    if "read_bytes sim_mem 0x7000 (length bs + 1) = Some (bs @ [0])" "0 \<notin> set bs" for bs buf
  proof -
    have "bs = map (of_nat \<circ> of_char) message"
      by (rule cstr_unique [OF that sim_mem_bytes message_bytes(3)])
    then show ?thesis using sim_mem_message message_bytes by (simp add: copy_str_def)
  qed
  then show ?thesis by (simp add: call_observed_def sim_call_def call_pid_def pid_of_def)
qed

theorem uprobe_sim_observed_witness:
  "let s = calls.run ref_kernel \<lparr>CALLS = [], STRING_ARG_MAP = [(STRING_ARG_KEY, 3)]\<rparr> [sim_call 0, sim_call 0xFB]
   in call_count s 7 = 2 \<and> map_option (cstr_string \<circ> arg_str) (map_get (CALLS s) 7) = Some ''hello from uprobe_sim''"
proof -
  let ?s = "\<lparr>CALLS = [], STRING_ARG_MAP = [(STRING_ARG_KEY, 3)]\<rparr>"
  have "sim_slot ref_kernel 7 ?s"
    by (simp add: sim_slot_def uprobe_inv_def string_arg_of_def map_slots_keys keys_def)
  moreover have "(0x7000 :: u64) \<noteq> 0" and "0 < (2 :: nat)" by simp_all
  ultimately have "\<exists>cs. snd (main sim_mem 0x7000 7 None 2) = Some cs
     \<and> (\<forall>es. list_all2 (call_observed sim_mem 7) cs es \<longrightarrow>
          call_count (calls.run ref_kernel ?s es) 7 = call_count ?s 7 + of_nat 2
          \<and> (\<exists>r. map_get (CALLS (calls.run ref_kernel ?s es)) 7 = Some r \<and> cstr_string (arg_str r) = message))"
    using uprobe_sim_observed [OF sim_mem_message, of ref_kernel 7 ?s 2 None] by blast
  then
  obtain cs where "snd (main sim_mem 0x7000 7 None 2) = Some cs"
    and run: "\<And>es. list_all2 (call_observed sim_mem 7) cs es \<Longrightarrow>
          call_count (calls.run ref_kernel ?s es) 7 = call_count ?s 7 + of_nat 2
          \<and> (\<exists>r. map_get (CALLS (calls.run ref_kernel ?s es)) 7 = Some r \<and> cstr_string (arg_str r) = message)"
    by blast
  then have cs: "calls_of sim_mem 0x7000 0 2 = Some cs" by (simp add: main_def)
  have "uprobe_sim_target sim_mem 0 0xDEADBEEF 0x7000 = Some (0xDEADBEEF XOR 21)"
    using target_returns [OF sim_mem_bytes message_bytes(3)] message_bytes(2) by simp
  then have "cs = [(0, 0xDEADBEEF, 0x7000), (0xFB, 0xDEADBEEF, 0x7000)]"
    using cs by (auto simp: numeral_2_eq_2 next_counter_def split: Option.bind_splits)
  then show ?thesis
    using run [of "[sim_call 0, sim_call 0xFB]"] sim_call_observed
    by (auto simp: Let_def call_count_def message_def)
qed

end
