(* ===== verification/Spec2Isabelle.thy ===== *)
theory Spec2Isabelle
  imports App_Host Build Iflat_Sim Iflat_Uprobe_Sim Sca_Pipeline Sca_Sim_Discovered Irss_Sim Uprobe_Sim
begin

text \<open>
  \<^bold>\<open>A verification development for \<open>bpfagent\<close>\<close>

  \<open>bpfagent\<close> is a Linux daemon that loads eBPF programs, reads the maps they fill and exports what
  it finds as Prometheus metrics. Every program has a kernel side (\<open>src/ebpf/<name>\<close>), constants and
  layouts both sides share (\<open>src/common/<name>\<close>) and a userspace side
  (\<open>src/bpfagent/src/programs/<name>\<close>); around them stand the registry, the configuration, the
  metrics server, daemonization and the event loop (\<open>src/bpfagent/src\<close>).

  \<^bold>\<open>Foundations.\<close>
  \<^item> \<open>Prelude\<close>: the integers \<open>u8\<close> to \<open>i64\<close> as words, the saturating, checked and converting operations
    of the Rust library, association lists as the contents of maps, byte order.
  \<^item> \<open>Bpf_Map\<close>: BPF hash and LRU maps. Which insert the kernel refuses and which entry it evicts are
    fields of the parameter \<open>kernel\<close>; \<open>hash_documented\<close> and \<open>lru_documented\<close> state what the BPF
    documentation promises, and \<open>ref_kernel\<close> is a kernel that keeps it, used by the witnesses.
  \<^item> \<open>Packet\<close>, \<open>User_Mem\<close>: packet bytes between \<open>data\<close> and \<open>data_end\<close> and reads of user memory. A read
    of a packet byte out of range has the value \<open>None\<close>, apart from the \<open>None\<close> the code returns.
  \<^item> \<open>Rust_Std\<close>: what the sources use of \<open>str\<close> and of formatting (splitting, trimming, parsing and
    printing numbers and IPv4 addresses, \<open>as f64\<close>).
  \<^item> \<open>Correlator\<close>: the locale \<open>tag_correlator\<close>, the contract of the four latency measurements (a first
    sighting of a tag records a time, a second consumes the record and adds one latency), with what
    follows for every interleaving of sightings.
  \<^item> \<open>Counter\<close>: the locale \<open>event_counter\<close>, the contract of the three counting programs.
  \<^item> \<open>Averaging\<close>: the locale \<open>interval_average\<close>, the contract between cumulative accumulators and the
    average of an interval.
  \<^item> \<open>Aya\<close>: the loader library as a parameter that answers each call, loading as a list of steps, and
    that nothing is attached before the configuration has been written.

  \<^bold>\<open>The eBPF programs.\<close>
  \<^item> \<open>Iflat_Ebpf\<close> (\<open>src/ebpf/iflat\<close>): packet parser, XDP ingress and TC egress handler. Memory safety
    for every packet, an exact characterisation of the tagged datagrams, independence of the tag
    from NAT, and exact accumulation. Interprets \<open>tag_correlator\<close> as \<open>iflat\<close>.
  \<^item> \<open>Irss_Ebpf\<close> (\<open>src/ebpf/irss\<close>): the three system call tracepoints and the kprobe. The port filter,
    exact measurement, what a full map does. Interprets \<open>tag_correlator\<close> as \<open>irss\<close>.
  \<^item> \<open>Iflat_Uprobe_Ebpf\<close> (\<open>src/ebpf/iflat_uprobe\<close>): two XDP hooks and a uprobe, two legs of a journey,
    two interpretations of \<open>tag_correlator\<close> on the same maps, \<open>leg1\<close> and \<open>leg2\<close>.
  \<^item> \<open>Sca_Ebpf\<close> (\<open>src/ebpf/sca\<close>): \<open>sendmsg\<close> on UNIX sockets, NNG headers, per-process latencies without
    the time spent downstream, moving window; the samples a chain of requests and replies leaves in the
    windows of its processes.
  \<^item> \<open>Counting_Ebpf\<close> (\<open>src/ebpf/kfree_skb\<close>, \<open>src/ebpf/uprobe\<close>, \<open>src/ebpf/my_program\<close>): three
    interpretations of \<open>event_counter\<close>, \<open>drops\<close>, \<open>calls\<close> and \<open>opens\<close>.
  \<^item> \<open>Kfree_Reason\<close> (\<open>src/common/kfree_skb\<close>): the drop reasons, their numbers and names.

  \<^bold>\<open>Userspace.\<close>
  \<^item> \<open>Config\<close> (\<open>config/loader.rs\<close>): defaults and the search path.
  \<^item> \<open>Irss_User\<close>, \<open>Iflat_User\<close>, \<open>Iflat_Uprobe_User\<close>, \<open>Uprobe_User\<close> (with \<open>my_program\<close>), \<open>Kfree_User\<close>,
    \<open>Sca_User\<close> (\<open>programs/*/mod.rs\<close>): for each program its state as a record, \<open>new\<close>, \<open>configure\<close>, \<open>load\<close>,
    \<open>set_metrics_registry\<close> and \<open>display_metrics\<close>, with the settings parsers. What a tick exports is
    related to what the hooks of the interval did, through the interpretations above.
  \<^item> \<open>Sca_Discovery\<close> (\<open>programs/sca/helpers.rs\<close> and the discovery in \<open>programs/sca/mod.rs\<close>): the parser
    for the output of \<open>ss\<close>, PID namespaces, roles of sockets. What \<open>ss\<close> prints is described by rows
    (\<open>ss_line\<close>, \<open>show_ss\<close>): established stream sockets with any queues and padding, and arbitrary other
    rows, which the parser is shown to skip.
  \<^item> \<open>Sca_System\<close>: the handler and the userspace program of \<open>sca\<close> changing the same maps in any order,
    as the step relation \<open>sca_run\<close>; what type the maps keep.
  \<^item> \<open>Programs\<close> (\<open>programs/traits.rs\<close>, \<open>programs/registry.rs\<close>): the trait as a sum of the programs with a
    dispatching function for each method, and the locale \<open>managed_program\<close>, the life cycle the agent
    relies on, interpreted on that dispatch as \<open>agent\<close>.
  \<^item> \<open>Server\<close> (\<open>metrics/server.rs\<close>): request, routing, the bytes of the answers, the accept loop, which a
    peer that stays silent stalls.
  \<^item> \<open>Daemon\<close> (\<open>daemon.rs\<close>, \<open>cli/args.rs\<close>): forking, session, standard streams, PID file, loggers.
  \<^item> \<open>App\<close> (\<open>app.rs\<close>, \<open>main.rs\<close>): which programs run, bringing them up, the event loop and the metrics
    server on one sequence of events, the exit.
    \<open>App_Host\<close>: the limit on locked memory and the tasks that drain the logs of the programs.
  \<^item> \<open>Build\<close> (\<open>src/bpfagent/build.rs\<close>): which packages and C sources are built, and that a successful
    build provides what the registered programs embed.

  \<^bold>\<open>Traffic simulators\<close> (\<open>src/bpfagent/examples\<close>). Each is modelled with the bytes it puts on the wire or
  in memory, so that what the agent measures of it can be stated against the models above.
  \<^item> \<open>Wire\<close>: integers as bytes, writes into buffers, C structures in memory, the Internet checksum.
  \<^item> \<open>Sim_Host\<close>: running commands, the tun device, spawning the sender; the locale
    \<open>simulator_topology\<close>, that a run without a fatal error removes stale objects first and what it
    created last, interpreted as \<open>iflat_topology\<close> and \<open>ifu_topology\<close>.
  \<^item> \<open>Iflat_Sim\<close> (\<open>iflat_sim.rs\<close>), \<open>Iflat_Uprobe_Sim\<close> (\<open>iflat_uprobe_sim.rs\<close>): senders, crafted packets,
    receivers with their statistics, topology. The agent measures what they send, within what they
    print.
  \<^item> \<open>Sca_Sim\<close> (\<open>sca_sim.rs\<close>): roles, messages, sockets, the launcher with the thread of its pause key,
    interleaved by a schedule. \<open>Sca_Pipeline\<close>: the threads of the roles as the
    step relation \<open>act\<close>; every reachable state is in lockstep, none is stuck, and the samples that the
    handlers of \<open>Sca_Ebpf\<close> add to the windows of the components are at least their delays. \<open>Sca_Sim_Host\<close>: the system
    calls of a role as a trace, and the terminal. \<open>Sca_Sim_Discovered\<close>: what \<open>ss\<close> lists of the
    simulator, and that \<open>Sca_User\<close> finds both ends of every hop in it.
  \<^item> \<open>Irss_Sim\<close> (\<open>irss_sim.rs\<close>): both threads and the structures they hand to the system calls; the
    agent exports the forwarding times of any run.
  \<^item> \<open>Uprobe_Sim\<close> (\<open>uprobe_sim.rs\<close>): the instrumented function and its loop.

  The present theory holds the property that concerns two programs at once.

  \<^bold>\<open>Parameters.\<close> The kernel, \<open>aya\<close>, \<open>prometheus\<close>, the \<open>toml\<close> parser, the file system, the environment,
  process and socket system calls, and the program \<open>ss\<close> are not code of the repository. They are
  arguments of the definitions (\<open>kernel\<close>, \<open>aya\<close>, \<open>prom\<close>, \<open>world\<close>, \<open>os\<close>, \<open>server_env\<close>, \<open>sca_world\<close>,
  \<open>agent_env\<close>), and a theorem that relies on their documented behaviour says so in a hypothesis.

  \<^bold>\<open>Conventions.\<close> An \<open>anyhow\<close> error is its chain of messages, and \<open>Inl\<close> in a result. A method that
  takes \<open>&mut self\<close> returns the new state beside its result. Iteration over a standard hash map
  follows the association list that represents it; the theorems do not depend on its order.
  \<open>Instant\<close> is a natural number of nanoseconds; \<open>f64\<close> values are rationals with the rounding of each
  operation written out. Handlers run one at a time: an eBPF handler is one step, and a property of
  concurrent hooks is a property of every sequence of steps. The race of two CPUs inside one
  handler (lookup, then insert) is not represented.

  \<^bold>\<open>Bounds and loops.\<close> Loops over data are structural recursions; the bounded loops of the eBPF code
  have the bounds of the source. The event loop consumes a list of events and gives
  \<open>None\<close> when it is used up, which stands for still running; that a signal ends the loop is proved. The
  accept loop answers the connections among those events, in order.
  The loops of the simulators whose end is not obvious are kept as loops, the folding of a checksum as
  \<open>while_option\<close> and the search for the end of a string as a partial function, and proved to end.
  The other endless loops of the simulators run over the list of what they receive.

  \<^bold>\<open>Not modelled.\<close> The text of log messages; the command line parser \<open>clap\<close> (its result is the record
  \<open>BpfAgentArgs\<close>); panic handlers and licence sections of the eBPF crates; the build scripts of the eBPF
  crates, which print one line for cargo; signal handlers of the simulators, whose effect is that the
  list of events ends; what the detached server thread may still answer between the end of the event
  loop and the end of the process; writes to a connection that never return; unit tests; the templates under \<open>docs\<close>, of which \<open>custom.rs\<close> is the text of
  \<open>my_program\<close>.
\<close>


section \<open>Nothing is attached before it is configured\<close>

text \<open>
  C40. Settings before hooks: in every run of \<open>load\<close> of \<open>irss\<close> and of \<open>uprobe\<close>, whatever the loader
  answers and whether or not the load succeeds, each attach call comes after the successful writes
  of the values the hooks filter on, so no hook ever runs with the defaults in place of the
  settings.
\<close>

theorem settings_before_attach:
  assumes "is_attach a"
  shows "(irss_load aya p = (rp, as @ a # bs) \<longrightarrow>
      (\<forall>c \<in> {InsertMap ''RAW_DEST_MAP'' (WriteU32 RAW_DEST_KEY (from_le_bytes (irss_raw_dest p))),
             InsertMap ''LISTEN_PORT_MAP'' (WriteU32 LISTEN_PORT_KEY (ucast (irss_listen_port p)))}.
         c \<in> set as \<and> aya c = None))
    \<and> (uprobe_load aya q = (rq, as @ a # bs) \<longrightarrow>
        (let c = InsertMap ''STRING_ARG_MAP'' (WriteU32 STRING_ARG_KEY (up_string_arg q))
         in c \<in> set as \<and> aya c = None))"
proof (intro conjI impI)
  assume "irss_load aya p = (rp, as @ a # bs)"
  then obtain r where "run_steps aya (irss_config_steps p @ irss_attach_steps) = (as @ a # bs, r)"
    by (auto simp: irss_load_def split: prod.splits option.splits)
  note after = attach_after [OF this irss_config_no_attach refl assms]
  show "\<forall>c \<in> {InsertMap ''RAW_DEST_MAP'' (WriteU32 RAW_DEST_KEY (from_le_bytes (irss_raw_dest p))),
             InsertMap ''LISTEN_PORT_MAP'' (WriteU32 LISTEN_PORT_KEY (ucast (irss_listen_port p)))}.
         c \<in> set as \<and> aya c = None"
  proof (intro ballI, elim insertE emptyE)
    fix c
    assume "c = InsertMap ''RAW_DEST_MAP'' (WriteU32 RAW_DEST_KEY (from_le_bytes (irss_raw_dest p)))"
    then show "c \<in> set as \<and> aya c = None"
      by (intro after [where err = "\<lambda>e. [''failed to configure '' @ ''RAW_DEST_MAP'' @ '': '' @ e]"])
        (simp add: irss_config_steps_def configure_map_def)
  next
    fix c
    assume "c = InsertMap ''LISTEN_PORT_MAP'' (WriteU32 LISTEN_PORT_KEY (ucast (irss_listen_port p)))"
    then show "c \<in> set as \<and> aya c = None"
      by (intro after [where err = "\<lambda>e. [''failed to configure '' @ ''LISTEN_PORT_MAP'' @ '': '' @ e]"])
        (simp add: irss_config_steps_def configure_map_def)
  qed
next
  assume "uprobe_load aya q = (rq, as @ a # bs)"
  then obtain r where "run_steps aya (uprobe_config_steps q @ uprobe_attach_steps q) = (as @ a # bs, r)"
    by (auto simp: uprobe_load_def split: prod.splits option.splits if_splits)
  note after = attach_after [OF this uprobe_config_no_attach refl assms]
  show "let c = InsertMap ''STRING_ARG_MAP'' (WriteU32 STRING_ARG_KEY (up_string_arg q))
        in c \<in> set as \<and> aya c = None"
    unfolding Let_def
    by (rule after [where err = "\<lambda>e. [''failed to configure '' @ ''STRING_ARG_MAP'' @ '': '' @ e]"])
      (simp add: uprobe_config_steps_def configure_map_def)
qed

theorem settings_before_attach_witness:
  "\<exists>as a bs. snd (irss_load (\<lambda>_. None) irss_new) = as @ a # bs \<and> is_attach a
     \<and> InsertMap ''LISTEN_PORT_MAP'' (WriteU32 LISTEN_PORT_KEY 5020) \<in> set as"
proof -
  let ?a = "Attach ''irss_sys_enter_recvmsg'' (Tracepoint ''syscalls'' ''sys_enter_recvmsg'')"
  obtain rp cs where l: "irss_load (\<lambda>_. None) irss_new = (rp, cs)"
    by (cases "irss_load (\<lambda>_. None) irss_new")
  then have "?a \<in> set cs"
    by (auto simp: irss_load_def irss_config_steps_def irss_attach_steps_def load_idioms Irss_User.TRACEPOINTS_def)
  then obtain as bs where "cs = as @ ?a # bs" by (metis split_list)
  with settings_before_attach [of ?a "\<lambda>_. None" irss_new rp as bs] l show ?thesis
    by (auto simp: irss_new_def LISTEN_PORT_def intro!: exI)
qed

end
